(* ===== verification/Raven_Prelude.thy ===== *)
theory Raven_Prelude
  imports Main "HOL-Library.Word" "HOL-Library.Finite_Map" "HOL-Library.State_Monad"
    "HOL-Library.Sublist"
begin

text \<open>
  What all components share: the Go values the code works on (byte slices, nil-able
  references, panics), the string functions of Go's \<^verbatim>\<open>strings\<close> and \<^verbatim>\<open>fmt\<close> packages
  that the code calls, and Hoare triples for code that threads a state.  Effects are
  written in the state monad of \<^verbatim>\<open>HOL-Library.State_Monad\<close>; a Go function that returns
  \<^verbatim>\<open>(T, error)\<close> is a computation with a result of type \<open>'e + 't\<close>, with the error on the left.
\<close>

section \<open>Go values\<close>

type_synonym bytes = "8 word list"

text \<open>A nil-able byte slice: \<open>None\<close> is nil.\<close>

type_synonym byte_slice = "bytes option"

text \<open>The run-time panics the code can raise.\<close>

datatype go_panic = IndexOutOfRange | NilDereference | CloseOfClosedChannel

section \<open>Hint collections\<close>

text \<open>
  \<open>triple\<close>: the structural rules of Hoare triples, applied backwards.  \<open>path_simps\<close>: the
  equations that evaluate path functions on well-formed components.
\<close>

named_theorems triple
named_theorems path_simps

section \<open>Strings\<close>

text \<open>\<^verbatim>\<open>strings.Contains(s, sub)\<close>.\<close>

fun contains :: "string \<Rightarrow> string \<Rightarrow> bool" where
  "contains [] sub = (sub = [])"
| "contains (c # cs) sub = (prefix sub (c # cs) \<or> contains cs sub)"

lemma contains_sublist: "contains s sub \<longleftrightarrow> sublist sub s"
  by (induction s) (auto simp: sublist_Cons_right)

text \<open>\<^verbatim>\<open>strings.TrimPrefix\<close> and \<^verbatim>\<open>strings.TrimSuffix\<close>.\<close>

definition trim_prefix :: "string \<Rightarrow> string \<Rightarrow> string" where
  "trim_prefix s p = (if prefix p s then drop (length p) s else s)"

definition trim_suffix :: "string \<Rightarrow> string \<Rightarrow> string" where
  "trim_suffix s p = (if suffix p s then take (length s - length p) s else s)"

lemma trim_prefix_append [simp]: "trim_prefix (p @ s) p = s"
  by (simp add: trim_prefix_def)

lemma trim_suffix_append [simp]: "trim_suffix (s @ p) p = s"
  by (simp add: trim_suffix_def suffix_def)

text \<open>\<^verbatim>\<open>%d\<close> of a non-negative integer.\<close>

definition digit_char :: "nat \<Rightarrow> char" where
  "digit_char d = char_of (48 + d)"

fun itoa :: "nat \<Rightarrow> string" where
  "itoa n = (if n < 10 then [digit_char n] else itoa (n div 10) @ [digit_char (n mod 10)])"

declare itoa.simps [simp del]

lemma itoa_small [simp]: "n < 10 \<Longrightarrow> itoa n = [digit_char n]"
  by (subst itoa.simps) simp

lemma itoa_nonempty [simp]: "itoa n \<noteq> []"
  by (subst itoa.simps) simp

text \<open>\<open>%0wd\<close>: padded on the left with zeros to at least \<open>w\<close> digits.\<close>

definition pad :: "nat \<Rightarrow> nat \<Rightarrow> string" where
  "pad w n = replicate (w - length (itoa n)) (CHR ''0'') @ itoa n"

text \<open>Decimal digits.\<close>

definition is_digit :: "char \<Rightarrow> bool" where
  "is_digit c \<longleftrightarrow> 48 \<le> (of_char c :: nat) \<and> (of_char c :: nat) < 58"

lemma is_digit_char: "d < 10 \<Longrightarrow> is_digit (digit_char d)"
  by (simp add: is_digit_def digit_char_def)

lemma itoa_digits: "list_all is_digit (itoa n)"
proof (induction n rule: itoa.induct)
  case (1 n)
  then show ?case by (subst itoa.simps) (simp add: is_digit_char)
qed

lemma pad_digits: "list_all is_digit (pad w n)"
  using itoa_digits [of n] by (auto simp: pad_def list_all_iff is_digit_def)

lemma digits_no: "list_all is_digit s \<Longrightarrow> \<not> is_digit c \<Longrightarrow> c \<notin> set s"
  by (auto simp: list_all_iff)

lemma not_digit [simp]: "\<not> is_digit (CHR ''/'')" "\<not> is_digit (CHR ''d'')"
  by (simp_all add: is_digit_def)

lemma pad_nonempty [simp]: "pad w n \<noteq> []"
  by (simp add: pad_def)

text \<open>The value of a string of decimal digits; it inverts \<open>itoa\<close>.\<close>

definition dec_value :: "string \<Rightarrow> nat" where
  "dec_value s = foldl (\<lambda>n c. n * 10 + (of_char c - 48)) 0 s"

lemma dec_value_snoc: "dec_value (s @ [c]) = dec_value s * 10 + (of_char c - 48)"
  by (simp add: dec_value_def)

lemma dec_value_itoa [simp]: "dec_value (itoa n) = n"
proof (induction n rule: itoa.induct)
  case (1 n)
  show ?case
  proof (cases "n < 10")
    case True
    then show ?thesis by (simp add: dec_value_def digit_char_def)
  next
    case False
    then show ?thesis using 1 by (subst itoa.simps) (simp add: dec_value_snoc digit_char_def)
  qed
qed

text \<open>\<^verbatim>\<open>%d\<close> of an integer.\<close>

definition fmt_d :: "int \<Rightarrow> string" where
  "fmt_d i = (if i < 0 then CHR ''-'' # itoa (nat (- i)) else itoa (nat i))"

section \<open>Hoare triples over the state monad\<close>

definition hoare :: "('s \<Rightarrow> bool) \<Rightarrow> ('s, 'a) state \<Rightarrow> ('a \<Rightarrow> 's \<Rightarrow> bool) \<Rightarrow> bool" where
  "hoare P m Q \<longleftrightarrow> (\<forall>s r s'. P s \<longrightarrow> run_state m s = (r, s') \<longrightarrow> Q r s')"

lemma hoareI: "(\<And>s r s'. P s \<Longrightarrow> run_state m s = (r, s') \<Longrightarrow> Q r s') \<Longrightarrow> hoare P m Q"
  by (simp add: hoare_def)

lemma hoareD: "hoare P m Q \<Longrightarrow> P s \<Longrightarrow> run_state m s = (r, s') \<Longrightarrow> Q r s'"
  by (auto simp: hoare_def)

lemma hoare_return [triple]: "hoare (Q x) (State_Monad.return x) Q"
  by (simp add: hoare_def)

lemma hoare_bind [triple]:
  assumes "hoare P m R" and "\<And>x. hoare (R x) (f x) Q"
  shows "hoare P (State_Monad.bind m f) Q"
  using assms unfolding hoare_def by (auto split: prod.splits)

lemma hoare_pre: "hoare P' m Q \<Longrightarrow> (\<And>s. P s \<Longrightarrow> P' s) \<Longrightarrow> hoare P m Q"
  by (auto simp: hoare_def)

lemma hoare_post: "hoare P m Q' \<Longrightarrow> (\<And>r s. Q' r s \<Longrightarrow> Q r s) \<Longrightarrow> hoare P m Q"
  by (auto simp: hoare_def)

lemma hoare_conj: "hoare P m Q \<Longrightarrow> hoare P m R \<Longrightarrow> hoare P m (\<lambda>r s. Q r s \<and> R r s)"
  by (auto simp: hoare_def)

lemma hoare_if [triple]:
  assumes "b \<Longrightarrow> hoare P m Q" and "\<not> b \<Longrightarrow> hoare P n Q"
  shows "hoare P (if b then m else n) Q"
  using assms by simp

lemma hoare_sum [triple]:
  assumes "\<And>e. x = Inl e \<Longrightarrow> hoare P (f e) Q" and "\<And>y. x = Inr y \<Longrightarrow> hoare P (g y) Q"
  shows "hoare P (case x of Inl e \<Rightarrow> f e | Inr y \<Rightarrow> g y) Q"
  using assms by (cases x) auto

lemma hoare_option [triple]:
  assumes "x = None \<Longrightarrow> hoare P m Q" and "\<And>y. x = Some y \<Longrightarrow> hoare P (g y) Q"
  shows "hoare P (case x of None \<Rightarrow> m | Some y \<Rightarrow> g y) Q"
  using assms by (cases x) auto

lemma hoare_get: "(\<And>s. P s \<Longrightarrow> hoare (\<lambda>x. x = s) (f s) Q) \<Longrightarrow> hoare P (State_Monad.bind State_Monad.get f) Q"
  unfolding hoare_def by (simp add: State_Monad.get_def)

text \<open>The second computation from each state the first may leave.\<close>

lemma hoare_bind_at:
  assumes "hoare P m R" and "\<And>x s. R x s \<Longrightarrow> hoare (\<lambda>s'. s' = s) (f x) Q"
  shows "hoare P (State_Monad.bind m f) Q"
  using assms unfolding hoare_def by (auto split: prod.splits)

lemma hoare_True: "hoare P m (\<lambda>_ _. True)"
  by (simp add: hoare_def)

lemma hoare_return_pre: "(\<And>s. P s \<Longrightarrow> Q x s) \<Longrightarrow> hoare P (State_Monad.return x) Q"
  by (simp add: hoare_def)

text \<open>A fact that the precondition implies, and that does not mention the state.\<close>

lemma hoare_assume: "(\<And>s. P s \<Longrightarrow> A) \<Longrightarrow> (A \<Longrightarrow> hoare P m Q) \<Longrightarrow> hoare P m Q"
  unfolding hoare_def by blast

text \<open>A computation that keeps an invariant whatever it returns.\<close>

abbreviation keeps :: "('s \<Rightarrow> bool) \<Rightarrow> ('s, 'a) state \<Rightarrow> bool" where
  "keeps I m \<equiv> hoare I m (\<lambda>_. I)"

lemma keepsD: "keeps I m \<Longrightarrow> I s \<Longrightarrow> I (snd (run_state m s))"
  unfolding hoare_def by (metis prod.collapse)

end
