(* ===== verification/Kube_Types.thy ===== *)
theory Kube_Types
  imports Raven_Prelude
begin

text \<open>
  The shapes of the Kubernetes objects the controllers read and write (\<^verbatim>\<open>k8s.io/api\<close> and
  \<^verbatim>\<open>k8s.io/apimachinery\<close>), cut down to the fields the code mentions, and the errors it tells
  apart.  These types are not the repository's: nothing here describes how an API server
  behaves.  A nil slice and an empty one are both \<open>[]\<close> where the code cannot tell them
  apart; nil-able maps and pointers are options.
\<close>

section \<open>Names and metadata\<close>

datatype namespacedName = NamespacedName (nn_Namespace: string) (nn_Name: string)

type_synonym str_map = "(string, string) fmap option"

text \<open>Indexing a nil map, or a key that is missing, gives the zero value.\<close>

definition str_map_get :: "str_map \<Rightarrow> string \<Rightarrow> string" where
  "str_map_get m k =
     (case m of None \<Rightarrow> [] | Some f \<Rightarrow> (case fmlookup f k of None \<Rightarrow> [] | Some v \<Rightarrow> v))"

record objectMeta =
  meta_Name :: string
  meta_Namespace :: string
  meta_ResourceVersion :: string
  meta_Labels :: str_map
  meta_Annotations :: str_map

definition zero_meta :: objectMeta where
  "zero_meta = \<lparr>meta_Name = [], meta_Namespace = [], meta_ResourceVersion = [],
     meta_Labels = None, meta_Annotations = None\<rparr>"

record labelSelector =
  MatchLabels :: str_map
  MatchExpressions :: "(string \<times> string \<times> string list) list"

section \<open>Nodes\<close>

record nodeCondition =
  cond_Type :: string
  cond_Status :: string

record nodeAddress =
  addr_Type :: string
  addr_Address :: string

record nodeStatus =
  node_Conditions :: "nodeCondition list"
  node_Addresses :: "nodeAddress list"

record node =
  node_meta :: objectMeta
  node_PodCIDR :: string
  node_Status :: nodeStatus

abbreviation node_Name :: "node \<Rightarrow> string" where
  "node_Name n \<equiv> meta_Name (node_meta n)"

abbreviation NodeReady :: string where "NodeReady \<equiv> ''Ready''"
abbreviation ConditionTrue :: string where "ConditionTrue \<equiv> ''True''"
abbreviation NodeInternalIP :: string where "NodeInternalIP \<equiv> ''InternalIP''"

section \<open>Services and Endpoints\<close>

record servicePort =
  sp_Port :: int
  sp_Protocol :: string
  sp_TargetPort :: int

record service =
  svc_meta :: objectMeta
  svc_Ports :: "servicePort list"
  svc_Type :: string
  svc_ExternalTrafficPolicy :: string
  svc_Ingress :: "string list" \<comment> \<open>the IPs of \<^verbatim>\<open>Status.LoadBalancer.Ingress\<close>\<close>

record endpointAddress =
  ea_IP :: string
  ea_Hostname :: string
  ea_NodeName :: "string option"
  ea_TargetRef :: "string option"

record endpointPort =
  epp_Name :: string
  epp_Port :: int
  epp_Protocol :: string
  epp_AppProtocol :: "string option"

record endpointSubset =
  es_Addresses :: "endpointAddress list"
  es_NotReadyAddresses :: "endpointAddress list"
  es_Ports :: "endpointPort list"

record endpoints =
  eps_meta :: objectMeta
  eps_Subsets :: "endpointSubset list"

section \<open>Errors\<close>

text \<open>The reason of an API status error, as far as \<^verbatim>\<open>apierrors.Is...\<close> tells them apart.\<close>

datatype api_reason = ReasonNotFound | ReasonAlreadyExists | ReasonConflict | ReasonOther string

text \<open>
  Errors: an API status error, a plain text, and \<^verbatim>\<open>fmt.Errorf("text: %v", err)\<close>, which keeps
  the text of the inner error but not its reason.
\<close>

datatype error = ApiError api_reason | ErrorText string | Errorf string error

definition IsNotFound :: "error \<Rightarrow> bool" where
  "IsNotFound e \<longleftrightarrow> e = ApiError ReasonNotFound"

definition IsAlreadyExists :: "error \<Rightarrow> bool" where
  "IsAlreadyExists e \<longleftrightarrow> e = ApiError ReasonAlreadyExists"

text \<open>\<^verbatim>\<open>client.IgnoreNotFound\<close>.\<close>

definition IgnoreNotFound :: "error \<Rightarrow> error option" where
  "IgnoreNotFound e = (if IsNotFound e then None else Some e)"

section \<open>Reconcilers\<close>

text \<open>\<^verbatim>\<open>reconcile.Result\<close>, the delay in seconds.\<close>

record ctrl_result =
  Requeue :: bool
  RequeueAfter :: nat

definition ResultZero :: ctrl_result where
  "ResultZero = \<lparr>Requeue = False, RequeueAfter = 0\<rparr>"

text \<open>What a call of a reconciler comes to: a panic, or a result and an error.\<close>

type_synonym reconcile_outcome = "go_panic + (ctrl_result \<times> error option)"

end
