(* ===== verification/Raven_Types.thy ===== *)
theory Raven_Types
  imports Kube_Types
begin

text \<open>
  The API types of the repository: the Gateway resource
  (\<^verbatim>\<open>pkg/ravencontroller/apis/raven/v1alpha1\<close>), the Calico block affinity
  (\<^verbatim>\<open>pkg/ravencontroller/apis/calico/v3\<close>), their constants, and the predicates of
  \<^verbatim>\<open>controllers/util/util.go\<close> on them.  Values are immutable here; that a generated deep copy
  is the same value, in memory of its own, is shown in \<^verbatim>\<open>Deep_Copy_Spec\<close>.
\<close>

section \<open>gateway_types.go\<close>

definition EventActiveEndpointElected :: string where
  "EventActiveEndpointElected = ''ActiveEndpointElected''"

definition EventActiveEndpointLost :: string where
  "EventActiveEndpointLost = ''ActiveEndpointLost''"

definition ServiceNamespacedName :: namespacedName where
  "ServiceNamespacedName = NamespacedName ''kube-system'' ''raven-agent-service''"

definition ExposeTypeLoadBalancer :: string where
  "ExposeTypeLoadBalancer = ''LoadBalancer''"

text \<open>\<^verbatim>\<open>Config\<close> is a nil-able map: \<^verbatim>\<open>reflect.DeepEqual\<close> tells nil from empty.\<close>

record endpoint =
  NodeName :: string
  UnderNAT :: bool
  PublicIP :: string
  Config :: str_map

record nodeInfo =
  ni_NodeName :: string
  ni_PrivateIP :: string
  ni_Subnets :: "string list"

record gatewaySpec =
  NodeSelector :: "labelSelector option"
  Endpoints :: "endpoint list"
  ExposeType :: string

record gatewayStatus =
  Nodes :: "nodeInfo list"
  ActiveEndpoint :: "endpoint option"

record gateway =
  gw_Kind :: string
  gw_meta :: objectMeta
  Spec :: gatewaySpec
  Status :: gatewayStatus

abbreviation gw_Name :: "gateway \<Rightarrow> string" where
  "gw_Name g \<equiv> meta_Name (gw_meta g)"

section \<open>groupversion_info.go and well_known_labels_annotations.go\<close>

definition GroupVersion_Group :: string where
  "GroupVersion_Group = ''raven.openyurt.io''"

definition LabelCurrentGateway :: string where
  "LabelCurrentGateway = ''raven.openyurt.io/gateway''"

section \<open>calico/v3/blockaffinity.go\<close>

definition KindBlockAffinity :: string where "KindBlockAffinity = ''BlockAffinity''"

definition KindBlockAffinityList :: string where
  "KindBlockAffinityList = ''BlockAffinityList''"

record blockAffinitySpec =
  ba_State :: string
  ba_Node :: string
  ba_CIDR :: string
  ba_Deleted :: string

record blockAffinity =
  ba_Kind :: string
  ba_APIVersion :: string
  ba_meta :: objectMeta
  ba_Spec :: blockAffinitySpec

record blockAffinityList =
  bal_Kind :: string
  bal_APIVersion :: string
  bal_Items :: "blockAffinity list"

text \<open>The API version is a constant of the Calico API module, a parameter here.\<close>

definition NewBlockAffinity :: "string \<Rightarrow> blockAffinity" where
  "NewBlockAffinity groupVersionCurrent =
     \<lparr>ba_Kind = KindBlockAffinity, ba_APIVersion = groupVersionCurrent, ba_meta = zero_meta,
      ba_Spec = \<lparr>ba_State = [], ba_Node = [], ba_CIDR = [], ba_Deleted = []\<rparr>\<rparr>"

definition NewBlockAffinityList :: "string \<Rightarrow> blockAffinityList" where
  "NewBlockAffinityList groupVersionCurrent =
     \<lparr>bal_Kind = KindBlockAffinityList, bal_APIVersion = groupVersionCurrent, bal_Items = []\<rparr>"

section \<open>controllers/util/util.go: IsGatewayExposeByLB\<close>

definition IsGatewayExposeByLB :: "gateway \<Rightarrow> bool" where
  "IsGatewayExposeByLB g \<longleftrightarrow> ExposeType (Spec g) = ExposeTypeLoadBalancer"

section \<open>The client\<close>

text \<open>
  The cluster the reconcilers talk to through \<^verbatim>\<open>client.Client\<close> and the event recorder, and
  \<^verbatim>\<open>labels.Parse\<close>.  It is a parameter of the model: every call may answer anything and move
  the cluster's state \<open>'s\<close> to any other (a write, a cache update, another writer).
\<close>

datatype event_type = EventTypeNormal | EventTypeWarning

record k8s_event =
  ev_type :: event_type
  ev_reason :: string
  ev_message :: string

record ('s, 'sel) cluster =
  labels_Parse :: "string \<Rightarrow> error + 'sel"
  Get_Gateway :: "namespacedName \<Rightarrow> ('s, error + gateway) state"
  List_Gateways :: "('s, error + gateway list) state"
  StatusUpdate_Gateway :: "gateway \<Rightarrow> ('s, error option) state"
  List_Nodes :: "'sel \<Rightarrow> ('s, error + node list) state"
  Get_Node :: "namespacedName \<Rightarrow> ('s, error + node) state"
  List_BlockAffinities :: "('s, error + blockAffinity list) state"
  Get_Service :: "namespacedName \<Rightarrow> ('s, error + service) state"
  Create_Service :: "service \<Rightarrow> ('s, error option) state"
  Delete_Service :: "namespacedName \<Rightarrow> ('s, error option) state"
  Get_Endpoints :: "namespacedName \<Rightarrow> ('s, error + endpoints) state"
  Create_Endpoints :: "endpoints \<Rightarrow> ('s, error option) state"
  Update_Endpoints :: "endpoints \<Rightarrow> ('s, error option) state"
  Delete_Endpoints :: "namespacedName \<Rightarrow> ('s, error option) state"
  Record_Event :: "gateway \<Rightarrow> k8s_event \<Rightarrow> ('s, unit) state"

end
