(* ===== verification/Go_Net.thy ===== *)
theory Go_Net
  imports Raven_Prelude
begin

text \<open>
  \<^verbatim>\<open>net.ParseIP\<close> of Go 1.17 (the version the repository's continuous integration builds
  with), which decides which addresses the webhook and the controllers accept.  An address is
  its 16-byte form or nil.
\<close>

section \<open>Numbers\<close>

abbreviation big :: nat where
  "big \<equiv> 0xFFFFFF"

definition dec_digit :: "char \<Rightarrow> nat option" where
  "dec_digit c = (let k = of_char c :: nat in if 48 \<le> k \<and> k \<le> 57 then Some (k - 48) else None)"

definition hex_digit :: "char \<Rightarrow> nat option" where
  "hex_digit c =
     (let k = of_char c :: nat
      in if 48 \<le> k \<and> k \<le> 57 then Some (k - 48)
         else if 97 \<le> k \<and> k \<le> 102 then Some (k - 87)
         else if 65 \<le> k \<and> k \<le> 70 then Some (k - 55)
         else None)"

text \<open>
  \<^verbatim>\<open>dtoi\<close> and \<^verbatim>\<open>xtoi\<close>: the value of the longest prefix of digits and its length; nil when there
  is no digit or the value reaches \<open>big\<close>.
\<close>

fun digits_loop :: "(char \<Rightarrow> nat option) \<Rightarrow> nat \<Rightarrow> nat \<Rightarrow> nat \<Rightarrow> string \<Rightarrow> (nat \<times> nat) option" where
  "digits_loop dig base n i [] = (if i = 0 then None else Some (n, i))"
| "digits_loop dig base n i (c # cs) =
     (case dig c of
        None \<Rightarrow> if i = 0 then None else Some (n, i)
      | Some d \<Rightarrow> let n' = n * base + d
                  in if n' \<ge> big then None else digits_loop dig base n' (Suc i) cs)"

definition dtoi :: "string \<Rightarrow> (nat \<times> nat) option" where
  "dtoi = digits_loop dec_digit 10 0 0"

definition xtoi :: "string \<Rightarrow> (nat \<times> nat) option" where
  "xtoi = digits_loop hex_digit 16 0 0"

section \<open>IPv4\<close>

definition v4InV6Prefix :: bytes where
  "v4InV6Prefix = [0, 0, 0, 0, 0, 0, 0, 0, 0, 0, 0xff, 0xff]"

text \<open>The loop over the octets: \<open>k\<close> octets are left, \<open>acc\<close> holds those read.\<close>

fun parseIPv4_loop :: "nat \<Rightarrow> string \<Rightarrow> bytes \<Rightarrow> bytes option" where
  "parseIPv4_loop 0 s acc = (if s = [] then Some acc else None)"
| "parseIPv4_loop (Suc k) s acc =
     (if s = [] \<or> (acc \<noteq> [] \<and> hd s \<noteq> CHR ''.'') then None
      else let t = (if acc \<noteq> [] then tl s else s)
           in case dtoi t of
                None \<Rightarrow> None
              | Some (n, c) \<Rightarrow>
                  if n > 255 \<or> (c > 1 \<and> hd t = CHR ''0'') then None
                  else parseIPv4_loop k (drop c t) (acc @ [word_of_nat n]))"

definition parseIPv4 :: "string \<Rightarrow> byte_slice" where
  "parseIPv4 s = map_option (\<lambda>p. v4InV6Prefix @ p) (parseIPv4_loop 4 s [])"

section \<open>IPv6\<close>

text \<open>
  The loop over the 16-bit groups.  \<open>ip\<close> holds the bytes read (its length is Go's index
  \<open>i\<close>) and \<open>ell\<close> the position of the ellipsis.  The result is the state at the loop's end,
  with the rest of the input, or nil.
\<close>

function parseIPv6_loop ::
  "string \<Rightarrow> bytes \<Rightarrow> nat option \<Rightarrow> (string \<times> bytes \<times> nat option) option" where
  "parseIPv6_loop s ip ell =
     (if length ip \<ge> 16 then Some (s, ip, ell)
      else case xtoi s of
        None \<Rightarrow> None
      | Some (n, c) \<Rightarrow>
          if n > 0xFFFF then None
          else if c < length s \<and> s ! c = CHR ''.'' then
            (if (ell = None \<and> length ip \<noteq> 12) \<or> length ip + 4 > 16 then None
             else case parseIPv4 s of
                    None \<Rightarrow> None
                  | Some ip4 \<Rightarrow> Some ([], ip @ drop 12 ip4, ell))
          else
            let ip' = ip @ [word_of_nat (n div 256), word_of_nat (n mod 256)]; t = drop c s
            in if t = [] then Some ([], ip', ell)
               else if hd t \<noteq> CHR '':'' \<or> length t = 1 then None
               else let u = tl t
                    in if hd u = CHR '':'' then
                         (if ell \<noteq> None then None
                          else if tl u = [] then Some ([], ip', Some (length ip'))
                          else parseIPv6_loop (tl u) ip' (Some (length ip')))
                       else parseIPv6_loop u ip' ell)"
  by pat_completeness auto
termination
  by (relation "measure (\<lambda>(s, ip, ell). 16 - length ip)") auto

declare parseIPv6_loop.simps [simp del]

definition parseIPv6 :: "string \<Rightarrow> byte_slice" where
  "parseIPv6 s =
     (let lead = (take 2 s = ''::''); t = (if lead then drop 2 s else s)
      in if lead \<and> t = [] then Some (replicate 16 0)
         else case parseIPv6_loop t [] (if lead then Some 0 else None) of
                None \<Rightarrow> None
              | Some (rest, ip, ell) \<Rightarrow>
                  if rest \<noteq> [] then None
                  else if length ip < 16 then
                    (case ell of
                       None \<Rightarrow> None
                     | Some e \<Rightarrow> Some (take e ip @ replicate (16 - length ip) 0 @ drop e ip))
                  else (case ell of None \<Rightarrow> Some ip | Some _ \<Rightarrow> None))"

section \<open>ParseIP\<close>

text \<open>The first dot or colon decides the family.\<close>

fun first_sep :: "string \<Rightarrow> char option" where
  "first_sep [] = None"
| "first_sep (c # cs) = (if c = CHR ''.'' \<or> c = CHR '':'' then Some c else first_sep cs)"

definition ParseIP :: "string \<Rightarrow> byte_slice" where
  "ParseIP s =
     (case first_sep s of
        None \<Rightarrow> None
      | Some c \<Rightarrow> if c = CHR ''.'' then parseIPv4 s else parseIPv6 s)"

text \<open>\<^verbatim>\<open>IP.To4\<close> and \<^verbatim>\<open>IP.To16\<close>.\<close>

definition To4 :: "byte_slice \<Rightarrow> byte_slice" where
  "To4 ip =
     (case ip of
        None \<Rightarrow> None
      | Some b \<Rightarrow> if length b = 4 then Some b
                  else if length b = 16 \<and> take 12 b = v4InV6Prefix then Some (drop 12 b)
                  else None)"

definition To16 :: "byte_slice \<Rightarrow> byte_slice" where
  "To16 ip =
     (case ip of
        None \<Rightarrow> None
      | Some b \<Rightarrow> if length b = 4 then Some (v4InV6Prefix @ b)
                  else if length b = 16 then Some b
                  else None)"

section \<open>An address that parses has 16 bytes\<close>

lemma parseIPv4_loop_length: "parseIPv4_loop k s acc = Some p \<Longrightarrow> length p = length acc + k"
  by (induction k s acc rule: parseIPv4_loop.induct)
    (auto simp: Let_def split: if_splits option.splits)

lemma parseIPv4_length: "parseIPv4 s = Some p \<Longrightarrow> length p = 16"
  by (auto simp: parseIPv4_def v4InV6Prefix_def dest: parseIPv4_loop_length)

lemma parseIPv6_loop_bounds:
  "parseIPv6_loop s ip ell = Some (rest, ip', ell') \<Longrightarrow> even (length ip) \<Longrightarrow> length ip \<le> 16 \<Longrightarrow>
   (\<forall>e. ell = Some e \<longrightarrow> e \<le> length ip) \<Longrightarrow>
   length ip' \<le> 16 \<and> (\<forall>e. ell' = Some e \<longrightarrow> e \<le> length ip')"
proof (induction s ip ell rule: parseIPv6_loop.induct)
  case (1 s ip ell)
  have ev: "length ip < 16 \<Longrightarrow> length ip + 2 \<le> 16" using "1.prems"(2) by presburger
  show ?case
  proof (cases "length ip \<ge> 16")
    case True
    with "1.prems" show ?thesis by (auto simp: parseIPv6_loop.simps [of s ip ell])
  next
    case False
    with ev have le: "length ip + 2 \<le> 16" by simp
    obtain n c where x: "xtoi s = Some (n, c)" and n: "n \<le> 0xFFFF"
      using "1.prems"(1) False
      by (auto simp: parseIPv6_loop.simps [of s ip ell] split: option.splits if_splits)
    note IH = "1.IH" [OF False x refl]
    show ?thesis
    proof (cases "c < length s \<and> s ! c = CHR ''.''")
      case True
      with "1.prems" False x n show ?thesis
        by (force simp: parseIPv6_loop.simps [of s ip ell] parseIPv4_length
            split: if_splits option.splits)
    next
      case nodot: False
      define ip2 where "ip2 = ip @ [word_of_nat (n div 256), word_of_nat (n mod 256) :: 8 word]"
      define t where "t = drop c s"
      have l2: "length ip2 = length ip + 2" by (simp add: ip2_def)
      have eq: "parseIPv6_loop s ip ell =
          (if t = [] then Some ([], ip2, ell)
           else if hd t \<noteq> CHR '':'' \<or> length t = 1 then None
           else if hd (tl t) = CHR '':'' then
             (if ell \<noteq> None then None
              else if tl (tl t) = [] then Some ([], ip2, Some (length ip2))
              else parseIPv6_loop (tl (tl t)) ip2 (Some (length ip2)))
           else parseIPv6_loop (tl t) ip2 ell)"
        using False x n nodot
        by (simp add: parseIPv6_loop.simps [of s ip ell] ip2_def t_def Let_def)
      consider "parseIPv6_loop s ip ell = Some ([], ip2, ell)"
        | "parseIPv6_loop s ip ell = Some ([], ip2, Some (length ip2))"
        | "t \<noteq> []" "\<not> (hd t \<noteq> CHR '':'' \<or> length t = 1)" "hd (tl t) = CHR '':''"
          "\<not> ell \<noteq> None" "tl (tl t) \<noteq> []"
          "parseIPv6_loop s ip ell = parseIPv6_loop (tl (tl t)) ip2 (Some (length ip2))"
        | "t \<noteq> []" "\<not> (hd t \<noteq> CHR '':'' \<or> length t = 1)" "hd (tl t) \<noteq> CHR '':''"
          "parseIPv6_loop s ip ell = parseIPv6_loop (tl t) ip2 ell"
        using eq "1.prems"(1) by (simp split: if_splits)
      then show ?thesis
      proof cases
        case 1
        with "1.prems" l2 le show ?thesis by fastforce
      next
        case 2
        with "1.prems" l2 le show ?thesis by auto
      next
        case 3
        then show ?thesis
          using IH(1) [OF _ nodot ip2_def t_def 3(1,2) refl 3(3,4,5)] n "1.prems" l2 le by simp
      next
        case 4
        then show ?thesis
          using IH(2) [OF _ nodot ip2_def t_def 4(1,2) refl 4(3)] n "1.prems" l2 le by fastforce
      qed
    qed
  qed
qed

lemma parseIPv6_length: "parseIPv6 s = Some p \<Longrightarrow> length p = 16"
  by (auto simp: parseIPv6_def Let_def split: if_splits option.splits
      dest!: parseIPv6_loop_bounds)

lemma ParseIP_length: "ParseIP s = Some p \<Longrightarrow> length p = 16"
  by (auto simp: ParseIP_def parseIPv4_length parseIPv6_length split: if_splits option.splits)

end
