(* ===== verification/Gateway_Webhook.thy ===== *)
theory Gateway_Webhook
  imports Raven_Types Go_Net
begin

text \<open>
  The admission webhook of the Gateway resource
  (\<^verbatim>\<open>apis/raven/v1alpha1/gateway_webhook.go\<close>): the defaulter, the validator with the list of
  field errors it builds, and the panic on a gateway without endpoints.  The lemmas
  characterise the accepted gateways and the reported errors.
\<close>

section \<open>Field errors\<close>

text \<open>
  \<^verbatim>\<open>field.Invalid(path, value, detail)\<close>; the path is the list of its elements.
\<close>

datatype bad_value = BadBool bool | BadString string | BadEndpoints "endpoint list"

datatype field_error = Invalid (fe_path: "string list") (fe_value: bad_value) (fe_detail: string)

text \<open>\<^verbatim>\<open>apierrors.NewInvalid\<close>.\<close>

datatype invalid_error =
  NewInvalid (inv_group: string) (inv_kind: string) (inv_name: string)
    (inv_causes: "field_error list")

definition endpoint_path :: "nat \<Rightarrow> string \<Rightarrow> string list" where
  "endpoint_path i child = [''spec'', ''endpoints['' @ itoa i @ '']'', child]"

section \<open>validateIP, validateGateway\<close>

definition validateIP :: "string \<Rightarrow> error option" where
  "validateIP ip =
     (let s = ParseIP ip
      in if To4 s \<noteq> None \<or> To16 s \<noteq> None then None
         else Some (ErrorText (''invalid ip address: '' @ ip)))"

text \<open>The body of the loop over the endpoints: the errors it appends for endpoint \<open>i\<close>.\<close>

definition validate_endpoint :: "string \<Rightarrow> bool \<Rightarrow> nat \<Rightarrow> endpoint \<Rightarrow> field_error list" where
  "validate_endpoint exposeType underNAT i ep =
     (if UnderNAT ep \<noteq> underNAT
      then [Invalid (endpoint_path i ''underNAT'') (BadBool (UnderNAT ep))
              ''the 'underNAT' field in endpoints must be the same''] else []) @
     (if PublicIP ep \<noteq> [] then
        (if exposeType = ExposeTypeLoadBalancer
         then [Invalid (endpoint_path i ''publicIP'') (BadString (PublicIP ep))
                 (''the 'publicIP' field must not be set when spec.exposeType = '' @
                  ExposeTypeLoadBalancer)] else []) @
        (if validateIP (PublicIP ep) \<noteq> None
         then [Invalid (endpoint_path i ''publicIP'') (BadString (PublicIP ep))
                 ''the 'publicIP' field must be a validate IP address''] else [])
      else []) @
     (if length (NodeName ep) = 0
      then [Invalid (endpoint_path i ''nodeName'') (BadString (NodeName ep))
              ''the 'nodeName' field must not be empty''] else [])"

fun validate_loop ::
  "string \<Rightarrow> bool \<Rightarrow> nat \<Rightarrow> endpoint list \<Rightarrow> field_error list \<Rightarrow> field_error list" where
  "validate_loop exposeType underNAT i [] errList = errList"
| "validate_loop exposeType underNAT i (ep # eps) errList =
     validate_loop exposeType underNAT (Suc i) eps
       (errList @ validate_endpoint exposeType underNAT i ep)"

text \<open>
  The first check only appends an error; the next statement indexes the empty slice.
\<close>

definition validateGateway :: "gateway \<Rightarrow> go_panic + invalid_error option" where
  "validateGateway g =
     (let eps = Endpoints (Spec g);
          errList = (if length eps = 0
                     then [Invalid [''spec'', ''endpoints''] (BadEndpoints eps)
                             (''missing required field 'endpoints'' @ [CHR 0x27])] else [])
      in case eps of
           [] \<Rightarrow> Inl IndexOutOfRange
         | ep0 # _ \<Rightarrow>
             let errs = validate_loop (ExposeType (Spec g)) (UnderNAT ep0) 0 eps errList
             in if errs \<noteq> []
                then Inr (Some (NewInvalid GroupVersion_Group (gw_Kind g) (gw_Name g) errs))
                else Inr None)"

definition ValidateCreate :: "gateway \<Rightarrow> go_panic + invalid_error option" where
  "ValidateCreate g = validateGateway g"

definition ValidateUpdate :: "gateway \<Rightarrow> gateway \<Rightarrow> go_panic + invalid_error option" where
  "ValidateUpdate g old = validateGateway g"

definition ValidateDelete :: "gateway \<Rightarrow> go_panic + invalid_error option" where
  "ValidateDelete g = Inr None"

section \<open>Default\<close>

definition Default :: "gateway \<Rightarrow> gateway" where
  "Default g = g\<lparr>Spec := (Spec g)\<lparr>NodeSelector := Some
     \<lparr>MatchLabels = Some (fmupd LabelCurrentGateway (gw_Name g) fmempty),
      MatchExpressions = []\<rparr>\<rparr>\<rparr>"

section \<open>Lemmas\<close>

lemma validateIP_iff: "validateIP ip = None \<longleftrightarrow> ParseIP ip \<noteq> None"
  by (cases "ParseIP ip") (auto simp: validateIP_def To4_def To16_def dest: ParseIP_length)

text \<open>What a well-formed endpoint is, over the first endpoint's NAT flag.\<close>

definition endpoint_ok :: "string \<Rightarrow> bool \<Rightarrow> endpoint \<Rightarrow> bool" where
  "endpoint_ok exposeType underNAT ep \<longleftrightarrow>
     UnderNAT ep = underNAT \<and> NodeName ep \<noteq> [] \<and>
     (PublicIP ep = [] \<or> (exposeType \<noteq> ExposeTypeLoadBalancer \<and> ParseIP (PublicIP ep) \<noteq> None))"

lemma validate_endpoint_Nil [simp]:
  "validate_endpoint x u i ep = [] \<longleftrightarrow> endpoint_ok x u ep"
  by (auto simp: validate_endpoint_def endpoint_ok_def validateIP_iff)

lemma validate_loop_append:
  "validate_loop x u i eps errs =
   errs @ concat (map (\<lambda>(j, ep). validate_endpoint x u j ep) (enumerate i eps))"
  by (induction eps arbitrary: i errs) auto

lemma validate_loop_Nil:
  "validate_loop x u i eps [] = [] \<longleftrightarrow> list_all (endpoint_ok x u) eps"
  by (induction eps arbitrary: i) (auto simp: validate_loop_append list_all_iff in_set_enumerate_eq)

declare validate_loop.simps [simp del]

lemma validateGateway_Nil: "Endpoints (Spec g) = [] \<Longrightarrow> validateGateway g = Inl IndexOutOfRange"
  by (simp add: validateGateway_def)

lemma validateGateway_Cons:
  "Endpoints (Spec g) = ep # eps \<Longrightarrow>
   validateGateway g =
     (let errs = validate_loop (ExposeType (Spec g)) (UnderNAT ep) 0 (ep # eps) []
      in Inr (if errs = [] then None
              else Some (NewInvalid GroupVersion_Group (gw_Kind g) (gw_Name g) errs)))"
  by (simp add: validateGateway_def Let_def)

text \<open>Validation reads the kind, the name, the endpoints and the expose type only.\<close>

lemma validateGateway_cong:
  assumes "Endpoints (Spec g) = Endpoints (Spec h)" "ExposeType (Spec g) = ExposeType (Spec h)"
    "gw_Kind g = gw_Kind h" "gw_Name g = gw_Name h"
  shows "validateGateway g = validateGateway h"
proof (cases "Endpoints (Spec g)")
  case Nil
  with assms show ?thesis by (simp add: validateGateway_Nil)
next
  case (Cons ep eps)
  with assms show ?thesis
    by (simp add: validateGateway_Cons [of g ep eps] validateGateway_Cons [of h ep eps] Let_def)
qed

subsection \<open>The printed index determines the index\<close>

definition digit_value :: "char \<Rightarrow> nat" where
  "digit_value c = of_char c - 48"

lemma digit_value_char [simp]: "d < 10 \<Longrightarrow> digit_value (digit_char d) = d"
  by (simp add: digit_value_def digit_char_def)

definition atoi :: "string \<Rightarrow> nat" where
  "atoi s = foldl (\<lambda>n c. 10 * n + digit_value c) 0 s"

lemma atoi_itoa [simp]: "atoi (itoa n) = n"
proof (induction n rule: itoa.induct)
  case (1 n)
  show ?case
  proof (cases "n < 10")
    case True
    then show ?thesis by (simp add: atoi_def)
  next
    case False
    with 1 show ?thesis by (subst itoa.simps) (simp add: atoi_def)
  qed
qed

lemma itoa_inject [simp]: "itoa m = itoa n \<longleftrightarrow> m = n"
  using atoi_itoa by metis

lemma endpoint_path_inject [simp]: "endpoint_path i a = endpoint_path j b \<longleftrightarrow> i = j \<and> a = b"
  by (simp add: endpoint_path_def)

subsection \<open>Dotted quads\<close>

lemma dec_digit_char [simp]: "d < 10 \<Longrightarrow> dec_digit (digit_char d) = Some d"
  by (simp add: dec_digit_def digit_char_def)

lemma itoa_two: "10 \<le> n \<Longrightarrow> n < 100 \<Longrightarrow> itoa n = [digit_char (n div 10), digit_char (n mod 10)]"
  by (subst itoa.simps) simp

lemma itoa_three:
  "100 \<le> n \<Longrightarrow> n < 1000 \<Longrightarrow>
   itoa n = [digit_char (n div 100), digit_char (n div 10 mod 10), digit_char (n mod 10)]"
  by (subst itoa.simps) (simp add: itoa_two div_mult2_eq [symmetric])

text \<open>A rest of the input that ends the number: empty, or not a digit.\<close>

definition ends_number :: "string \<Rightarrow> bool" where
  "ends_number s \<longleftrightarrow> (case s of [] \<Rightarrow> True | c # _ \<Rightarrow> dec_digit c = None)"

lemma digits_loop_end:
  "ends_number s \<Longrightarrow> i \<noteq> 0 \<Longrightarrow> digits_loop dec_digit b n i s = Some (n, i)"
  by (cases s) (auto simp: ends_number_def)

lemma digits_loop_digit:
  "d < 10 \<Longrightarrow> n * 10 + d < big \<Longrightarrow>
   digits_loop dec_digit 10 n i (digit_char d # s) = digits_loop dec_digit 10 (n * 10 + d) (Suc i) s"
  by (simp add: Let_def)

lemma dtoi_itoa:
  assumes n: "n < 1000" and s: "ends_number s"
  shows "dtoi (itoa n @ s) = Some (n, length (itoa n))"
proof -
  have 2: "n div 10 * 10 + n mod 10 = n" by simp
  have 3: "n div 100 * 10 + n div 10 mod 10 = n div 10"
    using div_mult_mod_eq [of "n div 10" 10] by (simp add: div_mult2_eq [symmetric])
  have big: "n < big" "n div 10 < big" "n div 100 < big" using n by simp_all
  have "n div 100 < 10" using n by simp
  consider "n < 10" | "10 \<le> n" "n < 100" | "100 \<le> n" by linarith
  then show ?thesis
    by cases (use n s 2 3 big in \<open>simp_all add: dtoi_def itoa_two itoa_three digits_loop_digit
      digits_loop_end del: digits_loop.simps\<close>)
qed

lemma itoa_no_leading_zero: "n < 1000 \<Longrightarrow> length (itoa n) > 1 \<Longrightarrow> hd (itoa n) \<noteq> CHR ''0''"
proof -
  assume a: "n < 1000" and b: "length (itoa n) > 1"
  have nz: "digit_char d \<noteq> CHR ''0''" if "0 < d" "d < 10" for d
  proof
    assume "digit_char d = CHR ''0''"
    then have "digit_value (digit_char d) = 0" by (simp add: digit_value_def)
    with that show False by simp
  qed
  from b have "10 \<le> n" by (cases "n < 10") auto
  with a nz show "hd (itoa n) \<noteq> CHR ''0''"
    by (cases "n < 100") (simp_all add: itoa_two itoa_three)
qed

lemma parseIPv4_loop_octet:
  assumes "n < 256" and "ends_number s"
  shows "parseIPv4_loop (Suc k) (itoa n @ s) [] = parseIPv4_loop k s [word_of_nat n]"
    and "acc \<noteq> [] \<Longrightarrow> parseIPv4_loop (Suc k) (CHR ''.'' # itoa n @ s) acc =
           parseIPv4_loop k s (acc @ [word_of_nat n])"
proof -
  have d: "dtoi (itoa n @ s) = Some (n, length (itoa n))"
    using assms by (simp add: dtoi_itoa)
  have z: "\<not> (length (itoa n) > 1 \<and> hd (itoa n @ s) = CHR ''0'')"
    using itoa_no_leading_zero [of n] assms(1) by simp
  show "parseIPv4_loop (Suc k) (itoa n @ s) [] = parseIPv4_loop k s [word_of_nat n]"
    using d z assms(1) by (auto simp: Let_def)
  show "acc \<noteq> [] \<Longrightarrow> parseIPv4_loop (Suc k) (CHR ''.'' # itoa n @ s) acc =
           parseIPv4_loop k s (acc @ [word_of_nat n])"
    using d z assms(1) by (auto simp: Let_def)
qed

definition dotted_quad :: "nat \<Rightarrow> nat \<Rightarrow> nat \<Rightarrow> nat \<Rightarrow> string" where
  "dotted_quad a b c d = itoa a @ ''.'' @ itoa b @ ''.'' @ itoa c @ ''.'' @ itoa d"

lemma ends_number_simps [simp]: "ends_number []" "ends_number (CHR ''.'' # s)"
  by (simp_all add: ends_number_def dec_digit_def)

lemma parseIPv4_dotted_quad:
  assumes "a < 256" "b < 256" "c < 256" "d < 256"
  shows "parseIPv4 (dotted_quad a b c d) =
           Some (v4InV6Prefix @ [word_of_nat a, word_of_nat b, word_of_nat c, word_of_nat d])"
  using assms parseIPv4_loop_octet(2) [of d "[]"]
  by (simp add: parseIPv4_def dotted_quad_def numeral_eq_Suc parseIPv4_loop_octet
      del: parseIPv4_loop.simps(2))

lemma first_sep_digits:
  "list_all (\<lambda>c. c \<noteq> CHR ''.'' \<and> c \<noteq> CHR '':'') ds \<Longrightarrow> first_sep (ds @ CHR ''.'' # s) = Some (CHR ''.'')"
  by (induction ds) auto

lemma itoa_no_sep: "list_all (\<lambda>c. c \<noteq> CHR ''.'' \<and> c \<noteq> CHR '':'') (itoa n)"
proof (induction n rule: itoa.induct)
  case (1 n)
  have d: "digit_char k \<noteq> CHR ''.'' \<and> digit_char k \<noteq> CHR '':''" if "k < 10" for k
  proof -
    have "of_char (digit_char k) = (48 + k :: nat)" using that by (simp add: digit_char_def)
    then show ?thesis using that by auto
  qed
  from 1 d show ?case by (subst itoa.simps) auto
qed

lemma ParseIP_dotted_quad:
  assumes "a < 256" "b < 256" "c < 256" "d < 256"
  shows "ParseIP (dotted_quad a b c d) =
           Some (v4InV6Prefix @ [word_of_nat a, word_of_nat b, word_of_nat c, word_of_nat d])"
proof -
  have "first_sep (dotted_quad a b c d) = Some (CHR ''.'')"
    using first_sep_digits [OF itoa_no_sep] by (simp add: dotted_quad_def)
  then show ?thesis using parseIPv4_dotted_quad [OF assms] by (simp add: ParseIP_def)
qed

section \<open>Properties\<close>

text \<open>
  C6: the validating webhook accepts a gateway exactly when it has an endpoint, all endpoints
  carry the first one's NAT flag, every endpoint names a node, and every public IP that is
  set parses and does not come with the LoadBalancer expose type.
\<close>

theorem validateGateway_accepts_iff:
  "validateGateway g = Inr None \<longleftrightarrow>
     Endpoints (Spec g) \<noteq> [] \<and>
     (\<forall>ep \<in> set (Endpoints (Spec g)).
        UnderNAT ep = UnderNAT (hd (Endpoints (Spec g))) \<and> NodeName ep \<noteq> [] \<and>
        (PublicIP ep \<noteq> [] \<longrightarrow>
           ExposeType (Spec g) \<noteq> ''LoadBalancer'' \<and> ParseIP (PublicIP ep) \<noteq> None))"
proof (cases "Endpoints (Spec g)")
  case Nil
  then show ?thesis by (simp add: validateGateway_Nil)
next
  case (Cons ep eps)
  then show ?thesis
    by (auto simp: validateGateway_Cons Let_def validate_loop_Nil list_all_iff endpoint_ok_def
        ExposeTypeLoadBalancer_def)
qed

definition sample_gateway :: gateway where
  "sample_gateway = \<lparr>gw_Kind = ''Gateway'', gw_meta = zero_meta\<lparr>meta_Name := ''gw''\<rparr>,
     Spec = \<lparr>NodeSelector = None,
       Endpoints = [\<lparr>NodeName = ''n1'', UnderNAT = True, PublicIP = dotted_quad 10 0 0 1, Config = None\<rparr>,
                    \<lparr>NodeName = ''n2'', UnderNAT = True, PublicIP = [], Config = None\<rparr>],
       ExposeType = []\<rparr>,
     Status = \<lparr>Nodes = [], ActiveEndpoint = None\<rparr>\<rparr>"

lemma validateGateway_accepts_iff_witness: "validateGateway sample_gateway = Inr None"
proof -
  have "ParseIP (dotted_quad 10 0 0 1) \<noteq> None" by (simp add: ParseIP_dotted_quad)
  then show ?thesis by (simp add: validateGateway_accepts_iff sample_gateway_def)
qed

text \<open>
  C18: validation panics, instead of reporting the missing endpoints, exactly on a gateway with
  an empty endpoint list: the check of the length appends an error and falls through to the
  index of the first endpoint.
\<close>

theorem validateGateway_panics_iff:
  "(\<exists>p. validateGateway g = Inl p) \<longleftrightarrow> Endpoints (Spec g) = []"
  by (cases "Endpoints (Spec g)") (auto simp: validateGateway_Nil validateGateway_Cons Let_def)

text \<open>
  the rejection names every offending endpoint: for each index and each of the fields
  \<^verbatim>\<open>underNAT\<close>, \<^verbatim>\<open>nodeName\<close>, \<^verbatim>\<open>publicIP\<close> there is a cause with that endpoint's path exactly when
  the endpoint at that index breaks the rule of the field, and no cause has another path.
\<close>

theorem validateGateway_causes:
  assumes "validateGateway g = Inr (Some err)"
  shows "fe_path ` set (inv_causes err) =
    {endpoint_path i ''underNAT'' | i. i < length (Endpoints (Spec g)) \<and>
        UnderNAT (Endpoints (Spec g) ! i) \<noteq> UnderNAT (hd (Endpoints (Spec g)))} \<union>
    {endpoint_path i ''nodeName'' | i. i < length (Endpoints (Spec g)) \<and>
        NodeName (Endpoints (Spec g) ! i) = []} \<union>
    {endpoint_path i ''publicIP'' | i. i < length (Endpoints (Spec g)) \<and>
        PublicIP (Endpoints (Spec g) ! i) \<noteq> [] \<and>
        (ExposeType (Spec g) = ''LoadBalancer'' \<or> ParseIP (PublicIP (Endpoints (Spec g) ! i)) = None)}"
proof -
  obtain ep eps where eps: "Endpoints (Spec g) = ep # eps"
    using assms by (cases "Endpoints (Spec g)") (auto simp: validateGateway_Nil)
  let ?l = "Endpoints (Spec g)" and ?x = "ExposeType (Spec g)"
  have c: "set (inv_causes err) =
      (\<Union>i \<in> {..<length ?l}. set (validate_endpoint ?x (UnderNAT (hd ?l)) i (?l ! i)))"
  proof -
    have "set (inv_causes err) =
        (\<Union>(i, e) \<in> set (enumerate 0 ?l). set (validate_endpoint ?x (UnderNAT (hd ?l)) i e))"
      using assms by (auto simp: validateGateway_Cons [OF eps] eps validate_loop_append Let_def
          split: if_splits)
    then show ?thesis by (force simp: in_set_enumerate_eq)
  qed
  have e: "fe_path ` set (validate_endpoint x u i e) =
      (if UnderNAT e \<noteq> u then {endpoint_path i ''underNAT''} else {}) \<union>
      (if NodeName e = [] then {endpoint_path i ''nodeName''} else {}) \<union>
      (if PublicIP e \<noteq> [] \<and> (x = ''LoadBalancer'' \<or> ParseIP (PublicIP e) = None)
       then {endpoint_path i ''publicIP''} else {})" for x u i e
    unfolding validate_endpoint_def ExposeTypeLoadBalancer_def validateIP_iff
    by (cases "UnderNAT e = u"; cases "PublicIP e = []"; cases "NodeName e = []";
        cases "x = ''LoadBalancer''"; cases "ParseIP (PublicIP e)")
      (simp_all add: insert_commute)
  show ?thesis unfolding c image_UN e by (auto split: if_splits)
qed

definition bad_gateway :: gateway where
  "bad_gateway = sample_gateway\<lparr>Spec := (Spec sample_gateway)\<lparr>Endpoints :=
     [\<lparr>NodeName = ''n1'', UnderNAT = True, PublicIP = [], Config = None\<rparr>,
      \<lparr>NodeName = [], UnderNAT = True, PublicIP = [], Config = None\<rparr>]\<rparr>\<rparr>"

lemma validateGateway_causes_witness:
  "\<exists>err. validateGateway bad_gateway = Inr (Some err) \<and>
     endpoint_path 1 ''nodeName'' \<in> fe_path ` set (inv_causes err)"
proof -
  obtain err where e: "validateGateway bad_gateway = Inr (Some err)"
    using validateGateway_panics_iff [of bad_gateway] validateGateway_accepts_iff [of bad_gateway]
    by (cases "validateGateway bad_gateway") (auto simp: bad_gateway_def)
  have "endpoint_path 1 ''nodeName'' \<in> fe_path ` set (inv_causes err)"
    unfolding validateGateway_causes [OF e] by (force simp: bad_gateway_def)
  with e show ?thesis by blast
qed

text \<open>
  every IPv4 address written as a dotted quad of decimal octets passes \<^verbatim>\<open>validateIP\<close>.
\<close>

theorem validateIP_dotted_quad:
  assumes "a < 256" "b < 256" "c < 256" "d < 256"
  shows "validateIP (dotted_quad a b c d) = None"
  using ParseIP_dotted_quad [OF assms] by (simp add: validateIP_iff)

lemma validateIP_dotted_quad_witness: "validateIP (dotted_quad 192 168 0 1) = None"
  by (rule validateIP_dotted_quad) simp_all

text \<open>
  defaulting is idempotent, and makes the selector that picks the nodes labelled with the
  gateway's own name; it changes nothing that validation looks at.
\<close>

theorem Default_spec:
  "Default (Default g) = Default g \<and>
   (\<exists>sel. NodeSelector (Spec (Default g)) = Some sel \<and> MatchExpressions sel = [] \<and>
      (\<forall>k v. str_map_get (MatchLabels sel) k = v \<longleftrightarrow>
         v = (if k = ''raven.openyurt.io/gateway'' then gw_Name g else []))) \<and>
   validateGateway (Default g) = validateGateway g"
proof -
  have "validateGateway (Default g) = validateGateway g"
    by (rule validateGateway_cong) (simp_all add: Default_def)
  then show ?thesis by (auto simp: Default_def str_map_get_def LabelCurrentGateway_def)
qed

end
