(* ===== verification/Gateway_Controller.thy ===== *)
theory Gateway_Controller
  imports Raven_Types Go_Net
begin

text \<open>
  The gateway controller (\<^verbatim>\<open>controllers/gateway/gateway_controller.go\<close>, \<^verbatim>\<open>predicates.go\<close>) and
  the node address helper of \<^verbatim>\<open>controllers/util/util.go\<close>: election of the active endpoint,
  the events about it, the pod CIDRs of a node, the reconcile loop and the node watch.  The
  locale \<open>election\<close> states what the reconciler relies on from the election; it is
  interpreted on \<open>electActiveEndpoint\<close>.
\<close>

section \<open>Node helpers\<close>

text \<open>The loop of \<^verbatim>\<open>getNodeCondition\<close>, from index \<open>i\<close>.\<close>

fun getNodeCondition_from ::
  "int \<Rightarrow> nodeCondition list \<Rightarrow> string \<Rightarrow> int \<times> nodeCondition option" where
  "getNodeCondition_from i [] t = (-1, None)"
| "getNodeCondition_from i (c # cs) t =
     (if cond_Type c = t then (i, Some c) else getNodeCondition_from (i + 1) cs t)"

definition getNodeCondition :: "nodeStatus option \<Rightarrow> string \<Rightarrow> int \<times> nodeCondition option" where
  "getNodeCondition status t =
     (case status of None \<Rightarrow> (-1, None)
      | Some st \<Rightarrow> getNodeCondition_from 0 (node_Conditions st) t)"

definition isNodeReady :: "node \<Rightarrow> bool" where
  "isNodeReady n =
     (case snd (getNodeCondition (Some (node_Status n)) NodeReady) of
        None \<Rightarrow> False | Some nc \<Rightarrow> cond_Status nc = ConditionTrue)"

text \<open>\<^verbatim>\<open>util.GetNodeInternalIP\<close>: the first internal address that parses.\<close>

fun internalIP_loop :: "nodeAddress list \<Rightarrow> string" where
  "internalIP_loop [] = []"
| "internalIP_loop (a # as) =
     (if addr_Type a = NodeInternalIP \<and> ParseIP (addr_Address a) \<noteq> None
      then addr_Address a else internalIP_loop as)"

definition GetNodeInternalIP :: "node \<Rightarrow> string" where
  "GetNodeInternalIP n = internalIP_loop (node_Addresses (node_Status n))"

section \<open>electActiveEndpoint\<close>

type_synonym node_map = "string \<Rightarrow> node option"

fun readyNodes_loop :: "node list \<Rightarrow> node_map \<Rightarrow> node_map" where
  "readyNodes_loop [] m = m"
| "readyNodes_loop (v # vs) m =
     readyNodes_loop vs (if isNodeReady v then m(node_Name v \<mapsto> v) else m)"

fun inList :: "endpoint list \<Rightarrow> endpoint \<Rightarrow> bool" where
  "inList [] ep = False"
| "inList (v # vs) ep = (if v = ep then True else inList vs ep)"

definition checkActive :: "node_map \<Rightarrow> gateway \<Rightarrow> endpoint option \<Rightarrow> bool" where
  "checkActive readyNodes gw ep =
     (case ep of
        None \<Rightarrow> False
      | Some e \<Rightarrow>
          (case readyNodes (NodeName e) of
             None \<Rightarrow> False
           | Some _ \<Rightarrow> inList (Endpoints (Spec gw)) e))"

text \<open>
  The first loop returns the first endpoint on the current endpoint's node, the second one the
  first endpoint that can become active.
\<close>

definition electActiveEndpoint :: "node list \<Rightarrow> gateway \<Rightarrow> endpoint option" where
  "electActiveEndpoint nodeList gw =
     (let readyNodes = readyNodes_loop nodeList Map.empty;
          eps = Endpoints (Spec gw);
          sticky =
            (case ActiveEndpoint (Status gw) of
               None \<Rightarrow> None
             | Some cur \<Rightarrow>
                 if checkActive readyNodes gw (Some cur)
                 then find (\<lambda>v. NodeName v = NodeName cur) eps else None)
      in case sticky of
           Some v \<Rightarrow> Some v
         | None \<Rightarrow> find (\<lambda>v. checkActive readyNodes gw (Some v)) eps)"

section \<open>recordEndpointEvent\<close>

text \<open>The event the function records, if any, from the previous and the current endpoint.\<close>

definition endpointEvent :: "endpoint option \<Rightarrow> endpoint option \<Rightarrow> k8s_event option" where
  "endpointEvent previous current =
     (case current of
        Some cur \<Rightarrow>
          if previous \<noteq> current then
            Some \<lparr>ev_type = EventTypeNormal, ev_reason = EventActiveEndpointElected,
              ev_message = ''The endpoint hosted by node '' @ NodeName cur @
                '' has been elected active endpoint, publicIP: '' @ PublicIP cur\<rparr>
          else None
      | None \<Rightarrow>
          (case previous of
             None \<Rightarrow> None
           | Some prev \<Rightarrow>
               Some \<lparr>ev_type = EventTypeWarning, ev_reason = EventActiveEndpointLost,
                 ev_message = ''The active endpoint hosted by node '' @ NodeName prev @
                   '' was lost, publicIP: '' @ PublicIP prev\<rparr>))"

definition recordEndpointEvent ::
  "('s, 'sel) cluster \<Rightarrow> gateway \<Rightarrow> endpoint option \<Rightarrow> endpoint option \<Rightarrow> ('s, unit) state" where
  "recordEndpointEvent c sourceObj previous current =
     (case endpointEvent previous current of
        None \<Rightarrow> State_Monad.return ()
      | Some ev \<Rightarrow> Record_Event c sourceObj ev)"

section \<open>getPodCIDRs\<close>

text \<open>
  The annotations are ranged over in an order the run-time chooses; \<open>range_keys\<close> is that
  order.
\<close>

definition confirmedCIDRs :: "node \<Rightarrow> blockAffinity list \<Rightarrow> string list" where
  "confirmedCIDRs n items =
     map (\<lambda>v. ba_CIDR (ba_Spec v))
       (filter (\<lambda>v. \<not> (ba_Node (ba_Spec v) \<noteq> node_Name n \<or> ba_State (ba_Spec v) \<noteq> ''confirmed''))
         items)"

fun getPodCIDRs_loop ::
  "('s, 'sel) cluster \<Rightarrow> node \<Rightarrow> string list \<Rightarrow> ('s, error + string list) state" where
  "getPodCIDRs_loop c n [] = State_Monad.return (Inr [node_PodCIDR n])"
| "getPodCIDRs_loop c n (key # keys) =
     (if contains key ''projectcalico.org'' then do {
        r \<leftarrow> List_BlockAffinities c;
        case r of
          Inl err \<Rightarrow> State_Monad.return (Inl (Errorf ''unable to list calico blockaffinity: '' err))
        | Inr items \<Rightarrow> State_Monad.return (Inr (confirmedCIDRs n items))
      }
      else getPodCIDRs_loop c n keys)"

definition getPodCIDRs ::
  "('s, 'sel) cluster \<Rightarrow> ((string, string) fmap \<Rightarrow> string list) \<Rightarrow> node \<Rightarrow>
   ('s, error + string list) state" where
  "getPodCIDRs c range_keys n =
     getPodCIDRs_loop c n
       (case meta_Annotations (node_meta n) of None \<Rightarrow> [] | Some m \<Rightarrow> range_keys m)"

section \<open>Reconcile\<close>

text \<open>
  The LoadBalancer step: an early return (left) or the endpoint with the service's address.
  Setting the address of a nil endpoint panics.
\<close>

definition requeue5s :: reconcile_outcome where
  "requeue5s = Inr (\<lparr>Requeue = True, RequeueAfter = 5\<rparr>, None)"

definition exposeByLB ::
  "('s, 'sel) cluster \<Rightarrow> endpoint option \<Rightarrow> ('s, reconcile_outcome + endpoint option) state" where
  "exposeByLB c activeEp = do {
     r \<leftarrow> Get_Service c ServiceNamespacedName;
     case r of
       Inl err \<Rightarrow> State_Monad.return (Inl requeue5s)
     | Inr svc \<Rightarrow>
         (case svc_Ingress svc of
            [] \<Rightarrow> State_Monad.return (Inl requeue5s)
          | ip # _ \<Rightarrow>
              (case activeEp of
                 None \<Rightarrow> State_Monad.return (Inl (Inl NilDereference))
               | Some ep \<Rightarrow> State_Monad.return (Inr (Some (ep\<lparr>PublicIP := ip\<rparr>)))))
   }"

text \<open>The loop that collects the node infos.\<close>

fun nodeInfos ::
  "('s, 'sel) cluster \<Rightarrow> ((string, string) fmap \<Rightarrow> string list) \<Rightarrow> node list \<Rightarrow> nodeInfo list \<Rightarrow>
   ('s, error + nodeInfo list) state" where
  "nodeInfos c range_keys [] nodes = State_Monad.return (Inr nodes)"
| "nodeInfos c range_keys (v # vs) nodes = do {
     r \<leftarrow> getPodCIDRs c range_keys v;
     case r of
       Inl err \<Rightarrow> State_Monad.return (Inl err)
     | Inr podCIDRs \<Rightarrow>
         nodeInfos c range_keys vs
           (nodes @ [\<lparr>ni_NodeName = node_Name v, ni_PrivateIP = GetNodeInternalIP v,
                      ni_Subnets = podCIDRs\<rparr>])
   }"

definition updateStatus ::
  "('s, 'sel) cluster \<Rightarrow> ((string, string) fmap \<Rightarrow> string list) \<Rightarrow> gateway \<Rightarrow> node list \<Rightarrow>
   endpoint option \<Rightarrow> ('s, reconcile_outcome) state" where
  "updateStatus c range_keys gw nodeList activeEp = do {
     r \<leftarrow> nodeInfos c range_keys nodeList [];
     case r of
       Inl err \<Rightarrow> State_Monad.return (Inr (ResultZero, Some err))
     | Inr nodes \<Rightarrow> do {
         e \<leftarrow> StatusUpdate_Gateway c
                (gw\<lparr>Status := (Status gw)\<lparr>Nodes := nodes, ActiveEndpoint := activeEp\<rparr>\<rparr>);
         State_Monad.return (Inr (ResultZero, e))
       }
   }"

definition GatewayReconcile ::
  "('s, 'sel) cluster \<Rightarrow> ((string, string) fmap \<Rightarrow> string list) \<Rightarrow> namespacedName \<Rightarrow>
   ('s, reconcile_outcome) state" where
  "GatewayReconcile c range_keys req = do {
     r \<leftarrow> Get_Gateway c req;
     case r of
       Inl err \<Rightarrow> State_Monad.return (Inr (ResultZero, IgnoreNotFound err))
     | Inr gw \<Rightarrow>
         (case labels_Parse c (LabelCurrentGateway @ ''='' @ gw_Name gw) of
            Inl err \<Rightarrow> State_Monad.return (Inr (ResultZero, Some err))
          | Inr nodeSelector \<Rightarrow> do {
              l \<leftarrow> List_Nodes c nodeSelector;
              case l of
                Inl err \<Rightarrow>
                  State_Monad.return (Inr (ResultZero, Some (Errorf ''unable to list nodes: '' err)))
              | Inr nodeList \<Rightarrow> do {
                  let activeEp = electActiveEndpoint nodeList gw;
                  _ \<leftarrow> recordEndpointEvent c gw (ActiveEndpoint (Status gw)) activeEp;
                  lb \<leftarrow> (if IsGatewayExposeByLB gw then exposeByLB c activeEp
                         else State_Monad.return (Inr activeEp));
                  case lb of
                    Inl outcome \<Rightarrow> State_Monad.return outcome
                  | Inr ep \<Rightarrow> updateStatus c range_keys gw nodeList ep
                }
            })
   }"

section \<open>The node watch\<close>

text \<open>\<^verbatim>\<open>mapNodeToRequest\<close>: the requests a node event enqueues.\<close>

definition mapNodeToRequest :: "('s, 'sel) cluster \<Rightarrow> node \<Rightarrow> ('s, namespacedName list) state" where
  "mapNodeToRequest c n =
     (let gwName = str_map_get (meta_Labels (node_meta n)) LabelCurrentGateway;
          ok = (case meta_Labels (node_meta n) of
                  None \<Rightarrow> False | Some m \<Rightarrow> fmlookup m LabelCurrentGateway \<noteq> None)
      in if \<not> ok \<or> gwName = [] then State_Monad.return []
         else do {
           r \<leftarrow> Get_Gateway c (NamespacedName [] gwName);
           case r of
             Inl err \<Rightarrow> State_Monad.return []
           | Inr gw \<Rightarrow> State_Monad.return [NamespacedName [] gwName]
         })"

text \<open>\<^verbatim>\<open>NodeChangedPredicates.Update\<close>, on the two objects of the event.\<close>

definition NodeChanged_Update :: "node option \<Rightarrow> node option \<Rightarrow> bool" where
  "NodeChanged_Update objectOld objectNew =
     (case objectOld of
        None \<Rightarrow> False
      | Some oldObj \<Rightarrow>
          (case objectNew of
             None \<Rightarrow> False
           | Some newObj \<Rightarrow>
               str_map_get (meta_Labels (node_meta oldObj)) LabelCurrentGateway \<noteq>
                 str_map_get (meta_Labels (node_meta newObj)) LabelCurrentGateway \<or>
               isNodeReady oldObj \<noteq> isNodeReady newObj))"

section \<open>Election: lemmas\<close>

text \<open>A node of the list with this name is ready.\<close>

definition host_ready :: "node list \<Rightarrow> string \<Rightarrow> bool" where
  "host_ready ns name \<longleftrightarrow> list_ex (\<lambda>v. isNodeReady v \<and> node_Name v = name) ns"

lemma readyNodes_loop_iff:
  "readyNodes_loop vs m name \<noteq> None \<longleftrightarrow> m name \<noteq> None \<or> host_ready vs name"
  by (induction vs arbitrary: m) (auto simp: host_ready_def)

lemma inList_iff [simp]: "inList vs e \<longleftrightarrow> e \<in> set vs"
  by (induction vs) auto

lemma checkActive_Some [simp]:
  "checkActive (readyNodes_loop ns Map.empty) gw (Some e) \<longleftrightarrow>
     host_ready ns (NodeName e) \<and> e \<in> set (Endpoints (Spec gw))"
  using readyNodes_loop_iff [of ns Map.empty "NodeName e"]
  by (auto simp: checkActive_def split: option.splits)

lemma find_cong_set: "(\<And>x. x \<in> set xs \<Longrightarrow> P x = Q x) \<Longrightarrow> find P xs = find Q xs"
  by (induction xs) auto

lemma find_SomeD: "find P xs = Some x \<Longrightarrow> x \<in> set xs \<and> P x"
  by (induction xs) (auto split: if_splits)

lemma find_SomeE:
  assumes "find P xs = Some x"
  obtains before after where "xs = before @ x # after" "P x" "\<not> (\<exists>y \<in> set before. P y)"
proof -
  have "\<exists>before after. xs = before @ x # after \<and> P x \<and> \<not> (\<exists>y \<in> set before. P y)"
    using assms
  proof (induction xs)
    case (Cons y ys)
    show ?case
    proof (cases "P y")
      case True
      with Cons.prems show ?thesis by (intro exI [of _ "[]"] exI [of _ ys]) simp
    next
      case False
      with Cons obtain before after where "ys = before @ x # after" "P x" "\<not> (\<exists>y \<in> set before. P y)" by auto
      with False show ?thesis by (intro exI [of _ "y # before"] exI [of _ after]) auto
    qed
  qed simp
  then show thesis using that by blast
qed

lemma find_None_iff2: "find P xs = None \<longleftrightarrow> \<not> (\<exists>x \<in> set xs. P x)"
  by (induction xs) auto

lemma find_ex_Some [simp]: "(\<exists>y. find P xs = Some y) \<longleftrightarrow> (\<exists>x \<in> set xs. P x)"
  using find_None_iff2 [of P xs] by auto

text \<open>The election in one equation: keep the current node if the current endpoint is still
  eligible, otherwise the first endpoint on a ready node.\<close>

lemma electActiveEndpoint_eq:
  "electActiveEndpoint ns gw =
     (case ActiveEndpoint (Status gw) of
        Some cur \<Rightarrow>
          if host_ready ns (NodeName cur) \<and> cur \<in> set (Endpoints (Spec gw))
          then find (\<lambda>v. NodeName v = NodeName cur) (Endpoints (Spec gw))
          else find (\<lambda>v. host_ready ns (NodeName v)) (Endpoints (Spec gw))
      | None \<Rightarrow> find (\<lambda>v. host_ready ns (NodeName v)) (Endpoints (Spec gw)))"
proof -
  have f: "find (\<lambda>v. host_ready ns (NodeName v) \<and> v \<in> set (Endpoints (Spec gw))) (Endpoints (Spec gw)) =
      find (\<lambda>v. host_ready ns (NodeName v)) (Endpoints (Spec gw))"
    by (rule find_cong_set) simp
  show ?thesis
    by (auto simp: electActiveEndpoint_def Let_def f find_None_iff2 split: option.splits)
qed

section \<open>The election contract\<close>

text \<open>
  What the reconciler needs of an election: it elects an endpoint of the specification whose
  node is ready, elects one whenever there is one, stays on the current node while the
  current endpoint is eligible, and a second election after the first one's result was stored
  gives the same endpoint.
\<close>

locale election =
  fixes elect :: "node list \<Rightarrow> gateway \<Rightarrow> endpoint option"
  assumes elect_sound:
      "elect ns g = Some e \<Longrightarrow> e \<in> set (Endpoints (Spec g)) \<and> host_ready ns (NodeName e)"
    and elect_complete:
      "e \<in> set (Endpoints (Spec g)) \<Longrightarrow> host_ready ns (NodeName e) \<Longrightarrow> elect ns g \<noteq> None"
    and elect_sticky:
      "ActiveEndpoint (Status g) = Some cur \<Longrightarrow> cur \<in> set (Endpoints (Spec g)) \<Longrightarrow>
       host_ready ns (NodeName cur) \<Longrightarrow> map_option NodeName (elect ns g) = Some (NodeName cur)"
    and elect_stable:
      "Spec h = Spec g \<Longrightarrow> ActiveEndpoint (Status h) = elect ns g \<Longrightarrow> elect ns h = elect ns g"
begin

lemma elect_None_iff:
  "elect ns g = None \<longleftrightarrow> \<not> (\<exists>e \<in> set (Endpoints (Spec g)). host_ready ns (NodeName e))"
  using elect_sound elect_complete by (metis not_None_eq)

lemma lost_event_iff:
  "(\<exists>ev. endpointEvent (ActiveEndpoint (Status g)) (elect ns g) = Some ev \<and>
      ev_type ev = EventTypeWarning) \<longleftrightarrow>
   ActiveEndpoint (Status g) \<noteq> None \<and>
   \<not> (\<exists>e \<in> set (Endpoints (Spec g)). host_ready ns (NodeName e))"
  unfolding elect_None_iff [symmetric]
  by (cases "elect ns g"; cases "ActiveEndpoint (Status g)") (auto simp: endpointEvent_def)

lemma quiet_after_update:
  assumes "Spec h = Spec g" and "ActiveEndpoint (Status h) = elect ns g"
  shows "elect ns h = elect ns g \<and> endpointEvent (ActiveEndpoint (Status h)) (elect ns h) = None"
  using elect_stable [OF assms] assms(2) by (auto simp: endpointEvent_def split: option.splits)

end

lemma electActiveEndpoint_sound':
  "electActiveEndpoint ns g = Some e \<Longrightarrow>
   e \<in> set (Endpoints (Spec g)) \<and> host_ready ns (NodeName e)"
  by (auto simp: electActiveEndpoint_eq dest!: find_SomeD split: option.splits if_splits)

lemma electActiveEndpoint_stable':
  assumes "Spec h = Spec g" and "ActiveEndpoint (Status h) = electActiveEndpoint ns g"
  shows "electActiveEndpoint ns h = electActiveEndpoint ns g"
proof (cases "electActiveEndpoint ns g")
  case None
  with assms show ?thesis
    by (auto simp: electActiveEndpoint_eq find_None_iff2 split: option.splits if_splits)
next
  case (Some e)
  note e = electActiveEndpoint_sound' [OF Some]
  have "find (\<lambda>v. NodeName v = NodeName e) (Endpoints (Spec g)) = Some e"
  proof (rule ccontr)
    assume ne: "find (\<lambda>v. NodeName v = NodeName e) (Endpoints (Spec g)) \<noteq> Some e"
    have first: "find P xs = Some x \<Longrightarrow> (\<And>y. Q y \<Longrightarrow> P y) \<Longrightarrow> Q x \<Longrightarrow> find Q xs = Some x"
      for P Q :: "endpoint \<Rightarrow> bool" and xs x by (induction xs) (auto split: if_splits)
    show False
    proof (cases "find (\<lambda>v. host_ready ns (NodeName v)) (Endpoints (Spec g)) = Some e")
      case True
      have "find (\<lambda>v. NodeName v = NodeName e) (Endpoints (Spec g)) = Some e"
        by (rule first [OF True]) (use e in auto)
      with ne show False by simp
    next
      case False
      with Some have "\<exists>cur :: endpoint. find (\<lambda>v. NodeName v = NodeName cur) (Endpoints (Spec g)) = Some e"
        by (auto simp: electActiveEndpoint_eq split: option.splits if_splits)
      then obtain cur :: endpoint where
        c: "find (\<lambda>v. NodeName v = NodeName cur) (Endpoints (Spec g)) = Some e" by blast
      then show False using ne find_SomeD [OF c] by simp
    qed
  qed
  with assms e Some show ?thesis by (simp add: electActiveEndpoint_eq)
qed

interpretation gw_election: election electActiveEndpoint
proof
  fix ns g e cur h
  show "electActiveEndpoint ns g = Some e \<Longrightarrow>
      e \<in> set (Endpoints (Spec g)) \<and> host_ready ns (NodeName e)"
    by (rule electActiveEndpoint_sound')
  show "e \<in> set (Endpoints (Spec g)) \<Longrightarrow> host_ready ns (NodeName e) \<Longrightarrow>
      electActiveEndpoint ns g \<noteq> None"
    by (auto simp: electActiveEndpoint_eq find_None_iff2 split: option.splits)
  show "ActiveEndpoint (Status g) = Some cur \<Longrightarrow> cur \<in> set (Endpoints (Spec g)) \<Longrightarrow>
      host_ready ns (NodeName cur) \<Longrightarrow>
      map_option NodeName (electActiveEndpoint ns g) = Some (NodeName cur)"
    by (cases "find (\<lambda>v. NodeName v = NodeName cur) (Endpoints (Spec g))")
      (auto simp: electActiveEndpoint_eq find_None_iff2 dest: find_SomeD)
  show "Spec h = Spec g \<Longrightarrow> ActiveEndpoint (Status h) = electActiveEndpoint ns g \<Longrightarrow>
      electActiveEndpoint ns h = electActiveEndpoint ns g"
    by (rule electActiveEndpoint_stable')
qed

section \<open>Reconcile: lemmas\<close>

lemma nodeInfos_Inr:
  "run_state (nodeInfos c rk vs acc) s = (Inr infos, s') \<Longrightarrow>
   \<exists>new. infos = acc @ new \<and> map ni_NodeName new = map node_Name vs \<and>
     map ni_PrivateIP new = map GetNodeInternalIP vs \<and>
     list_all2 (\<lambda>v i. \<exists>t t'. run_state (getPodCIDRs c rk v) t = (Inr (ni_Subnets i), t')) vs new"
proof (induction vs arbitrary: acc s)
  case Nil
  then show ?case by simp
next
  case (Cons v vs)
  from Cons.prems obtain cidrs t where
    r: "run_state (getPodCIDRs c rk v) s = (Inr cidrs, t)"
    and rest: "run_state (nodeInfos c rk vs (acc @ [\<lparr>ni_NodeName = node_Name v,
          ni_PrivateIP = GetNodeInternalIP v, ni_Subnets = cidrs\<rparr>])) t = (Inr infos, s')"
    by (auto split: prod.splits sum.splits)
  from Cons.IH [OF rest] r show ?case by fastforce
qed

lemma recordEndpointEvent_run:
  "run_state (recordEndpointEvent c g p e) s =
     (case endpointEvent p e of None \<Rightarrow> ((), s) | Some ev \<Rightarrow> run_state (Record_Event c g ev) s)"
  by (simp add: recordEndpointEvent_def split: option.splits)

lemma exposeByLB_Inr:
  "run_state (exposeByLB c e) s = (Inr ep, s') \<Longrightarrow>
   \<exists>svc ip ips cur. run_state (Get_Service c ServiceNamespacedName) s = (Inr svc, s') \<and>
     svc_Ingress svc = ip # ips \<and> e = Some cur \<and> ep = Some (cur\<lparr>PublicIP := ip\<rparr>)"
  by (auto simp: exposeByLB_def split: prod.splits sum.splits list.splits option.splits)

lemma exposeByLB_Inl_not_done:
  "run_state (exposeByLB c e) s = (Inl out, s') \<Longrightarrow> out \<noteq> Inr (ResultZero, err)"
  by (auto simp: exposeByLB_def requeue5s_def ResultZero_def
      split: prod.splits sum.splits list.splits option.splits)

section \<open>A cluster for the witnesses\<close>

text \<open>
  The state is the gateway as stored, with the events recorded so far; every call succeeds.
  It instantiates the cluster parameter in witnesses only.
\<close>

definition demo_cluster :: "node list \<Rightarrow> string list \<Rightarrow> (gateway \<times> k8s_event list, string) cluster" where
  "demo_cluster nodes ingress =
     \<lparr>labels_Parse = (\<lambda>s. Inr s),
      Get_Gateway = (\<lambda>_. State (\<lambda>s. (Inr (fst s), s))),
      List_Gateways = State (\<lambda>s. (Inr [fst s], s)),
      StatusUpdate_Gateway = (\<lambda>g. State (\<lambda>s. (None, (g, snd s)))),
      List_Nodes = (\<lambda>_. State (\<lambda>s. (Inr nodes, s))),
      Get_Node = (\<lambda>_. State (\<lambda>s. (Inr (hd nodes), s))),
      List_BlockAffinities = State (\<lambda>s. (Inr [], s)),
      Get_Service = (\<lambda>_. State (\<lambda>s. (Inr \<lparr>svc_meta = zero_meta, svc_Ports = [],
        svc_Type = ''LoadBalancer'', svc_ExternalTrafficPolicy = ''Local'',
        svc_Ingress = ingress\<rparr>, s))),
      Create_Service = (\<lambda>_. State (\<lambda>s. (None, s))),
      Delete_Service = (\<lambda>_. State (\<lambda>s. (None, s))),
      Get_Endpoints = (\<lambda>_. State (\<lambda>s. (Inl (ApiError ReasonNotFound), s))),
      Create_Endpoints = (\<lambda>_. State (\<lambda>s. (None, s))),
      Update_Endpoints = (\<lambda>_. State (\<lambda>s. (None, s))),
      Delete_Endpoints = (\<lambda>_. State (\<lambda>s. (None, s))),
      Record_Event = (\<lambda>_ ev. State (\<lambda>s. ((), (fst s, snd s @ [ev]))))\<rparr>"

definition demo_node :: "string \<Rightarrow> string \<Rightarrow> node" where
  "demo_node name ready =
     \<lparr>node_meta = zero_meta\<lparr>meta_Name := name\<rparr>, node_PodCIDR = ''10.244.0.0/24'',
      node_Status = \<lparr>node_Conditions = [\<lparr>cond_Type = ''Ready'', cond_Status = ready\<rparr>],
        node_Addresses = []\<rparr>\<rparr>"

definition demo_endpoint :: "string \<Rightarrow> endpoint" where
  "demo_endpoint name = \<lparr>NodeName = name, UnderNAT = False, PublicIP = [], Config = None\<rparr>"

definition demo_gateway :: "string \<Rightarrow> string list \<Rightarrow> endpoint option \<Rightarrow> gateway" where
  "demo_gateway expose hosts active =
     \<lparr>gw_Kind = ''Gateway'', gw_meta = zero_meta\<lparr>meta_Name := ''gw''\<rparr>,
      Spec = \<lparr>NodeSelector = None, Endpoints = map demo_endpoint hosts, ExposeType = expose\<rparr>,
      Status = \<lparr>Nodes = [], ActiveEndpoint = active\<rparr>\<rparr>"

lemma demo_node_simps [simp]:
  "isNodeReady (demo_node name ready) \<longleftrightarrow> ready = ''True''"
  "node_Name (demo_node name ready) = name"
  "meta_Annotations (node_meta (demo_node name ready)) = None"
  by (auto simp: isNodeReady_def demo_node_def getNodeCondition_def zero_meta_def)

lemmas demo_defs =
  demo_cluster_def demo_gateway_def demo_endpoint_def host_ready_def electActiveEndpoint_eq

section \<open>Properties\<close>

text \<open>
  C5: the election returns an endpoint of the specification whose node is in the node list and
  ready, and returns none only when no endpoint of the specification is on a ready node.
\<close>

theorem electActiveEndpoint_correct:
  "(electActiveEndpoint ns g = None \<longleftrightarrow>
      (\<forall>e \<in> set (Endpoints (Spec g)). \<not> (\<exists>v \<in> set ns. isNodeReady v \<and> node_Name v = NodeName e))) \<and>
   (\<forall>e. electActiveEndpoint ns g = Some e \<longrightarrow>
      e \<in> set (Endpoints (Spec g)) \<and> (\<exists>v \<in> set ns. isNodeReady v \<and> node_Name v = NodeName e))"
  using gw_election.elect_None_iff [of ns g] gw_election.elect_sound [of ns g]
  by (auto simp: host_ready_def list_ex_iff)

lemma electActiveEndpoint_correct_witness:
  "electActiveEndpoint [demo_node ''n1'' ''False'', demo_node ''n2'' ''True'']
     (demo_gateway [] [''n1'', ''n2''] None) \<noteq> None"
proof -
  have "demo_endpoint ''n2'' \<in> set (Endpoints (Spec (demo_gateway [] [''n1'', ''n2''] None)))"
    by (simp add: demo_gateway_def)
  moreover have "NodeName (demo_endpoint ''n2'') = ''n2''" by (simp add: demo_endpoint_def)
  ultimately show ?thesis
    using electActiveEndpoint_correct [of "[demo_node ''n1'' ''False'', demo_node ''n2'' ''True'']"
        "demo_gateway [] [''n1'', ''n2''] None"] by fastforce
qed

text \<open>
  C12: while the current active endpoint is still in the specification and its node is ready,
  the election stays on its node: it returns the first endpoint of the specification on that
  node.  That is the current endpoint itself exactly when no other endpoint on the node comes
  before it in the specification, so always when there is no other; otherwise the endpoint
  changes, although the function's comment says that it does not.
\<close>

theorem electActiveEndpoint_keeps_current:
  assumes "ActiveEndpoint (Status g) = Some cur" and "cur \<in> set (Endpoints (Spec g))"
    and "v \<in> set ns" and "isNodeReady v" and "node_Name v = NodeName cur"
  shows "\<exists>e before after. electActiveEndpoint ns g = Some e \<and> NodeName e = NodeName cur \<and>
     Endpoints (Spec g) = before @ e # after \<and> NodeName cur \<notin> NodeName ` set before \<and>
     (e = cur \<longleftrightarrow> (\<exists>pre post. Endpoints (Spec g) = pre @ cur # post \<and> NodeName cur \<notin> NodeName ` set pre))"
proof -
  let ?on = "\<lambda>v. NodeName v = NodeName cur"
  have "host_ready ns (NodeName cur)"
    using assms(3-5) by (auto simp: host_ready_def list_ex_iff)
  then have e: "electActiveEndpoint ns g = find ?on (Endpoints (Spec g))"
    using assms(1,2) by (simp add: electActiveEndpoint_eq)
  obtain e where f: "find ?on (Endpoints (Spec g)) = Some e"
    using assms(2) find_None_iff2 [of ?on "Endpoints (Spec g)"] by (cases "find ?on (Endpoints (Spec g))") auto
  obtain before after where
    sp: "Endpoints (Spec g) = before @ e # after" "?on e" and b: "\<not> (\<exists>y \<in> set before. ?on y)"
    by (rule find_SomeE [OF f])
  from b have nb: "NodeName cur \<notin> NodeName ` set before" by force
  have "find ?on (pre @ cur # post) = Some cur" if "NodeName cur \<notin> NodeName ` set pre" for pre post
    using that by (induction pre) auto
  with f have "e = cur" if "Endpoints (Spec g) = pre @ cur # post" "NodeName cur \<notin> NodeName ` set pre" for pre post
    using that by simp
  then have "e = cur \<longleftrightarrow> (\<exists>pre post. Endpoints (Spec g) = pre @ cur # post \<and> NodeName cur \<notin> NodeName ` set pre)"
    using sp(1) nb by blast
  moreover have "electActiveEndpoint ns g = Some e" using e f by simp
  ultimately show ?thesis using sp nb by (intro exI conjI) assumption+
qed

lemma electActiveEndpoint_keeps_current_witness:
  "\<exists>e. electActiveEndpoint [demo_node ''n1'' ''True'', demo_node ''n2'' ''True'']
      (demo_gateway [] [''n1'', ''n2''] (Some (demo_endpoint ''n2''))) = Some e \<and>
      NodeName e = NodeName (demo_endpoint ''n2'')"
  using electActiveEndpoint_keeps_current [of
      "demo_gateway [] [''n1'', ''n2''] (Some (demo_endpoint ''n2''))" "demo_endpoint ''n2''"
      "demo_node ''n2'' ''True''" "[demo_node ''n1'' ''True'', demo_node ''n2'' ''True'']"]
  by (auto simp: demo_gateway_def demo_endpoint_def)

text \<open>
  the election is stable: once its result is stored in the status, electing again over the
  same nodes and specification gives the same endpoint, and no event is recorded.
\<close>

theorem electActiveEndpoint_stable:
  "let h = g\<lparr>Status := (Status g)\<lparr>Nodes := infos, ActiveEndpoint := electActiveEndpoint ns g\<rparr>\<rparr>
   in electActiveEndpoint ns h = electActiveEndpoint ns g \<and>
      endpointEvent (ActiveEndpoint (Status h)) (electActiveEndpoint ns h) = None"
  unfolding Let_def by (rule gw_election.quiet_after_update) simp_all

text \<open>
  the warning that the active endpoint was lost is recorded exactly when there was one and
  no endpoint of the specification is on a ready node any more.
\<close>

theorem lost_event_correct:
  "(\<exists>ev. endpointEvent (ActiveEndpoint (Status g)) (electActiveEndpoint ns g) = Some ev \<and>
      ev_type ev = EventTypeWarning) \<longleftrightarrow>
   ActiveEndpoint (Status g) \<noteq> None \<and>
   \<not> (\<exists>e \<in> set (Endpoints (Spec g)). host_ready ns (NodeName e))"
  by (rule gw_election.lost_event_iff)

text \<open>The event that is recorded.\<close>

lemma recorded_event:
  assumes "run_state (recordEndpointEvent c gw prev ep) s = ((), s')"
  shows "case ep of
      Some cur \<Rightarrow>
        if prev = Some cur then s' = s
        else \<exists>ev. run_state (Record_Event c gw ev) s = ((), s') \<and>
          ev_type ev = EventTypeNormal \<and> ev_reason ev = ''ActiveEndpointElected''
    | None \<Rightarrow>
        if prev = None then s' = s
        else \<exists>ev. run_state (Record_Event c gw ev) s = ((), s') \<and>
          ev_type ev = EventTypeWarning \<and> ev_reason ev = ''ActiveEndpointLost''"
  using assms
  by (cases ep; cases prev)
    (auto simp: recordEndpointEvent_run endpointEvent_def
      EventActiveEndpointElected_def EventActiveEndpointLost_def split: if_splits)

text \<open>The steps of a reconcile that finds its gateway and ends well.\<close>

lemma GatewayReconcile_found:
  assumes "run_state (GatewayReconcile c rk req) s = (Inr (ResultZero, None), s')"
    and get: "run_state (Get_Gateway c req) s = (Inr gw, s1)"
  obtains sel ns s2 s3 ep s4 infos t where
    "labels_Parse c (LabelCurrentGateway @ ''='' @ gw_Name gw) = Inr sel"
    "run_state (List_Nodes c sel) s1 = (Inr ns, s2)"
    "run_state (recordEndpointEvent c gw (ActiveEndpoint (Status gw)) (electActiveEndpoint ns gw)) s2 = ((), s3)"
    "run_state (if IsGatewayExposeByLB gw then exposeByLB c (electActiveEndpoint ns gw)
       else State_Monad.return (Inr (electActiveEndpoint ns gw))) s3 = (Inr ep, s4)"
    "run_state (nodeInfos c rk ns []) s4 = (Inr infos, t)"
    "run_state (StatusUpdate_Gateway c
       (gw\<lparr>Status := (Status gw)\<lparr>Nodes := infos, ActiveEndpoint := ep\<rparr>\<rparr>)) t = (None, s')"
proof -
  obtain sel where sel: "labels_Parse c (LabelCurrentGateway @ ''='' @ gw_Name gw) = Inr sel"
    using assms by (auto simp: GatewayReconcile_def split: sum.splits)
  obtain ns s2 where ns: "run_state (List_Nodes c sel) s1 = (Inr ns, s2)"
    using assms sel by (auto simp: GatewayReconcile_def split: sum.splits prod.splits)
  obtain s3 where ev: "run_state (recordEndpointEvent c gw (ActiveEndpoint (Status gw))
      (electActiveEndpoint ns gw)) s2 = ((), s3)"
    by (cases "run_state (recordEndpointEvent c gw (ActiveEndpoint (Status gw)) (electActiveEndpoint ns gw)) s2") auto
  obtain lb s4 where lb: "run_state (if IsGatewayExposeByLB gw then exposeByLB c (electActiveEndpoint ns gw)
        else State_Monad.return (Inr (electActiveEndpoint ns gw))) s3 = (lb, s4)"
    by fastforce
  have run: "run_state (case lb of Inl outcome \<Rightarrow> State_Monad.return outcome
      | Inr ep \<Rightarrow> updateStatus c rk gw ns ep) s4 = (Inr (ResultZero, None), s')"
    using assms sel ns ev lb by (simp add: GatewayReconcile_def Let_def)
  obtain ep where ep: "lb = Inr ep"
    using run lb exposeByLB_Inl_not_done by (cases lb) (fastforce split: if_splits)+
  with run obtain infos t where "run_state (nodeInfos c rk ns []) s4 = (Inr infos, t)"
    "run_state (StatusUpdate_Gateway c
       (gw\<lparr>Status := (Status gw)\<lparr>Nodes := infos, ActiveEndpoint := ep\<rparr>\<rparr>)) t = (None, s')"
    by (auto simp: updateStatus_def split: prod.splits sum.splits)
  with sel ns ev lb ep show thesis by (intro that) simp_all
qed

text \<open>The endpoint it records: the elected one, with the balancer's address when exposed by one.\<close>

lemma exposed_endpoint:
  assumes "run_state (if IsGatewayExposeByLB gw then exposeByLB c (electActiveEndpoint ns gw)
      else State_Monad.return (Inr (electActiveEndpoint ns gw))) s = (Inr ep, s')"
  shows "if IsGatewayExposeByLB gw
     then \<exists>svc ip ips cur. run_state (Get_Service c ServiceNamespacedName) s = (Inr svc, s') \<and>
            svc_Ingress svc = ip # ips \<and> electActiveEndpoint ns gw = Some cur \<and>
            ep = Some (cur\<lparr>PublicIP := ip\<rparr>)
     else ep = electActiveEndpoint ns gw \<and> s' = s"
proof (cases "IsGatewayExposeByLB gw")
  case True
  with assms have "run_state (exposeByLB c (electActiveEndpoint ns gw)) s = (Inr ep, s')" by simp
  from exposeByLB_Inr [OF this] True show ?thesis by simp
qed (use assms in simp)

text \<open>
  C1: a reconcile that ends without error and without asking for a requeue either found the
  gateway gone, or did exactly the following, in this order.  It read the gateway and the nodes
  its label selects.  It recorded the event of the election: that an endpoint was elected, if
  that is another one than the status holds, or that the active endpoint was lost, if none was
  elected and there was one, and nothing otherwise.  For a gateway exposed by a load balancer it
  read the shared service and took its first ingress IP as the elected endpoint's public IP.
  It read the pod CIDRs of the nodes, and wrote its status last: the gateway it had read, with
  the specification and metadata untouched, one node info per listed node in order (name,
  internal IP and the pod CIDRs read for it), and that endpoint as the active one.
\<close>

theorem GatewayReconcile_success:
  assumes "run_state (GatewayReconcile c rk req) s = (Inr (ResultZero, None), s')"
  shows "(\<exists>err. run_state (Get_Gateway c req) s = (Inl err, s') \<and> IsNotFound err) \<or>
    (\<exists>gw s1 sel ns s2 s3 s4 infos ep t.
      run_state (Get_Gateway c req) s = (Inr gw, s1) \<and>
      labels_Parse c (''raven.openyurt.io/gateway='' @ gw_Name gw) = Inr sel \<and>
      run_state (List_Nodes c sel) s1 = (Inr ns, s2) \<and>
      (case electActiveEndpoint ns gw of
         Some cur \<Rightarrow>
           if ActiveEndpoint (Status gw) = Some cur then s3 = s2
           else \<exists>ev. run_state (Record_Event c gw ev) s2 = ((), s3) \<and>
             ev_type ev = EventTypeNormal \<and> ev_reason ev = ''ActiveEndpointElected''
       | None \<Rightarrow>
           if ActiveEndpoint (Status gw) = None then s3 = s2
           else \<exists>ev. run_state (Record_Event c gw ev) s2 = ((), s3) \<and>
             ev_type ev = EventTypeWarning \<and> ev_reason ev = ''ActiveEndpointLost'') \<and>
      (if IsGatewayExposeByLB gw
       then \<exists>svc ip ips cur. run_state (Get_Service c ServiceNamespacedName) s3 = (Inr svc, s4) \<and>
              svc_Ingress svc = ip # ips \<and> electActiveEndpoint ns gw = Some cur \<and>
              ep = Some (cur\<lparr>PublicIP := ip\<rparr>)
       else ep = electActiveEndpoint ns gw \<and> s4 = s3) \<and>
      run_state (nodeInfos c rk ns []) s4 = (Inr infos, t) \<and>
      map ni_NodeName infos = map node_Name ns \<and>
      map ni_PrivateIP infos = map GetNodeInternalIP ns \<and>
      list_all2 (\<lambda>v i. \<exists>u u'. run_state (getPodCIDRs c rk v) u = (Inr (ni_Subnets i), u')) ns infos \<and>
      run_state (StatusUpdate_Gateway c
        (gw\<lparr>Status := (Status gw)\<lparr>Nodes := infos, ActiveEndpoint := ep\<rparr>\<rparr>)) t = (None, s'))"
proof (cases "run_state (Get_Gateway c req) s")
  case (Pair r s1)
  show ?thesis
  proof (cases r)
    case (Inl err)
    with Pair assms show ?thesis
      by (auto simp: GatewayReconcile_def IgnoreNotFound_def split: if_splits)
  next
    case (Inr gw)
    with Pair have get: "run_state (Get_Gateway c req) s = (Inr gw, s1)" by simp
    obtain sel ns s2 s3 ep s4 infos t where
      sel: "labels_Parse c (LabelCurrentGateway @ ''='' @ gw_Name gw) = Inr sel"
      and ns: "run_state (List_Nodes c sel) s1 = (Inr ns, s2)"
      and ev: "run_state (recordEndpointEvent c gw (ActiveEndpoint (Status gw)) (electActiveEndpoint ns gw)) s2 = ((), s3)"
      and lb: "run_state (if IsGatewayExposeByLB gw then exposeByLB c (electActiveEndpoint ns gw)
          else State_Monad.return (Inr (electActiveEndpoint ns gw))) s3 = (Inr ep, s4)"
      and infos: "run_state (nodeInfos c rk ns []) s4 = (Inr infos, t)"
      and upd: "run_state (StatusUpdate_Gateway c
        (gw\<lparr>Status := (Status gw)\<lparr>Nodes := infos, ActiveEndpoint := ep\<rparr>\<rparr>)) t = (None, s')"
      by (rule GatewayReconcile_found [OF assms get])
    have "labels_Parse c (''raven.openyurt.io/gateway='' @ gw_Name gw) = Inr sel"
      using sel by (simp add: LabelCurrentGateway_def)
    moreover have "map ni_NodeName infos = map node_Name ns" "map ni_PrivateIP infos = map GetNodeInternalIP ns"
      "list_all2 (\<lambda>v i. \<exists>u u'. run_state (getPodCIDRs c rk v) u = (Inr (ni_Subnets i), u')) ns infos"
      using nodeInfos_Inr [OF infos] by auto
    ultimately show ?thesis using get ns recorded_event [OF ev] exposed_endpoint [OF lb] infos upd
      by (intro disjI2 exI conjI) assumption+
  qed
qed

lemma GatewayReconcile_success_witness:
  "\<exists>gw. run_state (GatewayReconcile
        (demo_cluster [demo_node ''n1'' ''True''] []) (\<lambda>_. []) (NamespacedName [] ''gw''))
      (demo_gateway [] [''n1''] None, []) = (Inr (ResultZero, None), gw) \<and>
    (\<exists>infos. Status (fst gw) = \<lparr>Nodes = infos, ActiveEndpoint = Some (demo_endpoint ''n1'')\<rparr> \<and>
       map ni_NodeName infos = [''n1''])"
proof -
  let ?c = "demo_cluster [demo_node ''n1'' ''True''] []" and ?g = "demo_gateway [] [''n1''] None"
  obtain out gw where run: "run_state (GatewayReconcile ?c (\<lambda>_. []) (NamespacedName [] ''gw''))
      (?g, []) = (out, gw)" by (rule prod.exhaust)
  have out: "out = Inr (ResultZero, None)"
    using run by (simp add: GatewayReconcile_def demo_defs recordEndpointEvent_run endpointEvent_def
        IsGatewayExposeByLB_def ExposeTypeLoadBalancer_def updateStatus_def getPodCIDRs_def
        Let_def)
  have e: "electActiveEndpoint [demo_node ''n1'' ''True''] ?g = Some (demo_endpoint ''n1'')"
    by (simp add: demo_defs)
  show ?thesis
    using GatewayReconcile_success [OF run [unfolded out]] run out e
    by (auto simp: demo_cluster_def demo_gateway_def IsGatewayExposeByLB_def IsNotFound_def
        ExposeTypeLoadBalancer_def)
qed

text \<open>
  C19: when the service has an ingress address but no endpoint can be elected, reconciling a
  gateway exposed by a load balancer panics on the nil endpoint, before the status (with the
  lost endpoint still in it) is updated.
\<close>

theorem GatewayReconcile_LB_panics:
  assumes "run_state (Get_Gateway c req) s = (Inr gw, s1)"
    and "labels_Parse c (LabelCurrentGateway @ ''='' @ gw_Name gw) = Inr sel"
    and "run_state (List_Nodes c sel) s1 = (Inr ns, s2)"
    and "IsGatewayExposeByLB gw"
    and "\<not> (\<exists>e \<in> set (Endpoints (Spec gw)). host_ready ns (NodeName e))"
    and "run_state (recordEndpointEvent c gw (ActiveEndpoint (Status gw)) None) s2 = ((), s3)"
    and "run_state (Get_Service c ServiceNamespacedName) s3 = (Inr svc, s4)"
    and "svc_Ingress svc \<noteq> []"
  shows "run_state (GatewayReconcile c rk req) s = (Inl NilDereference, s4)"
proof -
  have "electActiveEndpoint ns gw = None"
    using assms(5) gw_election.elect_None_iff by blast
  with assms show ?thesis
    by (cases "svc_Ingress svc") (simp_all add: GatewayReconcile_def exposeByLB_def)
qed

lemma GatewayReconcile_LB_panics_witness:
  "fst (run_state (GatewayReconcile (demo_cluster [demo_node ''n1'' ''False''] [''1.2.3.4''])
      (\<lambda>_. []) (NamespacedName [] ''gw'')) (demo_gateway ''LoadBalancer'' [''n1''] None, [])) =
    Inl NilDereference"
proof -
  let ?c = "demo_cluster [demo_node ''n1'' ''False''] [''1.2.3.4'']"
    and ?g = "demo_gateway ''LoadBalancer'' [''n1''] None"
  let ?svc = "\<lparr>svc_meta = zero_meta, svc_Ports = [], svc_Type = ''LoadBalancer'',
    svc_ExternalTrafficPolicy = ''Local'', svc_Ingress = [''1.2.3.4'']\<rparr>"
  have "run_state (GatewayReconcile ?c (\<lambda>_. []) (NamespacedName [] ''gw'')) (?g, []) =
      (Inl NilDereference, (?g, []))"
    by (rule GatewayReconcile_LB_panics [where gw = ?g and ns = "[demo_node ''n1'' ''False'']"
          and sel = "LabelCurrentGateway @ ''='' @ gw_Name ?g" and svc = ?svc])
      (simp_all add: demo_cluster_def demo_gateway_def demo_endpoint_def host_ready_def
        IsGatewayExposeByLB_def ExposeTypeLoadBalancer_def recordEndpointEvent_run endpointEvent_def)
  then show ?thesis by simp
qed

text \<open>
  the pod CIDRs of a node do not depend on the order in which the run-time ranges over the
  annotations: with any annotation key that contains the Calico domain they are the CIDRs of
  the node's confirmed block affinities, otherwise the node's own pod CIDR.
\<close>

theorem getPodCIDRs_spec:
  assumes "\<forall>m. set (range_keys m) = fset (fmdom m)"
  shows "getPodCIDRs c range_keys n =
    (if \<exists>m key. meta_Annotations (node_meta n) = Some m \<and> key \<in> fset (fmdom m) \<and>
          sublist ''projectcalico.org'' key
     then do {
       r \<leftarrow> List_BlockAffinities c;
       State_Monad.return (case r of
           Inl err \<Rightarrow> Inl (Errorf ''unable to list calico blockaffinity: '' err)
         | Inr items \<Rightarrow> Inr (map (\<lambda>v. ba_CIDR (ba_Spec v))
             (filter (\<lambda>v. ba_Node (ba_Spec v) = node_Name n \<and> ba_State (ba_Spec v) = ''confirmed'')
               items)))
     }
     else State_Monad.return (Inr [node_PodCIDR n]))"
proof -
  have loop: "getPodCIDRs_loop c n keys =
      (if \<exists>key \<in> set keys. sublist ''projectcalico.org'' key
       then do {
         r \<leftarrow> List_BlockAffinities c;
         State_Monad.return (case r of
             Inl err \<Rightarrow> Inl (Errorf ''unable to list calico blockaffinity: '' err)
           | Inr items \<Rightarrow> Inr (confirmedCIDRs n items))
       }
       else State_Monad.return (Inr [node_PodCIDR n]))" for keys
  proof (induction keys)
    case Nil
    then show ?case by simp
  next
    case (Cons key keys)
    have s: "case_sum (\<lambda>err. State_Monad.return (f err)) (\<lambda>y. State_Monad.return (g y)) =
        (\<lambda>r. State_Monad.return (case r of Inl err \<Rightarrow> f err | Inr y \<Rightarrow> g y))" for f g
      by (auto split: sum.splits)
    from Cons show ?case by (auto simp: contains_sublist s)
  qed
  have conf: "confirmedCIDRs n = (\<lambda>items. map (\<lambda>v. ba_CIDR (ba_Spec v))
      (filter (\<lambda>v. ba_Node (ba_Spec v) = node_Name n \<and> ba_State (ba_Spec v) = ''confirmed'')
        items))"
    by (rule ext) (simp add: confirmedCIDRs_def)
  show ?thesis
  proof (cases "meta_Annotations (node_meta n)")
    case None
    then show ?thesis by (simp add: getPodCIDRs_def loop)
  next
    case (Some m)
    then show ?thesis
      unfolding getPodCIDRs_def loop conf using assms by (auto simp: Bex_def)
  qed
qed

lemma getPodCIDRs_spec_witness:
  "\<exists>range_keys :: (string, string) fmap \<Rightarrow> string list.
     (\<forall>m. set (range_keys m) = fset (fmdom m)) \<and>
     run_state (getPodCIDRs (demo_cluster [] []) range_keys (demo_node ''n1'' ''True''))
       (demo_gateway [] [] None, []) =
       (Inr [''10.244.0.0/24''], demo_gateway [] [] None, [])"
proof -
  have "\<forall>m :: (string, string) fmap. \<exists>ks. set ks = fset (fmdom m)"
    by (simp add: finite_list)
  then obtain rk :: "(string, string) fmap \<Rightarrow> string list"
    where rk: "\<forall>m. set (rk m) = fset (fmdom m)" by metis
  show ?thesis
    by (rule exI [of _ rk])
      (simp add: rk getPodCIDRs_spec [OF rk] demo_node_def zero_meta_def)
qed

text \<open>
  The nodes that the selector of a gateway's reconcile matches: those that carry the gateway's
  name as the value of the gateway label.
\<close>

definition selected_nodes :: "gateway \<Rightarrow> node list \<Rightarrow> node list" where
  "selected_nodes g ns =
     filter (\<lambda>v. Option.bind (meta_Labels (node_meta v)) (\<lambda>m. fmlookup m ''raven.openyurt.io/gateway'') =
       Some (gw_Name g)) ns"

text \<open>
  C34: the node watch drops an update only when no election can notice it: when a node of the
  cluster is replaced by its new version, with the same name, and the reconcile of any gateway
  selects its nodes by their labels afresh, the names it lists and the endpoint it elects are
  what they were.  (A gateway has a name; the label of a node may be absent or empty.)
\<close>

theorem dropped_node_update_keeps_election:
  assumes "\<not> NodeChanged_Update (Some old) (Some new)" and "node_Name new = node_Name old" and "gw_Name g \<noteq> []"
  shows "map node_Name (selected_nodes g (xs @ new # ys)) = map node_Name (selected_nodes g (xs @ old # ys)) \<and>
    electActiveEndpoint (selected_nodes g (xs @ new # ys)) g = electActiveEndpoint (selected_nodes g (xs @ old # ys)) g"
proof -
  have "isNodeReady new = isNodeReady old" and
    "str_map_get (meta_Labels (node_meta old)) LabelCurrentGateway = str_map_get (meta_Labels (node_meta new)) LabelCurrentGateway"
    using assms(1) by (auto simp: NodeChanged_Update_def)
  moreover from this(2) have "Option.bind (meta_Labels (node_meta old)) (\<lambda>m. fmlookup m LabelCurrentGateway) = Some (gw_Name g) \<longleftrightarrow>
      Option.bind (meta_Labels (node_meta new)) (\<lambda>m. fmlookup m LabelCurrentGateway) = Some (gw_Name g)"
    using assms(3) by (auto simp: str_map_get_def split: option.splits)
  ultimately have h: "host_ready (selected_nodes g (xs @ new # ys)) = host_ready (selected_nodes g (xs @ old # ys))"
    and n: "map node_Name (selected_nodes g (xs @ new # ys)) = map node_Name (selected_nodes g (xs @ old # ys))"
    using assms(2) by (auto simp: selected_nodes_def host_ready_def fun_eq_iff LabelCurrentGateway_def)
  show ?thesis unfolding electActiveEndpoint_eq h using n by simp
qed

text \<open>A node of the gateway whose pod CIDR changes.\<close>

lemma dropped_node_update_keeps_election_witness:
  "\<exists>old new. old \<noteq> new \<and> selected_nodes (demo_gateway [] [''n1''] None) [old] = [old] \<and>
     electActiveEndpoint (selected_nodes (demo_gateway [] [''n1''] None) [new]) (demo_gateway [] [''n1''] None) =
     Some (demo_endpoint ''n1'')"
proof -
  let ?g = "demo_gateway [] [''n1''] None"
  define old where "old = (demo_node ''n1'' ''True'')
    \<lparr>node_meta := zero_meta\<lparr>meta_Name := ''n1'', meta_Labels := Some (fmap_of_list [(''raven.openyurt.io/gateway'', ''gw'')])\<rparr>\<rparr>"
  define new where "new = old\<lparr>node_PodCIDR := ''10.0.0.0/24''\<rparr>"
  have o: "selected_nodes ?g [old] = [old]" "old \<noteq> new"
    by (simp_all add: selected_nodes_def old_def new_def demo_gateway_def demo_node_def fmlookup_of_list)
  have "\<not> NodeChanged_Update (Some old) (Some new)" "node_Name new = node_Name old" "gw_Name ?g \<noteq> []"
    by (simp_all add: NodeChanged_Update_def new_def isNodeReady_def demo_gateway_def)
  from dropped_node_update_keeps_election [OF this, of "[]" "[]"]
  have "electActiveEndpoint (selected_nodes ?g [new]) ?g = electActiveEndpoint [old] ?g" using o(1) by simp
  also have "\<dots> = Some (demo_endpoint ''n1'')"
    by (simp add: electActiveEndpoint_eq host_ready_def demo_gateway_def demo_endpoint_def old_def demo_node_def isNodeReady_def getNodeCondition_def)
  finally show ?thesis using o by blast
qed

text \<open>
  a node event enqueues at most one request, for the gateway its label names, and only when
  the label is set to a name and that gateway can be read.
\<close>

theorem mapNodeToRequest_spec:
  "fst (run_state (mapNodeToRequest c n) s) =
     (let name = str_map_get (meta_Labels (node_meta n)) ''raven.openyurt.io/gateway''
      in if name \<noteq> [] \<and> (\<exists>gw s'. run_state (Get_Gateway c (NamespacedName [] name)) s = (Inr gw, s'))
         then [NamespacedName [] name] else [])"
  by (auto simp: mapNodeToRequest_def str_map_get_def LabelCurrentGateway_def Let_def
      split: prod.splits option.splits sum.splits)

text \<open>
  the private IP reported for a node is the address of its first internal address that
  parses, and is empty only when there is none.
\<close>

theorem GetNodeInternalIP_spec:
  "(GetNodeInternalIP n = [] \<longleftrightarrow>
      \<not> (\<exists>a \<in> set (node_Addresses (node_Status n)). addr_Type a = ''InternalIP'' \<and>
           ParseIP (addr_Address a) \<noteq> None)) \<and>
   (GetNodeInternalIP n \<noteq> [] \<longrightarrow>
      (\<exists>pre a post. node_Addresses (node_Status n) = pre @ a # post \<and>
         GetNodeInternalIP n = addr_Address a \<and> addr_Type a = ''InternalIP'' \<and>
         ParseIP (addr_Address a) \<noteq> None \<and>
         \<not> (\<exists>b \<in> set pre. addr_Type b = ''InternalIP'' \<and> ParseIP (addr_Address b) \<noteq> None)))"
proof -
  have e: "ParseIP [] = None" by (simp add: ParseIP_def)
  have none: "internalIP_loop as = [] \<longleftrightarrow>
      \<not> (\<exists>a \<in> set as. addr_Type a = ''InternalIP'' \<and> ParseIP (addr_Address a) \<noteq> None)" for as
    using e by (induction as) auto
  have some: "internalIP_loop as \<noteq> [] \<Longrightarrow> \<exists>pre a post. as = pre @ a # post \<and>
      internalIP_loop as = addr_Address a \<and> addr_Type a = ''InternalIP'' \<and>
      ParseIP (addr_Address a) \<noteq> None \<and>
      \<not> (\<exists>b \<in> set pre. addr_Type b = ''InternalIP'' \<and> ParseIP (addr_Address b) \<noteq> None)" for as
  proof (induction as)
    case Nil
    then show ?case by simp
  next
    case (Cons a as)
    show ?case
    proof (cases "addr_Type a = ''InternalIP'' \<and> ParseIP (addr_Address a) \<noteq> None")
      case True
      then show ?thesis by (intro exI [of _ "[]"] exI [of _ a] exI [of _ as]) auto
    next
      case False
      with Cons obtain pre b post where "as = pre @ b # post"
        "internalIP_loop as = addr_Address b" "addr_Type b = ''InternalIP''"
        "ParseIP (addr_Address b) \<noteq> None"
        "\<not> (\<exists>b \<in> set pre. addr_Type b = ''InternalIP'' \<and> ParseIP (addr_Address b) \<noteq> None)"
        by (auto split: if_splits)
      with False show ?thesis
        by (intro exI [of _ "a # pre"] exI [of _ b] exI [of _ post]) auto
    qed
  qed
  show ?thesis unfolding GetNodeInternalIP_def using none some by blast
qed

lemma GetNodeInternalIP_spec_witness: "GetNodeInternalIP (demo_node ''n1'' ''True'') = []"
  using GetNodeInternalIP_spec [of "demo_node ''n1'' ''True''"] by (simp add: demo_node_def)

end
