(* ===== verification/Service_Controller.thy ===== *)
theory Service_Controller
  imports Gateway_Controller
begin

text \<open>
  The service controller (\<^verbatim>\<open>controllers/service/service_controller.go\<close>, \<^verbatim>\<open>predicates.go\<close>): it
  keeps one LoadBalancer service and its endpoints in line with the gateways.  The
  definitions follow the functions of the file; \<open>api_view\<close> and \<open>lawful\<close> state what the API
  server documents about reads and writes, and the theorems say that a reconcile that
  reports success leaves the cluster as the gateways ask, under any failures of the calls.
\<close>

section \<open>predicates.go\<close>

text \<open>The objects a watch can deliver; \<open>None\<close> is a nil object.\<close>

datatype client_object =
  ServiceObject service | EndpointsObject endpoints | GatewayObject gateway | NodeObject node

definition isManagedService :: "client_object option \<Rightarrow> bool" where
  "isManagedService obj =
     (case obj of
        Some (ServiceObject ep) \<Rightarrow>
          meta_Name (svc_meta ep) = nn_Name ServiceNamespacedName \<and>
          meta_Namespace (svc_meta ep) = nn_Namespace ServiceNamespacedName
      | _ \<Rightarrow> False)"

definition ServicePredicates_Update :: "client_object option \<Rightarrow> client_object option \<Rightarrow> bool" where
  "ServicePredicates_Update objectOld objectNew \<longleftrightarrow>
     isManagedService objectNew \<or> isManagedService objectOld"

definition ServicePredicates_Create :: "client_object option \<Rightarrow> bool" where
  "ServicePredicates_Create obj = isManagedService obj"

definition ServicePredicates_Delete :: "client_object option \<Rightarrow> bool" where
  "ServicePredicates_Delete obj = isManagedService obj"

definition ServicePredicates_Generic :: "client_object option \<Rightarrow> bool" where
  "ServicePredicates_Generic obj = isManagedService obj"

section \<open>The service\<close>

text \<open>The metadata literal the code builds: a name and a namespace.\<close>

definition request_meta :: "namespacedName \<Rightarrow> objectMeta" where
  "request_meta req =
     zero_meta\<lparr>meta_Name := nn_Name req, meta_Namespace := nn_Namespace req\<rparr>"

definition agentService :: "namespacedName \<Rightarrow> service" where
  "agentService req =
     \<lparr>svc_meta = request_meta req,
      svc_Ports = [\<lparr>sp_Port = 4500, sp_Protocol = ''UDP'', sp_TargetPort = 4500\<rparr>],
      svc_Type = ''LoadBalancer'', svc_ExternalTrafficPolicy = ''Local'', svc_Ingress = []\<rparr>"

definition cleanService :: "('s, 'sel) cluster \<Rightarrow> namespacedName \<Rightarrow> ('s, error option) state" where
  "cleanService c req = do {
     r \<leftarrow> Delete_Service c req;
     case r of
       Some err \<Rightarrow> if \<not> IsNotFound err then State_Monad.return (Some err)
                   else State_Monad.return None
     | None \<Rightarrow> State_Monad.return None
   }"

definition ensureService :: "('s, 'sel) cluster \<Rightarrow> namespacedName \<Rightarrow> ('s, error option) state" where
  "ensureService c req = do {
     r \<leftarrow> Get_Service c req;
     case r of
       Inl err \<Rightarrow> if IsNotFound err then Create_Service c (agentService req)
                  else State_Monad.return None
     | Inr svc \<Rightarrow> State_Monad.return None
   }"

fun reconcileService ::
  "('s, 'sel) cluster \<Rightarrow> namespacedName \<Rightarrow> gateway list \<Rightarrow> ('s, error option) state" where
  "reconcileService c req [] = cleanService c req"
| "reconcileService c req (gw # gws) =
     (if IsGatewayExposeByLB gw then ensureService c req else reconcileService c req gws)"

section \<open>The endpoints\<close>

definition newSubnets :: "node \<Rightarrow> endpointSubset list" where
  "newSubnets n =
     [\<lparr>es_Addresses = [\<lparr>ea_IP = GetNodeInternalIP n, ea_Hostname = [],
         ea_NodeName = Some (node_Name n), ea_TargetRef = None\<rparr>],
       es_NotReadyAddresses = [],
       es_Ports = [\<lparr>epp_Name = [], epp_Port = 4500, epp_Protocol = ''UDP'',
         epp_AppProtocol = None\<rparr>]\<rparr>]"

definition cleanEndpoint :: "('s, 'sel) cluster \<Rightarrow> namespacedName \<Rightarrow> ('s, error option) state" where
  "cleanEndpoint c req = do {
     r \<leftarrow> Delete_Endpoints c req;
     case r of
       Some err \<Rightarrow> if \<not> IsNotFound err then State_Monad.return (Some err)
                   else State_Monad.return None
     | None \<Rightarrow> State_Monad.return None
   }"

definition ensureEndpoint ::
  "('s, 'sel) cluster \<Rightarrow> namespacedName \<Rightarrow> node \<Rightarrow> ('s, error option) state" where
  "ensureEndpoint c req n = do {
     r \<leftarrow> Get_Endpoints c req;
     case r of
       Inl err \<Rightarrow>
         if IsNotFound err
         then Create_Endpoints c \<lparr>eps_meta = request_meta req, eps_Subsets = newSubnets n\<rparr>
         else State_Monad.return (Some err)
     | Inr serviceEndpoint \<Rightarrow>
         if eps_Subsets serviceEndpoint \<noteq> newSubnets n
         then Update_Endpoints c (serviceEndpoint\<lparr>eps_Subsets := newSubnets n\<rparr>)
         else State_Monad.return None
   }"

text \<open>The loop of \<^verbatim>\<open>reconcileEndpoint\<close> with its flag.\<close>

fun reconcileEndpoint_loop ::
  "('s, 'sel) cluster \<Rightarrow> namespacedName \<Rightarrow> bool \<Rightarrow> gateway list \<Rightarrow> ('s, error option) state" where
  "reconcileEndpoint_loop c req exposedByLB [] =
     (if \<not> exposedByLB then cleanEndpoint c req else State_Monad.return None)"
| "reconcileEndpoint_loop c req exposedByLB (gw # gws) =
     (if IsGatewayExposeByLB gw then
        (case ActiveEndpoint (Status gw) of
           Some ep \<Rightarrow> do {
             r \<leftarrow> Get_Node c (NamespacedName [] (NodeName ep));
             case r of
               Inl err \<Rightarrow> State_Monad.return (Some err)
             | Inr n \<Rightarrow> ensureEndpoint c req n
           }
         | None \<Rightarrow> reconcileEndpoint_loop c req True gws)
      else reconcileEndpoint_loop c req exposedByLB gws)"

definition reconcileEndpoint ::
  "('s, 'sel) cluster \<Rightarrow> namespacedName \<Rightarrow> gateway list \<Rightarrow> ('s, error option) state" where
  "reconcileEndpoint c req gws = reconcileEndpoint_loop c req False gws"

section \<open>Reconcile and the watches\<close>

definition ServiceReconcile ::
  "('s, 'sel) cluster \<Rightarrow> namespacedName \<Rightarrow> ('s, ctrl_result \<times> error option) state" where
  "ServiceReconcile c req = do {
     l \<leftarrow> List_Gateways c;
     case l of
       Inl err \<Rightarrow> State_Monad.return (ResultZero, Some (Errorf ''unable to list gateways: '' err))
     | Inr gatewayList \<Rightarrow> do {
         r \<leftarrow> reconcileService c req gatewayList;
         case r of
           Some err \<Rightarrow>
             State_Monad.return (ResultZero, Some (Errorf ''unable to reconcile service: '' err))
         | None \<Rightarrow> do {
             r \<leftarrow> reconcileEndpoint c req gatewayList;
             case r of
               Some err \<Rightarrow>
                 State_Monad.return (ResultZero, Some (Errorf ''unable to reconcile endpoint: '' err))
             | None \<Rightarrow> State_Monad.return (ResultZero, None)
           }
       }
   }"

definition mapGatewayToRequest :: "gateway \<Rightarrow> namespacedName list" where
  "mapGatewayToRequest gw =
     (if IsGatewayExposeByLB gw then [ServiceNamespacedName] else [])"

definition mapEndpointToRequest :: "endpoints \<Rightarrow> namespacedName list" where
  "mapEndpointToRequest ep =
     (if meta_Name (eps_meta ep) = nn_Name ServiceNamespacedName \<and>
         meta_Namespace (eps_meta ep) = nn_Namespace ServiceNamespacedName
      then [ServiceNamespacedName] else [])"

section \<open>What the API server documents\<close>

text \<open>
  The part of the cluster the controller reads and writes.  \<open>lawful c view\<close> states the
  documented meaning of the calls in terms of it: a read that succeeds returns what is
  stored and one that fails with NotFound says that nothing is; a write that succeeds has
  its effect on its own key (the server may fill in other fields), one that fails has none;
  every call may fail with any other error.
\<close>

record api_view =
  v_gateways :: "gateway list"
  v_nodes :: "namespacedName \<Rightarrow> node option"
  v_services :: "namespacedName \<Rightarrow> service option"
  v_endpoints :: "namespacedName \<Rightarrow> endpoints option"

definition svc_key :: "service \<Rightarrow> namespacedName" where
  "svc_key x = NamespacedName (meta_Namespace (svc_meta x)) (meta_Name (svc_meta x))"

definition eps_key :: "endpoints \<Rightarrow> namespacedName" where
  "eps_key x = NamespacedName (meta_Namespace (eps_meta x)) (meta_Name (eps_meta x))"

text \<open>A read: it keeps the view and answers from it.\<close>

definition lawful_read ::
  "('s \<Rightarrow> api_view) \<Rightarrow> ('s, error + 'a) state \<Rightarrow> (api_view \<Rightarrow> 'a option) \<Rightarrow> bool" where
  "lawful_read view m lkp \<longleftrightarrow>
     (\<forall>v. hoare (\<lambda>s. view s = v) m (\<lambda>r s. view s = v \<and>
        (case r of Inl err \<Rightarrow> IsNotFound err \<longrightarrow> lkp v = None | Inr x \<Rightarrow> lkp v = Some x)))"

text \<open>A write: no effect when it fails, the effect \<open>eff\<close> when it succeeds.\<close>

definition lawful_write ::
  "('s \<Rightarrow> api_view) \<Rightarrow> ('s, error option) state \<Rightarrow> (api_view \<Rightarrow> api_view \<Rightarrow> bool) \<Rightarrow> bool" where
  "lawful_write view m eff \<longleftrightarrow>
     (\<forall>v. hoare (\<lambda>s. view s = v) m (\<lambda>r s.
        (case r of None \<Rightarrow> eff v (view s) | Some err \<Rightarrow> view s = v)))"

text \<open>A deletion that fails with NotFound says that nothing is stored under the key.\<close>

definition lawful_delete ::
  "('s \<Rightarrow> api_view) \<Rightarrow> ('s, error option) state \<Rightarrow> (api_view \<Rightarrow> 'a option) \<Rightarrow>
   (api_view \<Rightarrow> api_view) \<Rightarrow> bool" where
  "lawful_delete view m lkp del \<longleftrightarrow>
     (\<forall>v. hoare (\<lambda>s. view s = v) m (\<lambda>r s.
        (case r of None \<Rightarrow> view s = del v
         | Some err \<Rightarrow> view s = v \<and> (IsNotFound err \<longrightarrow> lkp v = None))))"

definition lawful :: "('s, 'sel) cluster \<Rightarrow> ('s \<Rightarrow> api_view) \<Rightarrow> bool" where
  "lawful c view \<longleftrightarrow>
     lawful_read view (List_Gateways c) (\<lambda>v. Some (v_gateways v)) \<and>
     (\<forall>k. lawful_read view (Get_Node c k) (\<lambda>v. v_nodes v k)) \<and>
     (\<forall>k. lawful_read view (Get_Service c k) (\<lambda>v. v_services v k)) \<and>
     (\<forall>k. lawful_read view (Get_Endpoints c k) (\<lambda>v. v_endpoints v k)) \<and>
     (\<forall>s k x. v_endpoints (view s) k = Some x \<longrightarrow> eps_key x = k) \<and>
     (\<forall>x. lawful_write view (Create_Service c x) (\<lambda>v v'.
        \<exists>x'. svc_Type x' = svc_Type x \<and> svc_Ports x' = svc_Ports x \<and>
          v' = v\<lparr>v_services := (v_services v)(svc_key x \<mapsto> x')\<rparr>)) \<and>
     (\<forall>k. lawful_delete view (Delete_Service c k) (\<lambda>v. v_services v k)
        (\<lambda>v. v\<lparr>v_services := (v_services v)(k := None)\<rparr>)) \<and>
     (\<forall>x. lawful_write view (Create_Endpoints c x) (\<lambda>v v'.
        \<exists>x'. eps_Subsets x' = eps_Subsets x \<and> eps_key x' = eps_key x \<and>
          v' = v\<lparr>v_endpoints := (v_endpoints v)(eps_key x \<mapsto> x')\<rparr>)) \<and>
     (\<forall>x. lawful_write view (Update_Endpoints c x) (\<lambda>v v'.
        \<exists>x'. eps_Subsets x' = eps_Subsets x \<and> eps_key x' = eps_key x \<and>
          v' = v\<lparr>v_endpoints := (v_endpoints v)(eps_key x \<mapsto> x')\<rparr>)) \<and>
     (\<forall>k. lawful_delete view (Delete_Endpoints c k) (\<lambda>v. v_endpoints v k)
        (\<lambda>v. v\<lparr>v_endpoints := (v_endpoints v)(k := None)\<rparr>))"

section \<open>Specification\<close>

text \<open>The gateway whose active endpoint carries the traffic: the first exposed one that has one.\<close>

definition serving_gateway :: "gateway list \<Rightarrow> gateway option" where
  "serving_gateway gws =
     find (\<lambda>g. IsGatewayExposeByLB g \<and> ActiveEndpoint (Status g) \<noteq> None) gws"

abbreviation any_LB :: "gateway list \<Rightarrow> bool" where
  "any_LB gws \<equiv> \<exists>g \<in> set gws. IsGatewayExposeByLB g"

text \<open>The endpoints are what the gateways ask for.\<close>

definition endpoints_in_line :: "namespacedName \<Rightarrow> api_view \<Rightarrow> bool" where
  "endpoints_in_line req v \<longleftrightarrow>
     (if \<not> any_LB (v_gateways v) then v_endpoints v req = None
      else (case serving_gateway (v_gateways v) of
              None \<Rightarrow> True
            | Some g \<Rightarrow> \<exists>ep n x. ActiveEndpoint (Status g) = Some ep \<and>
                v_nodes v (NamespacedName [] (NodeName ep)) = Some n \<and>
                v_endpoints v req = Some x \<and> eps_Subsets x = newSubnets n))"

text \<open>Only the objects under the key may differ.\<close>

definition same_elsewhere :: "namespacedName \<Rightarrow> api_view \<Rightarrow> api_view \<Rightarrow> bool" where
  "same_elsewhere req v v' \<longleftrightarrow>
     v_gateways v' = v_gateways v \<and> v_nodes v' = v_nodes v \<and>
     (\<forall>k. k \<noteq> req \<longrightarrow> v_services v' k = v_services v k \<and> v_endpoints v' k = v_endpoints v k)"

lemma same_elsewhere_refl [simp]: "same_elsewhere req v v"
  by (simp add: same_elsewhere_def)

lemma same_elsewhere_trans:
  "same_elsewhere req u v \<Longrightarrow> same_elsewhere req v w \<Longrightarrow> same_elsewhere req u w"
  by (simp add: same_elsewhere_def)

section \<open>The loops in closed form\<close>

lemma reconcileService_eq:
  "reconcileService c req gws =
     (if any_LB gws then ensureService c req else cleanService c req)"
  by (induction gws) auto

definition serveEndpoint ::
  "('s, 'sel) cluster \<Rightarrow> namespacedName \<Rightarrow> endpoint \<Rightarrow> ('s, error option) state" where
  "serveEndpoint c req ep = do {
     r \<leftarrow> Get_Node c (NamespacedName [] (NodeName ep));
     case r of
       Inl err \<Rightarrow> State_Monad.return (Some err)
     | Inr n \<Rightarrow> ensureEndpoint c req n
   }"

lemma reconcileEndpoint_loop_eq:
  "reconcileEndpoint_loop c req b gws =
     (case serving_gateway gws of
        Some g \<Rightarrow> serveEndpoint c req (the (ActiveEndpoint (Status g)))
      | None \<Rightarrow> if b \<or> any_LB gws then State_Monad.return None else cleanEndpoint c req)"
  by (induction gws arbitrary: b)
    (auto simp: serving_gateway_def serveEndpoint_def split: option.splits)

lemma serving_gateway_SomeD:
  assumes "serving_gateway gws = Some g"
  shows "any_LB gws" "\<exists>ep. ActiveEndpoint (Status g) = Some ep"
  using find_SomeD [OF assms [unfolded serving_gateway_def]] by auto

section \<open>Rules of the calls\<close>

text \<open>The laws as rules for runs from a known view.\<close>

lemma lawful_readD:
  assumes "lawful_read view m lkp" "run_state m s = (r, s')"
  shows "view s' = view s"
    and "r = Inl err \<Longrightarrow> IsNotFound err \<Longrightarrow> lkp (view s) = None"
    and "r = Inr x \<Longrightarrow> lkp (view s) = Some x"
  using assms unfolding lawful_read_def hoare_def by (auto split: sum.splits)

lemma lawful_writeD:
  assumes "lawful_write view m eff" "run_state m s = (r, s')"
  shows "r = None \<Longrightarrow> eff (view s) (view s')" and "r = Some err \<Longrightarrow> view s' = view s"
  using assms unfolding lawful_write_def hoare_def by (auto split: option.splits)

lemma lawful_deleteD:
  assumes "lawful_delete view m lkp del" "run_state m s = (r, s')"
  shows "r = None \<Longrightarrow> view s' = del (view s)"
    and "r = Some err \<Longrightarrow> view s' = view s"
    and "r = Some err \<Longrightarrow> IsNotFound err \<Longrightarrow> lkp (view s) = None"
  using assms unfolding lawful_delete_def hoare_def by (auto split: option.splits)

lemma lawful_calls:
  assumes "lawful c view"
  shows "lawful_read view (List_Gateways c) (\<lambda>v. Some (v_gateways v))"
    and "lawful_read view (Get_Node c k) (\<lambda>v. v_nodes v k)"
    and "lawful_read view (Get_Service c k) (\<lambda>v. v_services v k)"
    and "lawful_read view (Get_Endpoints c k) (\<lambda>v. v_endpoints v k)"
    and "v_endpoints (view s) k = Some e \<Longrightarrow> eps_key e = k"
    and "lawful_write view (Create_Service c y) (\<lambda>v v'.
        \<exists>x'. svc_Type x' = svc_Type y \<and> svc_Ports x' = svc_Ports y \<and>
          v' = v\<lparr>v_services := (v_services v)(svc_key y \<mapsto> x')\<rparr>)"
    and "lawful_delete view (Delete_Service c k) (\<lambda>v. v_services v k)
        (\<lambda>v. v\<lparr>v_services := (v_services v)(k := None)\<rparr>)"
    and "lawful_write view (Create_Endpoints c x) (\<lambda>v v'.
        \<exists>x'. eps_Subsets x' = eps_Subsets x \<and> eps_key x' = eps_key x \<and>
          v' = v\<lparr>v_endpoints := (v_endpoints v)(eps_key x \<mapsto> x')\<rparr>)"
    and "lawful_write view (Update_Endpoints c x) (\<lambda>v v'.
        \<exists>x'. eps_Subsets x' = eps_Subsets x \<and> eps_key x' = eps_key x \<and>
          v' = v\<lparr>v_endpoints := (v_endpoints v)(eps_key x \<mapsto> x')\<rparr>)"
    and "lawful_delete view (Delete_Endpoints c k) (\<lambda>v. v_endpoints v k)
        (\<lambda>v. v\<lparr>v_endpoints := (v_endpoints v)(k := None)\<rparr>)"
  using assms unfolding lawful_def by blast+

lemma agentService_key [simp]: "svc_key (agentService req) = req"
  by (cases req) (simp add: svc_key_def agentService_def request_meta_def)

lemma request_endpoints_key [simp]:
  "eps_key \<lparr>eps_meta = request_meta req, eps_Subsets = ss\<rparr> = req"
  by (cases req) (simp add: eps_key_def request_meta_def)

lemma eps_key_Subsets [simp]: "eps_key (x\<lparr>eps_Subsets := ss\<rparr>) = eps_key x"
  by (simp add: eps_key_def)

section \<open>Each step under the laws\<close>

lemma cleanService_run:
  assumes "lawful c view" "run_state (cleanService c req) s = (e, s')"
  shows "same_elsewhere req (view s) (view s')" "v_endpoints (view s') = v_endpoints (view s)"
    and "e = None \<Longrightarrow> v_services (view s') req = None"
proof -
  obtain r where r: "run_state (Delete_Service c req) s = (r, s')"
    and e: "e = (case r of None \<Rightarrow> None | Some err \<Rightarrow> if IsNotFound err then None else Some err)"
    using assms(2) unfolding cleanService_def
    by (auto split: prod.splits option.splits if_splits)
  note d = lawful_deleteD [OF lawful_calls(7) [OF assms(1)] r]
  show "same_elsewhere req (view s) (view s')" "v_endpoints (view s') = v_endpoints (view s)"
    using d by (cases r; simp add: same_elsewhere_def)+
  show "e = None \<Longrightarrow> v_services (view s') req = None"
    using d e by (cases r) (auto split: if_splits)
qed

lemma cleanEndpoint_run:
  assumes "lawful c view" "run_state (cleanEndpoint c req) s = (e, s')"
  shows "same_elsewhere req (view s) (view s')" "v_services (view s') = v_services (view s)"
    and "e = None \<Longrightarrow> v_endpoints (view s') req = None"
proof -
  obtain r where r: "run_state (Delete_Endpoints c req) s = (r, s')"
    and e: "e = (case r of None \<Rightarrow> None | Some err \<Rightarrow> if IsNotFound err then None else Some err)"
    using assms(2) unfolding cleanEndpoint_def
    by (auto split: prod.splits option.splits if_splits)
  note d = lawful_deleteD [OF lawful_calls(10) [OF assms(1)] r]
  show "same_elsewhere req (view s) (view s')" "v_services (view s') = v_services (view s)"
    using d by (cases r; simp add: same_elsewhere_def)+
  show "e = None \<Longrightarrow> v_endpoints (view s') req = None"
    using d e by (cases r) (auto split: if_splits)
qed

lemma ensureService_run:
  assumes "lawful c view" "run_state (ensureService c req) s = (e, s')"
  shows "same_elsewhere req (view s) (view s')" "v_endpoints (view s') = v_endpoints (view s)"
    and "(\<And>err t'. run_state (Get_Service c req) s = (Inl err, t') \<Longrightarrow> IsNotFound err) \<Longrightarrow>
         e = None \<Longrightarrow> v_services (view s') req \<noteq> None"
proof -
  obtain r t where r: "run_state (Get_Service c req) s = (r, t)"
    by (cases "run_state (Get_Service c req) s")
  note g = lawful_readD [OF lawful_calls(3) [OF assms(1)] r]
  have cases: "(\<exists>err. r = Inl err \<and> IsNotFound err \<and>
        run_state (Create_Service c (agentService req)) t = (e, s')) \<or>
      e = None \<and> s' = t \<and> (\<forall>err. r = Inl err \<longrightarrow> \<not> IsNotFound err)"
    using assms(2) r unfolding ensureService_def
    by (auto split: sum.splits if_splits)
  note w = lawful_writeD [OF lawful_calls(6) [OF assms(1)], where s = t and r = e and s' = s'
      and y1 = "agentService req"]
  show "same_elsewhere req (view s) (view s')" "v_endpoints (view s') = v_endpoints (view s)"
    using cases g(1) w by (cases e; auto simp: same_elsewhere_def)+
  assume *: "\<And>err t'. run_state (Get_Service c req) s = (Inl err, t') \<Longrightarrow> IsNotFound err"
    and "e = None"
  then show "v_services (view s') req \<noteq> None"
    using cases g w r by (cases r) auto
qed

lemma ensureEndpoint_run:
  assumes "lawful c view" "run_state (ensureEndpoint c req n) s = (e, s')"
  shows "same_elsewhere req (view s) (view s')" "v_services (view s') = v_services (view s)"
    and "e = None \<Longrightarrow> \<exists>x. v_endpoints (view s') req = Some x \<and> eps_Subsets x = newSubnets n"
proof -
  obtain r t where r: "run_state (Get_Endpoints c req) s = (r, t)"
    by (cases "run_state (Get_Endpoints c req) s")
  note g = lawful_readD [OF lawful_calls(4) [OF assms(1)] r]
  have key: "v_endpoints (view s) req = Some x \<Longrightarrow> eps_key x = req" for x
    by (rule lawful_calls(5) [OF assms(1)])
  define y where "y = (case r of Inl _ \<Rightarrow> \<lparr>eps_meta = request_meta req, eps_Subsets = newSubnets n\<rparr>
    | Inr x \<Rightarrow> x\<lparr>eps_Subsets := newSubnets n\<rparr>)"
  have y: "eps_key y = req" "eps_Subsets y = newSubnets n"
    using g(3) key by (auto simp: y_def split: sum.splits)
  have cases: "run_state (Create_Endpoints c y) t = (e, s') \<or> run_state (Update_Endpoints c y) t = (e, s')
      \<or> s' = t \<and> (e = None \<longrightarrow> (\<exists>x. r = Inr x \<and> eps_Subsets x = newSubnets n))"
    using assms(2) r unfolding ensureEndpoint_def y_def
    by (auto split: sum.splits if_splits)
  have w: "(e = None \<longrightarrow> (\<exists>x'. eps_Subsets x' = newSubnets n \<and>
        view s' = (view t)\<lparr>v_endpoints := (v_endpoints (view t))(req \<mapsto> x')\<rparr>)) \<and>
      (e \<noteq> None \<longrightarrow> view s' = view t)"
    if "run_state (Create_Endpoints c y) t = (e, s') \<or> run_state (Update_Endpoints c y) t = (e, s')"
    using that lawful_writeD [OF lawful_calls(8) [OF assms(1)], of y t e s']
      lawful_writeD [OF lawful_calls(9) [OF assms(1)], of y t e s'] y
    by (cases e) auto
  show "same_elsewhere req (view s) (view s')" "v_services (view s') = v_services (view s)"
    using cases g(1) w by (cases e; auto simp: same_elsewhere_def)+
  assume "e = None"
  then show "\<exists>x. v_endpoints (view s') req = Some x \<and> eps_Subsets x = newSubnets n"
    using cases g w by auto
qed

lemma serveEndpoint_run:
  assumes "lawful c view" "run_state (serveEndpoint c req ep) s = (e, s')"
  shows "same_elsewhere req (view s) (view s')" "v_services (view s') = v_services (view s)"
    and "e = None \<Longrightarrow> \<exists>n x. v_nodes (view s') (NamespacedName [] (NodeName ep)) = Some n \<and>
      v_endpoints (view s') req = Some x \<and> eps_Subsets x = newSubnets n"
proof -
  obtain r t where r: "run_state (Get_Node c (NamespacedName [] (NodeName ep))) s = (r, t)"
    by (cases "run_state (Get_Node c (NamespacedName [] (NodeName ep))) s")
  note g = lawful_readD [OF lawful_calls(2) [OF assms(1)] r]
  have cases: "(\<exists>err. r = Inl err \<and> e = Some err \<and> s' = t) \<or>
      (\<exists>n. r = Inr n \<and> run_state (ensureEndpoint c req n) t = (e, s'))"
    using assms(2) r unfolding serveEndpoint_def by (auto split: sum.splits)
  have run: "same_elsewhere req (view s) (view s') \<and> v_services (view s') = v_services (view s) \<and>
      (e = None \<longrightarrow> (\<exists>x. v_endpoints (view s') req = Some x \<and> eps_Subsets x = newSubnets n))"
    if "run_state (ensureEndpoint c req n) t = (e, s')" for n
    using ensureEndpoint_run [OF assms(1) that] g(1) by simp
  show "same_elsewhere req (view s) (view s')" "v_services (view s') = v_services (view s)"
    using cases run g(1) by auto
  assume "e = None"
  with cases obtain n where n: "r = Inr n" "run_state (ensureEndpoint c req n) t = (e, s')" by auto
  with run [OF n(2)] g \<open>e = None\<close> show "\<exists>n x. v_nodes (view s') (NamespacedName [] (NodeName ep)) = Some n \<and>
      v_endpoints (view s') req = Some x \<and> eps_Subsets x = newSubnets n"
    by (metis same_elsewhere_def)
qed

lemma reconcileEndpoint_run:
  assumes "lawful c view" "run_state (reconcileEndpoint c req (v_gateways (view s))) s = (e, s')"
  shows "same_elsewhere req (view s) (view s')" "v_services (view s') = v_services (view s)"
    and "e = None \<Longrightarrow> endpoints_in_line req (view s')"
proof -
  let ?gws = "v_gateways (view s)"
  note eq = assms(2) [unfolded reconcileEndpoint_def reconcileEndpoint_loop_eq]
  have "same_elsewhere req (view s) (view s') \<and> v_services (view s') = v_services (view s) \<and>
      (e = None \<longrightarrow> endpoints_in_line req (view s'))"
  proof (cases "serving_gateway ?gws")
    case None
    show ?thesis
    proof (cases "any_LB ?gws")
      case True
      with None eq show ?thesis by (simp add: endpoints_in_line_def)
    next
      case False
      with None eq have "run_state (cleanEndpoint c req) s = (e, s')" by (simp split: if_splits)
      from cleanEndpoint_run [OF assms(1) this] False show ?thesis
        by (auto simp: endpoints_in_line_def same_elsewhere_def)
    qed
  next
    case (Some g)
    then obtain ep where ep: "ActiveEndpoint (Status g) = Some ep" and lb: "any_LB ?gws"
      using serving_gateway_SomeD by blast
    with Some eq have "run_state (serveEndpoint c req ep) s = (e, s')" by simp
    from serveEndpoint_run [OF assms(1) this] Some ep lb show ?thesis
      by (auto simp: endpoints_in_line_def same_elsewhere_def)
  qed
  then show "same_elsewhere req (view s) (view s')" "v_services (view s') = v_services (view s)"
    and "e = None \<Longrightarrow> endpoints_in_line req (view s')" by blast+
qed

lemma reconcileService_run:
  assumes "lawful c view" "run_state (reconcileService c req (v_gateways (view s))) s = (e, s')"
  shows "same_elsewhere req (view s) (view s')" "v_endpoints (view s') = v_endpoints (view s)"
    and "e = None \<Longrightarrow> \<not> any_LB (v_gateways (view s)) \<Longrightarrow> v_services (view s') req = None"
    and "(\<And>u err t'. run_state (Get_Service c req) u = (Inl err, t') \<Longrightarrow> IsNotFound err) \<Longrightarrow>
         e = None \<Longrightarrow> any_LB (v_gateways (view s)) \<Longrightarrow> v_services (view s') req \<noteq> None"
  using assms(2) cleanService_run [OF assms(1), of req s e s']
    ensureService_run [OF assms(1), of req s e s']
  unfolding reconcileService_eq by (auto split: if_splits)

text \<open>A reconcile is a read of the gateways, then the two halves.\<close>

lemma ServiceReconcile_cases:
  assumes "lawful c view" "run_state (ServiceReconcile c req) s = ((res, err), s')"
  obtains (list) "err \<noteq> None" "view s' = view s"
  | (svc) t e where "view t = view s"
      "run_state (reconcileService c req (v_gateways (view t))) t = (Some e, s')" "err \<noteq> None"
  | (eps) t t' e where "view t = view s"
      "run_state (reconcileService c req (v_gateways (view t))) t = (None, t')"
      "run_state (reconcileEndpoint c req (v_gateways (view t'))) t' = (e, s')"
      "err = None \<longleftrightarrow> e = None"
proof -
  obtain r t where r: "run_state (List_Gateways c) s = (r, t)"
    by (cases "run_state (List_Gateways c) s")
  note g = lawful_readD [OF lawful_calls(1) [OF assms(1)] r]
  show thesis
  proof (cases r)
    case (Inl e)
    with r assms(2) g(1) show thesis by (intro list) (auto simp: ServiceReconcile_def)
  next
    case (Inr gws)
    with g have gws: "gws = v_gateways (view t)" by simp
    obtain r1 t' where r1: "run_state (reconcileService c req gws) t = (r1, t')"
      by (cases "run_state (reconcileService c req gws) t")
    obtain r2 t2 where r2: "run_state (reconcileEndpoint c req gws) t' = (r2, t2)"
      by (cases "run_state (reconcileEndpoint c req gws) t'")
    have "v_gateways (view t') = gws"
      using reconcileService_run(1) [OF assms(1) r1 [unfolded gws]] gws by (simp add: same_elsewhere_def)
    with r Inr r1 r2 assms(2) g(1) gws show thesis
      by (cases r1; cases r2) (auto simp: ServiceReconcile_def intro: svc eps)
  qed
qed

section \<open>Nothing to do\<close>

text \<open>The cluster is what the gateways ask for.\<close>

definition in_line :: "namespacedName \<Rightarrow> api_view \<Rightarrow> bool" where
  "in_line req v \<longleftrightarrow>
     endpoints_in_line req v \<and> (v_services v req \<noteq> None \<longleftrightarrow> any_LB (v_gateways v))"

lemma fun_upd_None_idle: "m k = None \<Longrightarrow> m(k := None) = m"
  by (simp add: fun_upd_idem)

lemma cleanService_idle:
  assumes "lawful c view" "run_state (cleanService c req) s = (e, s')" "v_services (view s) req = None"
  shows "view s' = view s"
proof -
  obtain r where r: "run_state (Delete_Service c req) s = (r, s')"
    using assms(2) unfolding cleanService_def by (auto split: prod.splits option.splits if_splits)
  show ?thesis
    using lawful_deleteD [OF lawful_calls(7) [OF assms(1)] r] assms(3)
    by (cases r) (simp_all add: fun_upd_None_idle)
qed

lemma cleanEndpoint_idle:
  assumes "lawful c view" "run_state (cleanEndpoint c req) s = (e, s')" "v_endpoints (view s) req = None"
  shows "view s' = view s"
proof -
  obtain r where r: "run_state (Delete_Endpoints c req) s = (r, s')"
    using assms(2) unfolding cleanEndpoint_def by (auto split: prod.splits option.splits if_splits)
  show ?thesis
    using lawful_deleteD [OF lawful_calls(10) [OF assms(1)] r] assms(3)
    by (cases r) (simp_all add: fun_upd_None_idle)
qed

lemma ensureService_idle:
  assumes "lawful c view" "run_state (ensureService c req) s = (e, s')" "v_services (view s) req \<noteq> None"
  shows "view s' = view s"
proof -
  obtain r t where r: "run_state (Get_Service c req) s = (r, t)"
    by (cases "run_state (Get_Service c req) s")
  from lawful_readD [OF lawful_calls(3) [OF assms(1)] r] assms(2,3) r show ?thesis
    unfolding ensureService_def by (auto split: sum.splits if_splits)
qed

lemma serveEndpoint_idle:
  assumes "lawful c view" "run_state (serveEndpoint c req ep) s = (e, s')"
    and "v_nodes (view s) (NamespacedName [] (NodeName ep)) = Some n"
    and "v_endpoints (view s) req = Some x" "eps_Subsets x = newSubnets n"
  shows "view s' = view s"
proof -
  obtain r t where r: "run_state (Get_Node c (NamespacedName [] (NodeName ep))) s = (r, t)"
    by (cases "run_state (Get_Node c (NamespacedName [] (NodeName ep))) s")
  note g = lawful_readD [OF lawful_calls(2) [OF assms(1)] r]
  obtain r' t' where r': "run_state (Get_Endpoints c req) t = (r', t')"
    by (cases "run_state (Get_Endpoints c req) t")
  note g' = lawful_readD [OF lawful_calls(4) [OF assms(1)] r']
  show ?thesis
    using assms(2-) r r' g g' unfolding serveEndpoint_def ensureEndpoint_def
    by (auto split: sum.splits if_splits)
qed

lemma reconcileService_idle:
  assumes "lawful c view" "run_state (reconcileService c req (v_gateways (view s))) s = (e, s')"
    and "in_line req (view s)"
  shows "view s' = view s"
  using assms(2,3) cleanService_idle [OF assms(1)] ensureService_idle [OF assms(1)]
  unfolding reconcileService_eq in_line_def by (auto split: if_splits)

lemma reconcileEndpoint_idle:
  assumes "lawful c view" "run_state (reconcileEndpoint c req (v_gateways (view s))) s = (e, s')"
    and "in_line req (view s)"
  shows "view s' = view s"
proof (cases "serving_gateway (v_gateways (view s))")
  case None
  with assms cleanEndpoint_idle [OF assms(1)] show ?thesis
    unfolding reconcileEndpoint_def reconcileEndpoint_loop_eq in_line_def endpoints_in_line_def
    by (auto split: if_splits)
next
  case (Some g)
  with assms(3) serving_gateway_SomeD(1) [OF Some] obtain ep n x where
    "ActiveEndpoint (Status g) = Some ep"
    "v_nodes (view s) (NamespacedName [] (NodeName ep)) = Some n"
    "v_endpoints (view s) req = Some x" "eps_Subsets x = newSubnets n"
    unfolding in_line_def endpoints_in_line_def by auto
  with Some assms(2) serveEndpoint_idle [OF assms(1)] show ?thesis
    unfolding reconcileEndpoint_def reconcileEndpoint_loop_eq by auto
qed

section \<open>Two concrete API servers\<close>

text \<open>
  A server that holds its objects in memory and never fails, and one whose read of services
  always times out.  Both are lawful.
\<close>

definition norm_view :: "api_view \<Rightarrow> api_view" where
  "norm_view v = v\<lparr>v_endpoints := (\<lambda>k. case v_endpoints v k of
     None \<Rightarrow> None | Some x \<Rightarrow> if eps_key x = k then Some x else None)\<rparr>"

definition store_get :: "'a option \<Rightarrow> error + 'a" where
  "store_get r = (case r of None \<Rightarrow> Inl (ApiError ReasonNotFound) | Some x \<Rightarrow> Inr x)"

definition store_cluster :: "(api_view, unit) cluster" where
  "store_cluster =
     \<lparr>labels_Parse = (\<lambda>_. Inr ()),
      Get_Gateway = (\<lambda>_. State_Monad.return (Inl (ApiError ReasonNotFound))),
      List_Gateways = State (\<lambda>v. (Inr (v_gateways v), v)),
      StatusUpdate_Gateway = (\<lambda>_. State_Monad.return None),
      List_Nodes = (\<lambda>_. State_Monad.return (Inr [])),
      Get_Node = (\<lambda>k. State (\<lambda>v. (store_get (v_nodes v k), v))),
      List_BlockAffinities = State_Monad.return (Inr []),
      Get_Service = (\<lambda>k. State (\<lambda>v. (store_get (v_services v k), v))),
      Create_Service = (\<lambda>x. State (\<lambda>v.
        (None, v\<lparr>v_services := (v_services v)(svc_key x \<mapsto> x)\<rparr>))),
      Delete_Service = (\<lambda>k. State (\<lambda>v. (None, v\<lparr>v_services := (v_services v)(k := None)\<rparr>))),
      Get_Endpoints = (\<lambda>k. State (\<lambda>v. (store_get (v_endpoints (norm_view v) k), v))),
      Create_Endpoints = (\<lambda>x. State (\<lambda>v.
        (None, v\<lparr>v_endpoints := (v_endpoints v)(eps_key x \<mapsto> x)\<rparr>))),
      Update_Endpoints = (\<lambda>x. State (\<lambda>v.
        (None, v\<lparr>v_endpoints := (v_endpoints v)(eps_key x \<mapsto> x)\<rparr>))),
      Delete_Endpoints = (\<lambda>k. State (\<lambda>v. (None, v\<lparr>v_endpoints := (v_endpoints v)(k := None)\<rparr>))),
      Record_Event = (\<lambda>_ _. State_Monad.return ())\<rparr>"

definition flaky_cluster :: "(api_view, unit) cluster" where
  "flaky_cluster = store_cluster\<lparr>Get_Service := \<lambda>_. State_Monad.return (Inl (ErrorText ''timeout''))\<rparr>"

lemma norm_view_simps [simp]:
  "v_gateways (norm_view v) = v_gateways v" "v_nodes (norm_view v) = v_nodes v"
  "v_services (norm_view v) = v_services v"
  "norm_view (v\<lparr>v_services := m\<rparr>) = (norm_view v)\<lparr>v_services := m\<rparr>"
  "norm_view (v\<lparr>v_endpoints := (v_endpoints v)(eps_key x \<mapsto> x)\<rparr>) =
     (norm_view v)\<lparr>v_endpoints := (v_endpoints (norm_view v))(eps_key x \<mapsto> x)\<rparr>"
  "norm_view (v\<lparr>v_endpoints := (v_endpoints v)(k := None)\<rparr>) =
     (norm_view v)\<lparr>v_endpoints := (v_endpoints (norm_view v))(k := None)\<rparr>"
  by (auto simp: norm_view_def fun_eq_iff split: option.splits)

lemma norm_view_key: "v_endpoints (norm_view v) k = Some x \<Longrightarrow> eps_key x = k"
  by (simp add: norm_view_def split: option.splits if_splits)

lemma store_get_simps [simp]: "store_get None = Inl (ApiError ReasonNotFound)" "store_get (Some x) = Inr x"
  by (simp_all add: store_get_def)

lemma lawful_read_store:
  "(\<And>v. lkp (norm_view v) = f v) \<Longrightarrow> lawful_read norm_view (State (\<lambda>v. (store_get (f v), v))) lkp"
  by (auto simp: lawful_read_def hoare_def store_get_def split: option.splits)

lemma lawful_write_store:
  "(\<And>v. eff (norm_view v) (norm_view (w v))) \<Longrightarrow>
   lawful_write norm_view (State (\<lambda>v. (None, w v))) eff"
  by (auto simp: lawful_write_def hoare_def)

lemma lawful_delete_store:
  "(\<And>v. norm_view (w v) = del (norm_view v)) \<Longrightarrow>
   lawful_delete norm_view (State (\<lambda>v. (None, w v))) lkp del"
  by (auto simp: lawful_delete_def hoare_def)

lemma lawful_read_fail:
  "\<not> IsNotFound err \<Longrightarrow> lawful_read view (State_Monad.return (Inl err)) lkp"
  by (auto simp: lawful_read_def hoare_def)

lemma lawful_list_store:
  "lawful_read norm_view (State (\<lambda>v. (Inr (v_gateways v), v))) (\<lambda>v. Some (v_gateways v))"
  by (auto simp: lawful_read_def hoare_def)

lemmas lawful_store_rules =
  lawful_read_store lawful_write_store lawful_delete_store lawful_list_store lawful_read_fail

lemma lawful_store: "lawful store_cluster norm_view"
  unfolding lawful_def store_cluster_def
  by (intro conjI allI impI) (simp_all add: lawful_store_rules norm_view_key, (rule lawful_store_rules, rule exI, simp)+)

lemma lawful_flaky: "lawful flaky_cluster norm_view"
  unfolding lawful_def flaky_cluster_def store_cluster_def
  by (intro conjI allI impI) (simp_all add: lawful_store_rules norm_view_key IsNotFound_def, (rule lawful_store_rules, rule exI, simp)+)

text \<open>A LoadBalancer gateway served by node \<open>n1\<close>, and no service yet.\<close>

definition demo_view :: api_view where
  "demo_view =
     \<lparr>v_gateways = [demo_gateway [] [''n2''] None,
                    demo_gateway ''LoadBalancer'' [''n1''] (Some (demo_endpoint ''n1''))],
      v_nodes = [NamespacedName [] ''n1'' \<mapsto> demo_node ''n1'' ''True''],
      v_services = Map.empty, v_endpoints = Map.empty\<rparr>"

section \<open>The properties\<close>

text \<open>
  C2: under any lawful API server and any failures, a service reconcile that reports success
  leaves the endpoints as the gateways ask (those of the node of the first exposed gateway
  with an active endpoint; none when no gateway is exposed; untouched while no exposed gateway
  has an active endpoint) and, when no gateway is exposed, no service.
\<close>

theorem ServiceReconcile_correct:
  assumes "lawful c view"
    and "run_state (ServiceReconcile c req) s = ((res, None), s')"
  shows "endpoints_in_line req (view s') \<and>
    ((\<forall>g. g \<in> set (v_gateways (view s')) \<longrightarrow> \<not> IsGatewayExposeByLB g) \<longrightarrow>
       v_services (view s') req = None)"
  using assms
proof (cases rule: ServiceReconcile_cases)
  case (eps t t' e)
  then show ?thesis
    using reconcileService_run [OF assms(1) eps(2)] reconcileEndpoint_run [OF assms(1) eps(3)]
    by (auto simp: same_elsewhere_def)
qed simp_all

lemma ServiceReconcile_correct_witness:
  "endpoints_in_line ServiceNamespacedName
     (norm_view (snd (run_state (ServiceReconcile store_cluster ServiceNamespacedName) demo_view)))"
proof -
  have "fst (run_state (ServiceReconcile store_cluster ServiceNamespacedName) demo_view) =
      (ResultZero, None)"
    by (simp add: ServiceReconcile_def store_cluster_def demo_view_def ensureService_def
        reconcileEndpoint_def ensureEndpoint_def norm_view_def IsNotFound_def demo_gateway_def
        IsGatewayExposeByLB_def ExposeTypeLoadBalancer_def demo_endpoint_def)
  then show ?thesis
    using ServiceReconcile_correct [OF lawful_store, of ServiceNamespacedName demo_view]
    by (metis prod.collapse)
qed

text \<open>
  C33: whatever it returns, a service reconcile touches nothing but the service and the
  endpoints under the requested key.
\<close>

theorem ServiceReconcile_frame:
  assumes "lawful c view"
    and "run_state (ServiceReconcile c req) s = (r, s')"
  shows "same_elsewhere req (view s) (view s')"
proof -
  obtain res err where "r = (res, err)" by (cases r)
  with assms have run: "run_state (ServiceReconcile c req) s = ((res, err), s')" by simp
  show ?thesis
    using assms(1) run
  proof (cases rule: ServiceReconcile_cases)
    case (svc t e)
    then show ?thesis using reconcileService_run(1) [OF assms(1) svc(2)] by simp
  next
    case (eps t t' e)
    then show ?thesis
      using reconcileService_run(1) [OF assms(1) eps(2)] reconcileEndpoint_run(1) [OF assms(1) eps(3)]
      by (auto intro: same_elsewhere_trans)
  qed simp
qed

lemma ServiceReconcile_frame_witness:
  "same_elsewhere ServiceNamespacedName (norm_view demo_view)
     (norm_view (snd (run_state (ServiceReconcile flaky_cluster ServiceNamespacedName) demo_view)))"
  by (rule ServiceReconcile_frame [OF lawful_flaky, of _ _
        "fst (run_state (ServiceReconcile flaky_cluster ServiceNamespacedName) demo_view)"]) simp

text \<open>
  C16: if reads of the service fail only because it is missing, a service reconcile that
  reports success leaves a service whenever some gateway is exposed through a load balancer.
\<close>

theorem ServiceReconcile_service_present:
  assumes "lawful c view"
    and "\<And>u err u'. run_state (Get_Service c req) u = (Inl err, u') \<Longrightarrow> IsNotFound err"
    and "run_state (ServiceReconcile c req) s = ((res, None), s')"
  shows "in_line req (view s')"
  using assms(1,3)
proof (cases rule: ServiceReconcile_cases)
  case (eps t t' e)
  then show ?thesis
    using reconcileService_run [OF assms(1) eps(2)] reconcileEndpoint_run [OF assms(1) eps(3)]
      assms(2)
    unfolding in_line_def by (metis same_elsewhere_def)
qed simp_all

lemma ServiceReconcile_service_present_witness:
  "in_line ServiceNamespacedName
     (norm_view (snd (run_state (ServiceReconcile store_cluster ServiceNamespacedName) demo_view)))"
proof -
  have "fst (run_state (ServiceReconcile store_cluster ServiceNamespacedName) demo_view) =
      (ResultZero, None)"
    by (simp add: ServiceReconcile_def store_cluster_def demo_view_def ensureService_def
        reconcileEndpoint_def ensureEndpoint_def norm_view_def IsNotFound_def demo_gateway_def
        IsGatewayExposeByLB_def ExposeTypeLoadBalancer_def demo_endpoint_def)
  moreover have "IsNotFound err" if "run_state (Get_Service store_cluster k) u = (Inl err, u')" for k u err u'
    using that by (auto simp: store_cluster_def store_get_def IsNotFound_def split: option.splits)
  ultimately show ?thesis
    using ServiceReconcile_service_present [OF lawful_store, of ServiceNamespacedName demo_view]
    by (metis prod.collapse)
qed

text \<open>
  C17: without that, it does not: when the read of the service fails for another reason,
  \<^verbatim>\<open>ensureService\<close> drops the error, and a reconcile reports success with a gateway exposed
  and no service in the cluster.
\<close>

theorem ensureService_swallows_errors:
  "\<exists>c view s s' res. lawful c view \<and>
     run_state (ServiceReconcile (c :: (api_view, unit) cluster) ServiceNamespacedName) s = ((res, None), s') \<and>
     any_LB (v_gateways (view s')) \<and> v_services (view s') ServiceNamespacedName = None"
proof -
  have "run_state (ServiceReconcile flaky_cluster ServiceNamespacedName) demo_view =
      ((ResultZero, None),
       snd (run_state (ServiceReconcile flaky_cluster ServiceNamespacedName) demo_view))"
    and "v_services (norm_view (snd (run_state (ServiceReconcile flaky_cluster ServiceNamespacedName)
      demo_view))) ServiceNamespacedName = None"
    and "any_LB (v_gateways (norm_view (snd (run_state (ServiceReconcile flaky_cluster
      ServiceNamespacedName) demo_view))))"
    by (simp_all add: ServiceReconcile_def flaky_cluster_def store_cluster_def demo_view_def
        ensureService_def reconcileEndpoint_def ensureEndpoint_def norm_view_def IsNotFound_def
        demo_gateway_def IsGatewayExposeByLB_def ExposeTypeLoadBalancer_def demo_endpoint_def)
  with lawful_flaky show ?thesis by blast
qed

text \<open>
  C32: once the cluster is what the gateways ask for, further reconciles change nothing, whatever
  calls fail.
\<close>

theorem ServiceReconcile_idle:
  assumes "lawful c view" and "in_line req (view s)"
    and "run_state (ServiceReconcile c req) s = (r, s')"
  shows "view s' = view s"
proof -
  obtain res err where "r = (res, err)" by (cases r)
  with assms have run: "run_state (ServiceReconcile c req) s = ((res, err), s')" by simp
  show ?thesis
    using assms(1) run
  proof (cases rule: ServiceReconcile_cases)
    case (svc t e)
    then show ?thesis using reconcileService_idle [OF assms(1) svc(2)] assms(2) by simp
  next
    case (eps t t' e)
    then show ?thesis
      using reconcileService_idle [OF assms(1) eps(2)] reconcileEndpoint_idle [OF assms(1) eps(3)]
        assms(2) by simp
  qed simp
qed

lemma ServiceReconcile_idle_witness:
  "norm_view (snd (run_state (ServiceReconcile flaky_cluster ServiceNamespacedName)
     (demo_view\<lparr>v_gateways := []\<rparr>))) = norm_view (demo_view\<lparr>v_gateways := []\<rparr>)"
  by (rule ServiceReconcile_idle [OF lawful_flaky, of ServiceNamespacedName _
        "fst (run_state (ServiceReconcile flaky_cluster ServiceNamespacedName) (demo_view\<lparr>v_gateways := []\<rparr>))"])
    (simp_all add: in_line_def endpoints_in_line_def demo_view_def norm_view_def)

text \<open>
  every request the watches of the controller enqueue is for the agent service: the
  predicates pass exactly the service events in which an object of that name takes part, and
  the gateway and endpoints watches map to that key or to nothing.
\<close>

theorem service_watches_managed:
  "ServicePredicates_Update old new =
     (\<exists>x. (old = Some (ServiceObject x) \<or> new = Some (ServiceObject x)) \<and>
        svc_key x = ServiceNamespacedName) \<and>
   ServicePredicates_Create new = (\<exists>x. new = Some (ServiceObject x) \<and> svc_key x = ServiceNamespacedName) \<and>
   ServicePredicates_Delete new = ServicePredicates_Create new \<and>
   ServicePredicates_Generic new = ServicePredicates_Create new \<and>
   set (mapGatewayToRequest g) = {k. k = ServiceNamespacedName \<and> ExposeType (Spec g) = ''LoadBalancer''} \<and>
   set (mapEndpointToRequest e) = {k. k = ServiceNamespacedName \<and> eps_key e = k}"
proof -
  have managed: "isManagedService obj = (\<exists>x. obj = Some (ServiceObject x) \<and> svc_key x = ServiceNamespacedName)"
    for obj
    by (cases obj; cases "the obj") (auto simp: isManagedService_def svc_key_def ServiceNamespacedName_def)
  show ?thesis
    unfolding ServicePredicates_Update_def ServicePredicates_Create_def ServicePredicates_Delete_def
      ServicePredicates_Generic_def managed
    by (auto simp: mapGatewayToRequest_def mapEndpointToRequest_def IsGatewayExposeByLB_def
        ExposeTypeLoadBalancer_def eps_key_def ServiceNamespacedName_def)
qed

end
