(* ===== verification/Go_Path.thy ===== *)
theory Go_Path
  imports Raven_Prelude
begin

text \<open>
  The lexical path functions of Go's \<^verbatim>\<open>path\<close> and \<^verbatim>\<open>path/filepath\<close> packages (which agree on
  Unix), as the certificate writers use them: \<^verbatim>\<open>IsAbs\<close>, \<^verbatim>\<open>Clean\<close>, \<^verbatim>\<open>Join\<close>, \<^verbatim>\<open>Split\<close> and
  \<^verbatim>\<open>Base\<close>, and the list of components the kernel reads off a path.  The lemmas say what the
  components of a cleaned, joined or split path are.
\<close>

section \<open>Splitting at the separator\<close>

text \<open>\<^verbatim>\<open>strings.Split(s, "/")\<close>: never empty.\<close>

fun split_slash :: "string \<Rightarrow> string list" where
  "split_slash [] = [[]]"
| "split_slash (c # cs) =
     (if c = CHR ''/'' then [] # split_slash cs
      else (case split_slash cs of [] \<Rightarrow> [[c]] | w # ws \<Rightarrow> (c # w) # ws))"

text \<open>\<^verbatim>\<open>strings.Join(ws, "/")\<close>.\<close>

fun join_slash :: "string list \<Rightarrow> string" where
  "join_slash [] = []"
| "join_slash [w] = w"
| "join_slash (w # v # ws) = w @ CHR ''/'' # join_slash (v # ws)"

lemma split_slash_nonempty [simp]: "split_slash s \<noteq> []"
  by (induction s) (auto split: list.splits)

lemma join_split [simp]: "join_slash (split_slash s) = s"
proof (induction s)
  case Nil
  then show ?case by simp
next
  case (Cons c cs)
  obtain w ws where s: "split_slash cs = w # ws"
    by (cases "split_slash cs") auto
  with Cons show ?case by (cases ws) auto
qed

lemma split_slash_no_slash: "w \<in> set (split_slash s) \<Longrightarrow> CHR ''/'' \<notin> set w"
proof (induction s arbitrary: w)
  case Nil
  then show ?case by simp
next
  case (Cons c cs)
  obtain v vs where s: "split_slash cs = v # vs"
    by (cases "split_slash cs") auto
  with Cons.prems Cons.IH show ?case by (auto split: if_splits)
qed

lemma split_slash_word [simp]: "CHR ''/'' \<notin> set w \<Longrightarrow> split_slash w = [w]"
  by (induction w) auto

lemma split_slash_append:
  "CHR ''/'' \<notin> set w \<Longrightarrow> split_slash (w @ CHR ''/'' # s) = w # split_slash s"
  by (induction w) auto

lemma split_slash_append2:
  "split_slash (s @ CHR ''/'' # t) = split_slash s @ split_slash t"
proof (induction s)
  case Nil
  then show ?case by simp
next
  case (Cons c cs)
  obtain w ws where "split_slash cs = w # ws" by (cases "split_slash cs") auto
  with Cons show ?case by auto
qed

lemma split_join:
  "ws \<noteq> [] \<Longrightarrow> \<forall>w \<in> set ws. CHR ''/'' \<notin> set w \<Longrightarrow> split_slash (join_slash ws) = ws"
  by (induction ws rule: join_slash.induct) (auto simp: split_slash_append)

section \<open>Components\<close>

text \<open>The kernel skips empty components and \<^verbatim>\<open>.\<close> when it walks a path.\<close>

definition path_comps :: "string \<Rightarrow> string list" where
  "path_comps s = filter (\<lambda>c. c \<noteq> [] \<and> c \<noteq> ''.'') (split_slash s)"

definition path_IsAbs :: "string \<Rightarrow> bool" where
  "path_IsAbs s = (case s of [] \<Rightarrow> False | c # _ \<Rightarrow> c = CHR ''/'')"

text \<open>A component that every path function leaves alone.\<close>

definition plain_comp :: "string \<Rightarrow> bool" where
  "plain_comp c \<longleftrightarrow> c \<noteq> [] \<and> c \<noteq> ''.'' \<and> c \<noteq> ''..'' \<and> CHR ''/'' \<notin> set c"

lemma path_comps_Nil [simp]: "path_comps [] = []"
  by (simp add: path_comps_def)

lemma path_comps_slash [simp]: "path_comps (CHR ''/'' # s) = path_comps s"
  by (simp add: path_comps_def)

lemma path_comps_append [simp]:
  "path_comps (s @ CHR ''/'' # t) = path_comps s @ path_comps t"
  by (simp add: path_comps_def split_slash_append2)

lemma path_comps_plain [simp]: "plain_comp c \<Longrightarrow> path_comps c = [c]"
  by (simp add: path_comps_def plain_comp_def)

lemma path_comps_no_slash: "c \<in> set (path_comps s) \<Longrightarrow> CHR ''/'' \<notin> set c"
  by (auto simp: path_comps_def dest: split_slash_no_slash)

lemma path_comps_join:
  assumes "\<forall>c \<in> set cs. c \<noteq> [] \<and> c \<noteq> ''.'' \<and> CHR ''/'' \<notin> set c"
  shows "path_comps (join_slash cs) = cs"
proof (cases "cs = []")
  case True
  then show ?thesis by simp
next
  case False
  with assms show ?thesis
    by (simp add: path_comps_def split_join filter_id_conv)
qed

lemma path_comps_wf:
  "\<forall>c \<in> set (path_comps s). c \<noteq> [] \<and> c \<noteq> ''.'' \<and> CHR ''/'' \<notin> set c"
  using path_comps_no_slash by (auto simp: path_comps_def)

lemma path_comps_all_plain:
  "''..'' \<notin> set (path_comps s) \<Longrightarrow> list_all plain_comp (path_comps s)"
  unfolding list_all_iff plain_comp_def using path_comps_wf [of s] by metis

section \<open>Clean\<close>

text \<open>
  The loop of \<^verbatim>\<open>path.Clean\<close> over the components; \<open>out\<close> is the output so far, last component
  first.  A \<^verbatim>\<open>..\<close> removes the last component that can be removed, is dropped at the root of a
  rooted path, and kept at the start of a relative one.
\<close>

fun clean_comps :: "bool \<Rightarrow> string list \<Rightarrow> string list \<Rightarrow> string list" where
  "clean_comps rooted out [] = rev out"
| "clean_comps rooted out (c # cs) =
     (if c = [] \<or> c = ''.'' then clean_comps rooted out cs
      else if c = ''..'' then
        (case out of
          d # ds \<Rightarrow> if d \<noteq> ''..'' then clean_comps rooted ds cs
                    else clean_comps rooted (''..'' # out) cs
        | [] \<Rightarrow> if rooted then clean_comps rooted [] cs else clean_comps rooted [''..''] cs)
      else clean_comps rooted (c # out) cs)"

definition path_Clean :: "string \<Rightarrow> string" where
  "path_Clean s =
     (if s = [] then ''.''
      else let rooted = path_IsAbs s; out = clean_comps rooted [] (split_slash s)
           in if rooted then CHR ''/'' # join_slash out
              else if out = [] then ''.'' else join_slash out)"

text \<open>\<^verbatim>\<open>path.Join\<close>: leading empty elements are ignored, the rest joined and cleaned.\<close>

definition path_Join :: "string list \<Rightarrow> string" where
  "path_Join es =
     (case dropWhile (\<lambda>e. e = []) es of [] \<Rightarrow> [] | f # fs \<Rightarrow> path_Clean (join_slash (f # fs)))"

text \<open>\<^verbatim>\<open>filepath.Split\<close>: everything up to and with the last separator, and the rest.\<close>

definition path_Split :: "string \<Rightarrow> string \<times> string" where
  "path_Split s = (let f = last (split_slash s) in (take (length s - length f) s, f))"

text \<open>\<^verbatim>\<open>filepath.Base\<close>.\<close>

definition path_Base :: "string \<Rightarrow> string" where
  "path_Base s =
     (if s = [] then ''.''
      else let t = rev (dropWhile (\<lambda>c. c = CHR ''/'') (rev s))
           in if t = [] then ''/'' else last (split_slash t))"

lemma clean_comps_plain:
  "''..'' \<notin> set cs \<Longrightarrow>
   clean_comps r out cs = rev out @ filter (\<lambda>c. c \<noteq> [] \<and> c \<noteq> ''.'') cs"
  by (induction cs arbitrary: out) auto

lemma dotdot_path_comps: "''..'' \<in> set (path_comps s) \<longleftrightarrow> ''..'' \<in> set (split_slash s)"
  by (auto simp: path_comps_def)

lemma IsAbs_append: "path_IsAbs s \<Longrightarrow> path_IsAbs (s @ t)"
  by (cases s) (auto simp: path_IsAbs_def)

text \<open>Cleaning a path without \<^verbatim>\<open>..\<close> keeps its components and whether it is absolute.\<close>

lemma path_comps_Clean:
  assumes "''..'' \<notin> set (path_comps s)"
  shows "path_comps (path_Clean s) = path_comps s"
proof -
  have out: "clean_comps r [] (split_slash s) = path_comps s" for r
    using assms by (simp add: dotdot_path_comps clean_comps_plain path_comps_def)
  have j: "path_comps (join_slash (path_comps s)) = path_comps s"
    by (rule path_comps_join [OF path_comps_wf])
  have dot: "path_comps ''.'' = []" by (simp add: path_comps_def)
  show ?thesis using j dot by (auto simp: path_Clean_def Let_def out)
qed

lemma IsAbs_Clean: "path_IsAbs s \<Longrightarrow> path_IsAbs (path_Clean s)"
  by (auto simp: path_Clean_def path_IsAbs_def Let_def split: list.splits)

lemma path_Join2_abs:
  assumes "path_IsAbs d"
  shows "path_Join [d, n] = path_Clean (d @ CHR ''/'' # n)"
  using assms by (cases d) (auto simp: path_Join_def path_IsAbs_def)

lemma path_comps_Join2:
  assumes "path_IsAbs d" and "''..'' \<notin> set (path_comps d)" and "''..'' \<notin> set (path_comps n)"
  shows "path_comps (path_Join [d, n]) = path_comps d @ path_comps n"
  using assms by (simp add: path_Join2_abs path_comps_Clean)

lemma IsAbs_Join2: "path_IsAbs d \<Longrightarrow> path_IsAbs (path_Join [d, n])"
  by (simp add: path_Join2_abs IsAbs_Clean IsAbs_append)

text \<open>A path that is already a list of plain components is its own cleaned form.\<close>

lemma path_Clean_plain:
  assumes "cs \<noteq> []" and "list_all plain_comp cs"
  shows "path_Clean (join_slash cs) = join_slash cs"
proof -
  have ns: "\<forall>c \<in> set cs. CHR ''/'' \<notin> set c" and wf: "\<forall>c \<in> set cs. c \<noteq> [] \<and> c \<noteq> ''.''"
    and dd: "''..'' \<notin> set cs"
    using assms(2) by (auto simp: list_all_iff plain_comp_def)
  from assms(1) ns have sp: "split_slash (join_slash cs) = cs" by (rule split_join)
  obtain c cs' where cs: "cs = c # cs'" using assms(1) by (cases cs) auto
  then obtain x xs where c: "c = x # xs" and x: "x \<noteq> CHR ''/''"
    using wf ns by (cases c) auto
  then have rel: "\<not> path_IsAbs (join_slash cs)" and ne: "join_slash cs \<noteq> []"
    using cs by (cases cs'; simp add: path_IsAbs_def)+
  have "clean_comps False [] cs = cs"
    using clean_comps_plain [OF dd] wf by (simp add: filter_id_conv)
  with sp rel ne assms(1) show ?thesis by (simp add: path_Clean_def)
qed

lemma join_slash_snoc: "ws \<noteq> [] \<Longrightarrow> join_slash (ws @ [w]) = join_slash ws @ CHR ''/'' # w"
  by (induction ws rule: join_slash.induct) auto

text \<open>The directory part of a path ends in the separator; its components are all but the last.\<close>

lemma path_Split_parts:
  assumes "split_slash s = ws @ [w]"
  shows "snd (path_Split s) = w"
    and "path_comps (fst (path_Split s)) = filter (\<lambda>c. c \<noteq> [] \<and> c \<noteq> ''.'') ws"
proof -
  show "snd (path_Split s) = w" using assms by (simp add: path_Split_def)
  have s: "s = join_slash (ws @ [w])" using join_split [of s] assms by simp
  have ns: "\<forall>c \<in> set ws. CHR ''/'' \<notin> set c"
    using split_slash_no_slash [of _ s] assms by simp
  show "path_comps (fst (path_Split s)) = filter (\<lambda>c. c \<noteq> [] \<and> c \<noteq> ''.'') ws"
  proof (cases "ws = []")
    case True
    with s assms show ?thesis by (simp add: path_Split_def)
  next
    case False
    then have "s = (join_slash ws @ ''/'') @ w" using s by (simp add: join_slash_snoc)
    then have "fst (path_Split s) = join_slash ws @ ''/''"
      using assms by (simp add: path_Split_def)
    then show ?thesis
      using split_join [OF False ns] by (simp add: path_comps_def split_slash_append2)
  qed
qed

end
