(* ===== verification/Posix_Fs.thy ===== *)
theory Posix_Fs
  imports Go_Path "HOL-Library.AList" "HOL-Library.Char_ord" "HOL-Library.List_Lexorder"
begin

text \<open>
  A POSIX file system with symbolic links and the functions of Go's \<^verbatim>\<open>os\<close> and
  \<^verbatim>\<open>path/filepath\<close> packages that the certificate writer calls.  A file system maps absolute
  paths, as lists of components, to files, directories and links.  Every system call counts a
  step and may fail with an error the environment picks; a call that fails has no effect.
  \<open>os_hist\<close> is a ghost history of all file systems a concurrent reader may have seen.
\<close>

section \<open>Nodes and the store\<close>

datatype fnode = File (file_data: bytes) (file_mode: "32 word") | Dir "32 word" | Link string

type_synonym fpath = "string list"
type_synonym fs = "(fpath \<times> fnode) list"

definition fs_get :: "fs \<Rightarrow> fpath \<Rightarrow> fnode option" where
  "fs_get t p = map_of t p"

definition fs_put :: "fpath \<Rightarrow> fnode \<Rightarrow> fs \<Rightarrow> fs" where
  "fs_put p n t = AList.update p n t"

definition fs_del :: "fpath \<Rightarrow> fs \<Rightarrow> fs" where
  "fs_del p t = filter (\<lambda>x. fst x \<noteq> p) t"

text \<open>The names in a directory.\<close>

definition fs_children :: "fpath \<Rightarrow> fs \<Rightarrow> string list" where
  "fs_children p t = remdups (map last (filter (\<lambda>q. q \<noteq> [] \<and> butlast q = p) (map fst t)))"

text \<open>What the file system calls rely on: a store of nodes under paths.\<close>

locale node_store =
  fixes get :: "'t \<Rightarrow> fpath \<Rightarrow> fnode option"
    and put :: "fpath \<Rightarrow> fnode \<Rightarrow> 't \<Rightarrow> 't"
    and del :: "fpath \<Rightarrow> 't \<Rightarrow> 't"
    and children :: "fpath \<Rightarrow> 't \<Rightarrow> string list"
  assumes get_put: "get (put p n t) q = (if q = p then Some n else get t q)"
    and get_del: "get (del p t) q = (if q = p then None else get t q)"
    and set_children: "set (children p t) = {c. get t (p @ [c]) \<noteq> None}"
    and distinct_children: "distinct (children p t)"
begin

lemma get_put_same [simp]: "get (put p n t) p = Some n"
  by (simp add: get_put)

lemma get_put_other [simp]: "q \<noteq> p \<Longrightarrow> get (put p n t) q = get t q"
  by (simp add: get_put)

lemma get_del_same [simp]: "get (del p t) p = None"
  by (simp add: get_del)

lemma get_del_other [simp]: "q \<noteq> p \<Longrightarrow> get (del p t) q = get t q"
  by (simp add: get_del)

lemma children_Nil_iff: "children p t = [] \<longleftrightarrow> (\<forall>c. get t (p @ [c]) = None)"
  using set_children [of p t] by (auto simp flip: set_empty)

text \<open>Changes that leave a path's node alone.\<close>

lemma get_fold_del: "get (fold del ps t) q = (if q \<in> set ps then None else get t q)"
  by (induction ps arbitrary: t) (auto simp: get_del)

end

lemma map_of_filter_fst: "map_of (filter (\<lambda>x. fst x \<noteq> p) t) q = (if q = p then None else map_of t q)"
  by (induction t) auto

interpretation nodes: node_store fs_get fs_put fs_del fs_children
proof
  show "fs_get (fs_put p n t) q = (if q = p then Some n else fs_get t q)" for p n t q
    by (simp add: fs_get_def fs_put_def update_conv')
  show "fs_get (fs_del p t) q = (if q = p then None else fs_get t q)" for p t q
    by (simp add: fs_get_def fs_del_def map_of_filter_fst)
  show "set (fs_children p t) = {c. fs_get t (p @ [c]) \<noteq> None}" for p t
  proof -
    have mem: "set (fs_children p t) = last ` {q \<in> fst ` set t. q \<noteq> [] \<and> butlast q = p}"
      by (simp add: fs_children_def)
    have "c \<in> set (fs_children p t) \<longleftrightarrow> p @ [c] \<in> fst ` set t" for c
    proof
      assume "c \<in> set (fs_children p t)"
      then obtain q where q: "q \<in> fst ` set t" "q \<noteq> []" "butlast q = p" "c = last q"
        unfolding mem by blast
      then have "q = p @ [c]" using append_butlast_last_id [OF q(2)] by simp
      with q(1) show "p @ [c] \<in> fst ` set t" by simp
    next
      assume "p @ [c] \<in> fst ` set t"
      then show "c \<in> set (fs_children p t)"
        unfolding mem by (intro image_eqI [of _ _ "p @ [c]"]) simp_all
    qed
    then show ?thesis by (simp add: set_eq_iff fs_get_def map_of_eq_None_iff)
  qed
  show "distinct (fs_children p t)" for p t
    by (simp add: fs_children_def)
qed

section \<open>Errors, environment, state\<close>

datatype errno = ENOENT | EEXIST | ENOTDIR | EISDIR | EINVAL | ENOTEMPTY | ELOOP | EBUSY | EIO

text \<open>\<^verbatim>\<open>os.IsNotExist\<close>, \<^verbatim>\<open>os.IsExist\<close>.\<close>

definition IsNotExist :: "errno \<Rightarrow> bool" where "IsNotExist e \<longleftrightarrow> e = ENOENT"
definition IsExist :: "errno \<Rightarrow> bool" where "IsExist e \<longleftrightarrow> e = EEXIST \<or> e = ENOTEMPTY"

datatype syscall =
  SYS_stat | SYS_readlink | SYS_open | SYS_read | SYS_write | SYS_getdents | SYS_mkdir |
  SYS_chmod | SYS_symlink | SYS_rename | SYS_unlink

record datetime =
  year :: nat
  month :: nat
  day :: nat
  hour :: nat
  minute :: nat
  second :: nat

text \<open>
  The environment: at each step, which error a system call fails with, if any; the time; the
  random number the run-time hands out; the umask, the current directory, \<^verbatim>\<open>runtime.GOOS\<close>.
\<close>

record os_env =
  env_fault :: "nat \<Rightarrow> syscall \<Rightarrow> errno option"
  env_now :: "nat \<Rightarrow> datetime"
  env_rand :: "nat \<Rightarrow> 32 word"
  env_umask :: "32 word"
  env_cwd :: fpath
  env_GOOS :: string

record os =
  os_fs :: fs
  os_hist :: "fs list"
  os_step :: nat

definition sys ::
  "os_env \<Rightarrow> syscall \<Rightarrow> (fs \<Rightarrow> errno + 'a \<times> fs) \<Rightarrow> (os, errno + 'a) state" where
  "sys E k f = State (\<lambda>s.
     let s1 = s\<lparr>os_step := Suc (os_step s)\<rparr>
     in case env_fault E (os_step s) k of
          Some e \<Rightarrow> (Inl e, s1)
        | None \<Rightarrow>
            (case f (os_fs s) of
               Inl e \<Rightarrow> (Inl e, s1)
             | Inr (x, t) \<Rightarrow> (Inr x, s1\<lparr>os_fs := t, os_hist := t # os_hist s\<rparr>)))"

section \<open>Path resolution\<close>

text \<open>
  How the kernel walks a path from directory \<open>cur\<close>, following at most \<open>n\<close> links.  The last
  component need not exist; if it is a link, it is followed only when asked.
\<close>

fun resolve :: "nat \<Rightarrow> fs \<Rightarrow> bool \<Rightarrow> fpath \<Rightarrow> fpath \<Rightarrow> errno + fpath" where
  "resolve n t follow cur [] = Inr cur"
| "resolve n t follow cur (c # cs) =
     (case fs_get t cur of
        Some (Dir _) \<Rightarrow>
          if c = ''..'' then resolve n t follow (butlast cur) cs
          else
            (case fs_get t (cur @ [c]) of
               Some (Link target) \<Rightarrow>
                 if cs = [] \<and> \<not> follow then Inr (cur @ [c])
                 else (case n of
                         0 \<Rightarrow> Inl ELOOP
                       | Suc m \<Rightarrow>
                           resolve m t follow (if path_IsAbs target then [] else cur)
                             (path_comps target @ cs))
             | Some _ \<Rightarrow> resolve n t follow (cur @ [c]) cs
             | None \<Rightarrow> if cs = [] then Inr (cur @ [c]) else Inl ENOENT)
      | None \<Rightarrow> Inl ENOENT
      | Some _ \<Rightarrow> Inl ENOTDIR)"

declare resolve.simps [simp del]

text \<open>The limit of links in one path is 40, as in Linux.\<close>

definition namei :: "os_env \<Rightarrow> fs \<Rightarrow> bool \<Rightarrow> string \<Rightarrow> errno + fpath" where
  "namei E t follow p =
     (if p = [] then Inl ENOENT
      else resolve 40 t follow (if path_IsAbs p then [] else env_cwd E) (path_comps p))"

text \<open>A call on the node a path leads to.\<close>

definition at_path ::
  "os_env \<Rightarrow> bool \<Rightarrow> string \<Rightarrow> (fpath \<Rightarrow> fnode option \<Rightarrow> fs \<Rightarrow> errno + 'a \<times> fs) \<Rightarrow>
   fs \<Rightarrow> errno + 'a \<times> fs" where
  "at_path E follow p f t =
     (case namei E t follow p of Inl e \<Rightarrow> Inl e | Inr q \<Rightarrow> f q (fs_get t q) t)"

section \<open>package os\<close>

datatype fileinfo = FileInfo (info_IsDir: bool)

definition node_info :: "fnode \<Rightarrow> fileinfo" where
  "node_info n = FileInfo (case n of Dir _ \<Rightarrow> True | _ \<Rightarrow> False)"

definition stat_at :: "fpath \<Rightarrow> fnode option \<Rightarrow> fs \<Rightarrow> errno + fileinfo \<times> fs" where
  "stat_at q n t = (case n of None \<Rightarrow> Inl ENOENT | Some x \<Rightarrow> Inr (node_info x, t))"

definition Stat :: "os_env \<Rightarrow> string \<Rightarrow> (os, errno + fileinfo) state" where
  "Stat E p = sys E SYS_stat (at_path E True p stat_at)"

definition Lstat :: "os_env \<Rightarrow> string \<Rightarrow> (os, errno + fileinfo) state" where
  "Lstat E p = sys E SYS_stat (at_path E False p stat_at)"

definition Readlink :: "os_env \<Rightarrow> string \<Rightarrow> (os, errno + string) state" where
  "Readlink E p = sys E SYS_readlink (at_path E False p (\<lambda>q n t.
     case n of None \<Rightarrow> Inl ENOENT | Some (Link l) \<Rightarrow> Inr (l, t) | Some _ \<Rightarrow> Inl EINVAL))"

text \<open>\<^verbatim>\<open>ReadFile\<close>: open, then read.\<close>

definition ReadFile :: "os_env \<Rightarrow> string \<Rightarrow> (os, errno + bytes) state" where
  "ReadFile E p = do {
     r \<leftarrow> sys E SYS_open (at_path E True p (\<lambda>q n t.
            case n of None \<Rightarrow> Inl ENOENT | Some x \<Rightarrow> Inr (q, t)));
     case r of
       Inl e \<Rightarrow> State_Monad.return (Inl e)
     | Inr q \<Rightarrow> sys E SYS_read (\<lambda>t.
         case fs_get t q of
           Some (File d _) \<Rightarrow> Inr (d, t) | Some (Dir _) \<Rightarrow> Inl EISDIR | _ \<Rightarrow> Inl EIO)
   }"

text \<open>\<^verbatim>\<open>syscallMode\<close>: the permission bits, set-user-id, set-group-id and sticky.\<close>

unbundle bit_operations_syntax

definition syscallMode :: "32 word \<Rightarrow> 32 word" where
  "syscallMode i =
     (i AND 0x1FF) OR (if bit i 23 then 0x800 else 0) OR (if bit i 22 then 0x400 else 0) OR
     (if bit i 20 then 0x200 else 0)"

definition masked :: "os_env \<Rightarrow> 32 word \<Rightarrow> 32 word" where
  "masked E mode = syscallMode mode AND NOT (env_umask E)"

definition Mkdir :: "os_env \<Rightarrow> string \<Rightarrow> 32 word \<Rightarrow> (os, errno + unit) state" where
  "Mkdir E p mode = sys E SYS_mkdir (at_path E False p (\<lambda>q n t.
     case n of None \<Rightarrow> Inr ((), fs_put q (Dir (masked E mode)) t) | Some _ \<Rightarrow> Inl EEXIST))"

text \<open>\<^verbatim>\<open>Chmod\<close> follows links; a dangling link has no node.\<close>

definition Chmod :: "os_env \<Rightarrow> string \<Rightarrow> 32 word \<Rightarrow> (os, errno + unit) state" where
  "Chmod E p mode = sys E SYS_chmod (at_path E True p (\<lambda>q n t.
     case n of
       None \<Rightarrow> Inl ENOENT
     | Some (File d _) \<Rightarrow> Inr ((), fs_put q (File d (syscallMode mode)) t)
     | Some (Dir _) \<Rightarrow> Inr ((), fs_put q (Dir (syscallMode mode)) t)
     | Some (Link _) \<Rightarrow> Inl ELOOP))"

text \<open>
  \<^verbatim>\<open>WriteFile\<close>: \<^verbatim>\<open>OpenFile(p, O_WRONLY|O_CREATE|O_TRUNC, mode)\<close>, then a write to the open
  file.
\<close>

definition WriteFile :: "os_env \<Rightarrow> string \<Rightarrow> bytes \<Rightarrow> 32 word \<Rightarrow> (os, errno + unit) state" where
  "WriteFile E p d mode = do {
     r \<leftarrow> sys E SYS_open (at_path E True p (\<lambda>q n t.
            case n of
              None \<Rightarrow> Inr (q, fs_put q (File [] (masked E mode)) t)
            | Some (File _ m) \<Rightarrow> Inr (q, fs_put q (File [] m) t)
            | Some (Dir _) \<Rightarrow> Inl EISDIR
            | Some (Link _) \<Rightarrow> Inl ELOOP));
     case r of
       Inl e \<Rightarrow> State_Monad.return (Inl e)
     | Inr q \<Rightarrow> sys E SYS_write (\<lambda>t.
         case fs_get t q of
           Some (File _ m) \<Rightarrow> Inr ((), fs_put q (File d m) t) | _ \<Rightarrow> Inl EIO)
   }"

definition Symlink :: "os_env \<Rightarrow> string \<Rightarrow> string \<Rightarrow> (os, errno + unit) state" where
  "Symlink E target p =
     sys E SYS_symlink (if target = [] then (\<lambda>t. Inl ENOENT) else at_path E False p (\<lambda>q n t.
       case n of None \<Rightarrow> Inr ((), fs_put q (Link target) t) | Some _ \<Rightarrow> Inl EEXIST))"

text \<open>
  \<^verbatim>\<open>Rename\<close>: Go refuses a new name that is a directory; the kernel replaces the new name in one
  step.
\<close>

definition move_tree :: "fpath \<Rightarrow> fpath \<Rightarrow> fs \<Rightarrow> fs" where
  "move_tree q1 q2 t =
     map (\<lambda>(q, n). (if prefix q1 q then q2 @ drop (length q1) q else q, n)) (fs_del q2 t)"

definition rename_at :: "fpath \<Rightarrow> fpath \<Rightarrow> fs \<Rightarrow> errno + unit \<times> fs" where
  "rename_at q1 q2 t =
     (case fs_get t q1 of
        None \<Rightarrow> Inl ENOENT
      | Some n \<Rightarrow>
          if q1 = q2 then Inr ((), t)
          else (case n of
                  Dir _ \<Rightarrow>
                    if prefix q1 q2 then Inl EINVAL
                    else (case fs_get t q2 of
                            None \<Rightarrow> Inr ((), move_tree q1 q2 t)
                          | Some (Dir _) \<Rightarrow>
                              if fs_children q2 t = [] then Inr ((), move_tree q1 q2 t)
                              else Inl ENOTEMPTY
                          | Some _ \<Rightarrow> Inl ENOTDIR)
                | _ \<Rightarrow>
                    (case fs_get t q2 of
                       Some (Dir _) \<Rightarrow> Inl EISDIR
                     | _ \<Rightarrow> Inr ((), fs_put q2 n (fs_del q1 t)))))"

definition sys_rename :: "os_env \<Rightarrow> string \<Rightarrow> string \<Rightarrow> (os, errno + unit) state" where
  "sys_rename E p1 p2 = sys E SYS_rename (\<lambda>t.
     case namei E t False p1 of
       Inl e \<Rightarrow> Inl e
     | Inr q1 \<Rightarrow> (case namei E t False p2 of Inl e \<Rightarrow> Inl e | Inr q2 \<Rightarrow> rename_at q1 q2 t))"

definition Rename :: "os_env \<Rightarrow> string \<Rightarrow> string \<Rightarrow> (os, errno + unit) state" where
  "Rename E oldname newname = do {
     r \<leftarrow> Lstat E newname;
     if r = Inr (FileInfo True) then do {
       r \<leftarrow> Lstat E oldname;
       case r of
         Inl e \<Rightarrow> State_Monad.return (Inl e)
       | Inr _ \<Rightarrow> do {
           s \<leftarrow> State_Monad.get;
           if newname = oldname \<or> namei E (os_fs s) False newname \<noteq> namei E (os_fs s) False oldname
           then State_Monad.return (Inl EEXIST)
           else sys_rename E oldname newname
         }
     } else sys_rename E oldname newname
   }"

text \<open>\<^verbatim>\<open>Remove\<close>: unlink, and when that fails rmdir.\<close>

definition unlink_at :: "fpath \<Rightarrow> fnode option \<Rightarrow> fs \<Rightarrow> errno + unit \<times> fs" where
  "unlink_at q n t =
     (case n of None \<Rightarrow> Inl ENOENT | Some (Dir _) \<Rightarrow> Inl EISDIR | Some _ \<Rightarrow> Inr ((), fs_del q t))"

definition rmdir_at :: "fpath \<Rightarrow> fnode option \<Rightarrow> fs \<Rightarrow> errno + unit \<times> fs" where
  "rmdir_at q n t =
     (case n of
        None \<Rightarrow> Inl ENOENT
      | Some (Dir _) \<Rightarrow>
          if q = [] then Inl EBUSY
          else if fs_children q t \<noteq> [] then Inl ENOTEMPTY else Inr ((), fs_del q t)
      | Some _ \<Rightarrow> Inl ENOTDIR)"

definition Remove :: "os_env \<Rightarrow> string \<Rightarrow> (os, errno + unit) state" where
  "Remove E p = do {
     r \<leftarrow> sys E SYS_unlink (at_path E False p unlink_at);
     case r of
       Inr u \<Rightarrow> State_Monad.return (Inr u)
     | Inl e \<Rightarrow> do {
         r1 \<leftarrow> sys E SYS_unlink (at_path E False p rmdir_at);
         case r1 of
           Inr u \<Rightarrow> State_Monad.return (Inr u)
         | Inl e1 \<Rightarrow> State_Monad.return (Inl (if e1 \<noteq> ENOTDIR then e1 else e))
       }
   }"

text \<open>
  \<^verbatim>\<open>RemoveAll\<close> and \<^verbatim>\<open>removeAllFrom\<close>.  The latter goes down the tree below an open directory;
  its fuel is one more than the depth of the file system.  A failure in one child does not
  stop the others.
\<close>

fun each_child :: "(string \<Rightarrow> (os, errno + unit) state) \<Rightarrow> string list \<Rightarrow> errno + unit \<Rightarrow>
  (os, errno + unit) state" where
  "each_child f [] acc = State_Monad.return acc"
| "each_child f (c # cs) acc = do {
     r \<leftarrow> f c;
     each_child f cs (case r of Inl e \<Rightarrow> Inl e | Inr _ \<Rightarrow> acc)
   }"

definition node_at :: "fpath \<Rightarrow> (fpath \<Rightarrow> fnode option \<Rightarrow> fs \<Rightarrow> errno + 'a \<times> fs) \<Rightarrow> fs \<Rightarrow> errno + 'a \<times> fs" where
  "node_at q f t = f q (fs_get t q) t"

definition getdents_at :: "fpath \<Rightarrow> fnode option \<Rightarrow> fs \<Rightarrow> errno + string list \<times> fs" where
  "getdents_at q n t =
     (case n of
        None \<Rightarrow> Inl ENOENT | Some (Dir _) \<Rightarrow> Inr (fs_children q t, t) | Some _ \<Rightarrow> Inl ENOTDIR)"

primrec removeAllFrom :: "os_env \<Rightarrow> nat \<Rightarrow> fpath \<Rightarrow> (os, errno + unit) state" where
  "removeAllFrom E 0 q = State_Monad.return (Inl EIO)"
| "removeAllFrom E (Suc n) q = do {
     r \<leftarrow> sys E SYS_unlink (node_at q unlink_at);
     case r of
       Inr u \<Rightarrow> State_Monad.return (Inr u)
     | Inl e \<Rightarrow>
         if IsNotExist e then State_Monad.return (Inr ())
         else if e \<noteq> EISDIR then State_Monad.return (Inl e)
         else do {
           l \<leftarrow> sys E SYS_getdents (node_at q getdents_at);
           case l of
             Inl e1 \<Rightarrow>
               State_Monad.return
                 (if IsNotExist e1 then Inr () else if e1 = ENOTDIR then Inl e else Inl e1)
           | Inr names \<Rightarrow> do {
               rec \<leftarrow> each_child (\<lambda>c. removeAllFrom E n (q @ [c])) names (Inr ());
               r1 \<leftarrow> sys E SYS_unlink (node_at q rmdir_at);
               case r1 of
                 Inr u \<Rightarrow> State_Monad.return (Inr u)
               | Inl e2 \<Rightarrow>
                   if IsNotExist e2 then State_Monad.return (Inr ())
                   else State_Monad.return (case rec of Inl er \<Rightarrow> Inl er | Inr _ \<Rightarrow> Inl e2)
             }
         }
   }"

definition fs_depth :: "fs \<Rightarrow> nat" where
  "fs_depth t = foldr (\<lambda>x m. max (length (fst x)) m) t 0"

definition RemoveAll :: "os_env \<Rightarrow> string \<Rightarrow> (os, errno + unit) state" where
  "RemoveAll E p =
     (if p = [] then State_Monad.return (Inr ())
      else if last (split_slash p) = ''.'' then State_Monad.return (Inl EINVAL)
      else do {
        r \<leftarrow> Remove E p;
        case r of
          Inr u \<Rightarrow> State_Monad.return (Inr u)
        | Inl e \<Rightarrow>
            if IsNotExist e then State_Monad.return (Inr ())
            else do {
              s \<leftarrow> State_Monad.get;
              q \<leftarrow> sys E SYS_open (\<lambda>t. case namei E t False p of Inl e \<Rightarrow> Inl e | Inr q \<Rightarrow> Inr (q, t));
              case q of
                Inl e \<Rightarrow> State_Monad.return (if IsNotExist e then Inr () else Inl e)
              | Inr q \<Rightarrow> removeAllFrom E (Suc (fs_depth (os_fs s))) q
            }
      })"

text \<open>
  \<^verbatim>\<open>MkdirAll\<close>; \<open>parent_of\<close> is the path up to the slash before the last element, trailing
  slashes not counted, as the code computes it.
\<close>

definition parent_of :: "string \<Rightarrow> string option" where
  "parent_of p =
     (let s = rev (dropWhile (\<lambda>c. c = CHR ''/'') (rev p));
          j = length s - length (last (split_slash s))
      in if j > 1 then Some (take (j - 1) p) else None)"

lemma parent_of_shorter: "parent_of p = Some d \<Longrightarrow> length d < length p"
proof -
  assume a: "parent_of p = Some d"
  define s where "s = rev (dropWhile (\<lambda>c. c = CHR ''/'') (rev p))"
  have "length s \<le> length p" unfolding s_def
    using length_dropWhile_le [of _ "rev p"] by simp
  with a show ?thesis unfolding parent_of_def s_def [symmetric]
    by (auto simp: Let_def split: if_splits)
qed

function MkdirAll :: "os_env \<Rightarrow> string \<Rightarrow> 32 word \<Rightarrow> (os, errno + unit) state" where
  "MkdirAll E p mode = do {
     r \<leftarrow> Stat E p;
     case r of
       Inr info \<Rightarrow> State_Monad.return (if info_IsDir info then Inr () else Inl ENOTDIR)
     | Inl _ \<Rightarrow> do {
         up \<leftarrow> (case parent_of p of
                  None \<Rightarrow> State_Monad.return (Inr ())
                | Some d \<Rightarrow> MkdirAll E d mode);
         case up of
           Inl e \<Rightarrow> State_Monad.return (Inl e)
         | Inr _ \<Rightarrow> do {
             m \<leftarrow> Mkdir E p mode;
             case m of
               Inr u \<Rightarrow> State_Monad.return (Inr u)
             | Inl e \<Rightarrow> do {
                 l \<leftarrow> Lstat E p;
                 State_Monad.return (if l = Inr (FileInfo True) then Inr () else Inl e)
               }
           }
       }
   }"
  by pat_completeness auto
termination
  by (relation "measure (\<lambda>(E, p, mode). length p)") (auto dest: parent_of_shorter)

declare MkdirAll.simps [simp del]

text \<open>
  \<^verbatim>\<open>MkdirTemp\<close> with a pattern without a star: a random decimal number is appended, at most
  10000 times while the name is taken.
\<close>

primrec MkdirTemp_loop :: "os_env \<Rightarrow> string \<Rightarrow> string \<Rightarrow> nat \<Rightarrow> (os, errno + string) state" where
  "MkdirTemp_loop E dir pre 0 = State_Monad.return (Inl EEXIST)"
| "MkdirTemp_loop E dir pre (Suc tries) = do {
     s \<leftarrow> State_Monad.get;
     let name = pre @ itoa (unat (env_rand E (os_step s)));
     r \<leftarrow> Mkdir E name 0x1C0;
     case r of
       Inr _ \<Rightarrow> State_Monad.return (Inr name)
     | Inl e \<Rightarrow>
         if IsExist e then MkdirTemp_loop E dir pre tries
         else if IsNotExist e then do {
           st \<leftarrow> Stat E dir;
           State_Monad.return (case st of Inl e1 \<Rightarrow> if IsNotExist e1 then Inl e1 else Inl e
                                        | Inr _ \<Rightarrow> Inl e)
         }
         else State_Monad.return (Inl e)
   }"

definition MkdirTemp :: "os_env \<Rightarrow> string \<Rightarrow> string \<Rightarrow> (os, errno + string) state" where
  "MkdirTemp E dir pattern =
     MkdirTemp_loop E dir
       (if dir \<noteq> [] \<and> last dir = CHR ''/'' then dir @ pattern else dir @ ''/'' @ pattern) 10000"

section \<open>package filepath\<close>

text \<open>
  \<^verbatim>\<open>filepath.Walk(root, visitor)\<close> for a visitor that always returns nil: the paths it is called
  with, in order.  A directory that cannot be read, and an entry that cannot be examined, are
  visited and not entered.
\<close>

definition readDirNames :: "os_env \<Rightarrow> string \<Rightarrow> (os, errno + string list) state" where
  "readDirNames E p = do {
     r \<leftarrow> sys E SYS_open (at_path E True p (\<lambda>q n t.
            case n of None \<Rightarrow> Inl ENOENT | Some _ \<Rightarrow> Inr (q, t)));
     case r of
       Inl e \<Rightarrow> State_Monad.return (Inl e)
     | Inr q \<Rightarrow> do {
         l \<leftarrow> sys E SYS_getdents (node_at q getdents_at);
         State_Monad.return (case l of Inl e \<Rightarrow> Inl e | Inr names \<Rightarrow> Inr (sort names))
       }
   }"

fun visit_all :: "(string \<Rightarrow> (os, string list) state) \<Rightarrow> string list \<Rightarrow> (os, string list) state" where
  "visit_all f [] = State_Monad.return []"
| "visit_all f (c # cs) = do { xs \<leftarrow> f c; ys \<leftarrow> visit_all f cs; State_Monad.return (xs @ ys) }"

primrec walk_from :: "os_env \<Rightarrow> nat \<Rightarrow> string \<Rightarrow> fileinfo \<Rightarrow> (os, string list) state" where
  "walk_from E 0 path info = State_Monad.return [path]"
| "walk_from E (Suc n) path info =
     (if \<not> info_IsDir info then State_Monad.return [path]
      else do {
        r \<leftarrow> readDirNames E path;
        case r of
          Inl e \<Rightarrow> State_Monad.return [path]
        | Inr names \<Rightarrow> do {
            below \<leftarrow> visit_all (\<lambda>name. do {
                let filename = path_Join [path, name];
                l \<leftarrow> Lstat E filename;
                case l of
                  Inl e \<Rightarrow> State_Monad.return [filename]
                | Inr fi \<Rightarrow> walk_from E n filename fi
              }) names;
            State_Monad.return (path # below)
          }
      })"

definition Walk :: "os_env \<Rightarrow> string \<Rightarrow> (os, string list) state" where
  "Walk E root = do {
     r \<leftarrow> Lstat E root;
     case r of
       Inl e \<Rightarrow> State_Monad.return [root]
     | Inr info \<Rightarrow> do {
         s \<leftarrow> State_Monad.get;
         walk_from E (Suc (fs_depth (os_fs s))) root info
       }
   }"

end
