(* ===== verification/Atomic_Writer.thy ===== *)
theory Atomic_Writer
  imports Posix_Fs
begin

text \<open>
  The atomic writer (\<^verbatim>\<open>webhook/util/writer/atomic/atomic_writer.go\<close>): it projects a payload of
  files into a directory through a timestamped directory and the \<^verbatim>\<open>..data\<close> link.  The
  definitions follow the functions of the file, on the file system of \<^verbatim>\<open>Posix_Fs\<close>.  The
  run-time ranges over a map or a set in an order it chooses: \<open>rng i\<close> is the order of the
  \<open>i\<close>-th loop.
\<close>

section \<open>Types and constants\<close>

record fileProjection =
  Data :: bytes
  Mode :: "32 word"

type_synonym payload = "(string, fileProjection) fmap"
type_synonym range_order = "nat \<Rightarrow> string fset \<Rightarrow> string list"

definition maxFileNameLength :: nat where "maxFileNameLength = 255"
definition maxPathLength :: nat where "maxPathLength = 4096"

definition dataDirName :: string where "dataDirName = ''..data''"
definition newDataDirName :: string where "newDataDirName = ''..data_tmp''"

text \<open>The errors of the writer: its own, or one of the \<^verbatim>\<open>os\<close> package.\<close>

datatype write_error = InvalidPath string | OsError errno

text \<open>\<^verbatim>\<open>NewAtomicWriter\<close>: the writer is its target directory.\<close>

definition NewAtomicWriter :: "os_env \<Rightarrow> string \<Rightarrow> (os, errno + string) state" where
  "NewAtomicWriter E targetDir = do {
     r \<leftarrow> Stat E targetDir;
     State_Monad.return (if r = Inl ENOENT then Inl ENOENT else Inr targetDir)
   }"

section \<open>Validation\<close>

fun validate_items :: "string \<Rightarrow> string list \<Rightarrow> string option" where
  "validate_items targetPath [] = None"
| "validate_items targetPath (item # items) =
     (if item = ''..'' then
        Some (''invalid path: must not contain '..': '' @ targetPath)
      else if length item > maxFileNameLength then
        Some (''invalid path: filenames must be less than or equal to '' @ itoa maxFileNameLength @
          '' characters'')
      else validate_items targetPath items)"

definition validatePath :: "string \<Rightarrow> string option" where
  "validatePath targetPath =
     (if targetPath = [] then Some (''invalid path: must not be empty: '' @ [CHR 0x22, CHR 0x22])
      else if path_IsAbs targetPath then
        Some (''invalid path: must be relative path: '' @ targetPath)
      else if length targetPath > maxPathLength then
        Some (''invalid path: must be less than or equal to '' @ itoa maxPathLength @ '' characters'')
      else
        let items = split_slash targetPath in
        case validate_items targetPath items of
          Some e \<Rightarrow> Some e
        | None \<Rightarrow>
            if prefix ''..'' (hd items) \<and> length (hd items) > 2 then
              Some (''invalid path: must not start with '..': '' @ targetPath)
            else None)"

fun validatePayload_loop :: "payload \<Rightarrow> string list \<Rightarrow> payload \<Rightarrow> write_error + payload" where
  "validatePayload_loop payload [] cleanPayload = Inr cleanPayload"
| "validatePayload_loop payload (k # ks) cleanPayload =
     (case validatePath k of
        Some e \<Rightarrow> Inl (InvalidPath e)
      | None \<Rightarrow>
          validatePayload_loop payload ks
            (fmupd (path_Clean k) (the (fmlookup payload k)) cleanPayload))"

definition validatePayload :: "range_order \<Rightarrow> payload \<Rightarrow> write_error + payload" where
  "validatePayload rng payload = validatePayload_loop payload (rng 1 (fmdom payload)) fmempty"

section \<open>Is a write needed?\<close>

definition shouldWriteFile :: "os_env \<Rightarrow> string \<Rightarrow> bytes \<Rightarrow> (os, errno + bool) state" where
  "shouldWriteFile E path content = do {
     r \<leftarrow> Lstat E path;
     if r = Inl ENOENT then State_Monad.return (Inr True)
     else do {
       r \<leftarrow> ReadFile E path;
       case r of
         Inl e \<Rightarrow> State_Monad.return (Inl e)
       | Inr contentOnFs \<Rightarrow> State_Monad.return (Inr (content \<noteq> contentOnFs))
     }
   }"

fun shouldWritePayload_loop ::
  "os_env \<Rightarrow> payload \<Rightarrow> string \<Rightarrow> string list \<Rightarrow> (os, errno + bool) state" where
  "shouldWritePayload_loop E payload oldTsDir [] = State_Monad.return (Inr False)"
| "shouldWritePayload_loop E payload oldTsDir (k # ks) = do {
     r \<leftarrow> shouldWriteFile E (path_Join [oldTsDir, k]) (Data (the (fmlookup payload k)));
     case r of
       Inl e \<Rightarrow> State_Monad.return (Inl e)
     | Inr shouldWrite \<Rightarrow>
         if shouldWrite then State_Monad.return (Inr True)
         else shouldWritePayload_loop E payload oldTsDir ks
   }"

definition shouldWritePayload ::
  "os_env \<Rightarrow> range_order \<Rightarrow> payload \<Rightarrow> string \<Rightarrow> (os, errno + bool) state" where
  "shouldWritePayload E rng payload oldTsDir =
     shouldWritePayload_loop E payload oldTsDir (rng 2 (fmdom payload))"

section \<open>Which paths to remove\<close>

text \<open>The inner loop of \<^verbatim>\<open>pathsToRemove\<close>: a path and all paths above it.\<close>

lemma trim_Split_shorter:
  assumes "s \<noteq> []"
  shows "length (trim_suffix (fst (path_Split s)) ''/'') < length s"
proof -
  let ?d = "fst (path_Split s)"
  have len: "length ?d = length s - length (last (split_slash s))"
    by (simp add: path_Split_def Let_def)
  show ?thesis
  proof (cases "last (split_slash s) = []")
    case False
    then have "length ?d < length s" using assms len by (cases s) auto
    then show ?thesis by (auto simp: trim_suffix_def)
  next
    case True
    obtain ws where ws: "split_slash s = ws @ [[]]"
      using True append_butlast_last_id [OF split_slash_nonempty, of s] by metis
    have "ws \<noteq> []" using ws assms join_split [of s] by auto
    then have "s = join_slash ws @ ''/''"
      using ws join_split [of s] by (simp add: join_slash_snoc)
    moreover have "?d = s" using True by (simp add: path_Split_def)
    ultimately show ?thesis by (metis trim_suffix_append length_append_singleton lessI)
  qed
qed

function subPaths :: "string \<Rightarrow> string list" where
  "subPaths subPath =
     (if subPath = [] then []
      else subPath # subPaths (trim_suffix (fst (path_Split subPath)) ''/''))"
  by pat_completeness auto
termination
  by (relation "measure length") (simp_all add: trim_Split_shorter)

declare subPaths.simps [simp del]

text \<open>
  What the visitor makes of a path it is called with.  It returns nil whatever happened, so the
  walk returns no error, and the two error branches that follow it are never taken.
\<close>

definition relativePath :: "string \<Rightarrow> string \<Rightarrow> string" where
  "relativePath oldTsDir path = trim_prefix (trim_prefix path oldTsDir) ''/''"

definition pathsToRemove ::
  "os_env \<Rightarrow> range_order \<Rightarrow> payload \<Rightarrow> string \<Rightarrow> (os, string fset) state" where
  "pathsToRemove E rng payload oldTsDir = do {
     visited \<leftarrow> Walk E oldTsDir;
     let paths = fset_of_list (filter (\<lambda>p. p \<noteq> []) (map (relativePath oldTsDir) visited));
     let newPaths = fset_of_list (concat (map subPaths (rng 3 (fmdom payload))));
     State_Monad.return (paths |-| newPaths)
   }"

section \<open>The timestamped directory\<close>

text \<open>\<^verbatim>\<open>Format("..2006_01_02_15_04_05.")\<close>.\<close>

definition timestamp :: "datetime \<Rightarrow> string" where
  "timestamp d =
     ''..'' @ pad 4 (year d) @ ''_'' @ pad 2 (month d) @ ''_'' @ pad 2 (day d) @ ''_'' @
     pad 2 (hour d) @ ''_'' @ pad 2 (minute d) @ ''_'' @ pad 2 (second d) @ ''.''"

definition newTimestampDir :: "os_env \<Rightarrow> string \<Rightarrow> (os, errno + string) state" where
  "newTimestampDir E targetDir = do {
     s \<leftarrow> State_Monad.get;
     r \<leftarrow> MkdirTemp E targetDir (timestamp (env_now E (os_step s)));
     case r of
       Inl e \<Rightarrow> State_Monad.return (Inl e)
     | Inr tsDir \<Rightarrow> do {
         c \<leftarrow> Chmod E tsDir 0x1ED;
         State_Monad.return (case c of Inl e \<Rightarrow> Inl e | Inr _ \<Rightarrow> Inr tsDir)
       }
   }"

fun writePayloadToDir_loop ::
  "os_env \<Rightarrow> payload \<Rightarrow> string \<Rightarrow> string list \<Rightarrow> (os, errno + unit) state" where
  "writePayloadToDir_loop E payload dir [] = State_Monad.return (Inr ())"
| "writePayloadToDir_loop E payload dir (k # ks) = do {
     let fileProjection = the (fmlookup payload k);
     let fullPath = path_Join [dir, k];
     let baseDir = fst (path_Split fullPath);
     r \<leftarrow> MkdirAll E baseDir 0x1FF;
     case r of
       Inl e \<Rightarrow> State_Monad.return (Inl e)
     | Inr _ \<Rightarrow> do {
         r \<leftarrow> WriteFile E fullPath (Data fileProjection) (Mode fileProjection);
         case r of
           Inl e \<Rightarrow> State_Monad.return (Inl e)
         | Inr _ \<Rightarrow> do {
             _ \<leftarrow> Chmod E fullPath (Mode fileProjection);
             writePayloadToDir_loop E payload dir ks
           }
       }
   }"

definition writePayloadToDir ::
  "os_env \<Rightarrow> range_order \<Rightarrow> payload \<Rightarrow> string \<Rightarrow> (os, errno + unit) state" where
  "writePayloadToDir E rng payload dir = writePayloadToDir_loop E payload dir (rng 4 (fmdom payload))"

section \<open>The user-visible links\<close>

fun createUserVisibleFiles_loop ::
  "os_env \<Rightarrow> string \<Rightarrow> string list \<Rightarrow> (os, errno + unit) state" where
  "createUserVisibleFiles_loop E targetDir [] = State_Monad.return (Inr ())"
| "createUserVisibleFiles_loop E targetDir (k # ks) = do {
     let linkname = takeWhile (\<lambda>c. c \<noteq> CHR ''/'') k;
     r \<leftarrow> Readlink E (path_Join [targetDir, linkname]);
     if r = Inl ENOENT then do {
       r \<leftarrow> Symlink E (path_Join [dataDirName, linkname]) (path_Join [targetDir, linkname]);
       case r of
         Inl e \<Rightarrow> State_Monad.return (Inl e)
       | Inr _ \<Rightarrow> createUserVisibleFiles_loop E targetDir ks
     }
     else createUserVisibleFiles_loop E targetDir ks
   }"

definition createUserVisibleFiles ::
  "os_env \<Rightarrow> range_order \<Rightarrow> string \<Rightarrow> payload \<Rightarrow> (os, errno + unit) state" where
  "createUserVisibleFiles E rng targetDir payload =
     createUserVisibleFiles_loop E targetDir (rng 5 (fmdom payload))"

fun removeUserVisiblePaths_loop ::
  "os_env \<Rightarrow> string \<Rightarrow> string list \<Rightarrow> errno + unit \<Rightarrow> (os, errno + unit) state" where
  "removeUserVisiblePaths_loop E targetDir [] lasterr = State_Monad.return lasterr"
| "removeUserVisiblePaths_loop E targetDir (p # ps) lasterr =
     (if contains p ''/'' then removeUserVisiblePaths_loop E targetDir ps lasterr
      else do {
        r \<leftarrow> Remove E (path_Join [targetDir, p]);
        removeUserVisiblePaths_loop E targetDir ps
          (case r of Inl e \<Rightarrow> Inl e | Inr _ \<Rightarrow> lasterr)
      })"

definition removeUserVisiblePaths ::
  "os_env \<Rightarrow> range_order \<Rightarrow> string \<Rightarrow> string fset \<Rightarrow> (os, errno + unit) state" where
  "removeUserVisiblePaths E rng targetDir paths =
     removeUserVisiblePaths_loop E targetDir (rng 6 paths) (Inr ())"

section \<open>Write\<close>

text \<open>Steps 8 and 9: the new data link is made beside the old one and renamed over it.\<close>

definition renameDataDir ::
  "os_env \<Rightarrow> string \<Rightarrow> string \<Rightarrow> string \<Rightarrow> (os, errno + unit) state" where
  "renameDataDir E tsDirName newDataDirPath dataDirPath =
     (if env_GOOS E = ''windows'' then do {
        _ \<leftarrow> Remove E dataDirPath;
        err \<leftarrow> Symlink E tsDirName dataDirPath;
        _ \<leftarrow> Remove E newDataDirPath;
        State_Monad.return err
      }
      else Rename E newDataDirPath dataDirPath)"

definition swapDataDir :: "os_env \<Rightarrow> string \<Rightarrow> string \<Rightarrow> (os, errno + unit) state" where
  "swapDataDir E targetDir tsDir = do {
     let dataDirPath = path_Join [targetDir, dataDirName];
     let tsDirName = path_Base tsDir;
     let newDataDirPath = path_Join [targetDir, newDataDirName];
     r \<leftarrow> Symlink E tsDirName newDataDirPath;
     case r of
       Inl e \<Rightarrow> do {
         _ \<leftarrow> RemoveAll E tsDir;
         State_Monad.return (Inl e)
       }
     | Inr _ \<Rightarrow> do {
         r \<leftarrow> renameDataDir E tsDirName newDataDirPath dataDirPath;
         case r of
           Inl e \<Rightarrow> do {
             _ \<leftarrow> Remove E newDataDirPath;
             _ \<leftarrow> RemoveAll E tsDir;
             State_Monad.return (Inl e)
           }
         | Inr _ \<Rightarrow> State_Monad.return (Inr ())
       }
   }"

text \<open>Steps 5 to 11.\<close>

definition writeNewVersion ::
  "os_env \<Rightarrow> range_order \<Rightarrow> string \<Rightarrow> payload \<Rightarrow> string \<Rightarrow> string fset \<Rightarrow>
   (os, errno + unit) state" where
  "writeNewVersion E rng targetDir cleanPayload oldTsDir toRemove = do {
     t \<leftarrow> newTimestampDir E targetDir;
     case t of
       Inl e \<Rightarrow> State_Monad.return (Inl e)
     | Inr tsDir \<Rightarrow> do {
         r \<leftarrow> writePayloadToDir E rng cleanPayload tsDir;
         case r of
           Inl e \<Rightarrow> State_Monad.return (Inl e)
         | Inr _ \<Rightarrow> do {
             r \<leftarrow> createUserVisibleFiles E rng targetDir cleanPayload;
             case r of
               Inl e \<Rightarrow> State_Monad.return (Inl e)
             | Inr _ \<Rightarrow> do {
                 r \<leftarrow> swapDataDir E targetDir tsDir;
                 case r of
                   Inl e \<Rightarrow> State_Monad.return (Inl e)
                 | Inr _ \<Rightarrow> do {
                     r \<leftarrow> removeUserVisiblePaths E rng targetDir toRemove;
                     case r of
                       Inl e \<Rightarrow> State_Monad.return (Inl e)
                     | Inr _ \<Rightarrow>
                         if length oldTsDir > 0 then RemoveAll E (path_Join [targetDir, oldTsDir])
                         else State_Monad.return (Inr ())
                   }
               }
           }
       }
   }"

text \<open>Steps 1 to 4; an error of the \<^verbatim>\<open>os\<close> package is passed on.\<close>

definition os_result :: "(os, errno + unit) state \<Rightarrow> (os, write_error + unit) state" where
  "os_result m = do {
     r \<leftarrow> m;
     State_Monad.return (case r of Inl e \<Rightarrow> Inl (OsError e) | Inr u \<Rightarrow> Inr u)
   }"

definition writeCleanPayload ::
  "os_env \<Rightarrow> range_order \<Rightarrow> string \<Rightarrow> payload \<Rightarrow> (os, errno + unit) state" where
  "writeCleanPayload E rng targetDir cleanPayload = do {
     l \<leftarrow> Readlink E (path_Join [targetDir, dataDirName]);
     if (case l of Inl e \<Rightarrow> \<not> IsNotExist e | Inr _ \<Rightarrow> False)
     then State_Monad.return (case l of Inl e \<Rightarrow> Inl e | Inr _ \<Rightarrow> Inr ())
     else do {
       let oldTsDir = (case l of Inl e \<Rightarrow> [] | Inr d \<Rightarrow> d);
       let oldTsPath = path_Join [targetDir, oldTsDir];
       if length oldTsDir \<noteq> 0 then do {
         toRemove \<leftarrow> pathsToRemove E rng cleanPayload oldTsPath;
         should \<leftarrow> shouldWritePayload E rng cleanPayload oldTsPath;
         case should of
           Inl e \<Rightarrow> State_Monad.return (Inl e)
         | Inr b \<Rightarrow>
             if \<not> b \<and> toRemove = {||} then State_Monad.return (Inr ())
             else writeNewVersion E rng targetDir cleanPayload oldTsDir toRemove
       }
       else writeNewVersion E rng targetDir cleanPayload oldTsDir {||}
     }
   }"

definition Write ::
  "os_env \<Rightarrow> range_order \<Rightarrow> string \<Rightarrow> payload \<Rightarrow> (os, write_error + unit) state" where
  "Write E rng targetDir payload =
     (case validatePayload rng payload of
        Inl e \<Rightarrow> State_Monad.return (Inl e)
      | Inr cleanPayload \<Rightarrow> os_result (writeCleanPayload E rng targetDir cleanPayload))"

end
