(* ===== verification/Fs_Logic.thy ===== *)
theory Fs_Logic
  imports Posix_Fs
begin

text \<open>
  Reasoning about the file system calls: triples whose assertions speak of the file system
  and that also bound every intermediate file system (the ghost history), the resolution of
  paths without links, and one rule per call.
\<close>

section \<open>Triples on the file system\<close>

text \<open>
  From a file system with \<open>J\<close>, whatever the environment lets fail, \<open>m\<close> ends in one related by
  \<open>R\<close> to its result, and every file system on the way satisfies \<open>ok\<close>.
\<close>

definition fsh ::
  "(fs \<Rightarrow> bool) \<Rightarrow> (fs \<Rightarrow> bool) \<Rightarrow> (os, 'a) state \<Rightarrow> ('a \<Rightarrow> fs \<Rightarrow> bool) \<Rightarrow> bool" where
  "fsh ok J m R \<longleftrightarrow>
     hoare (\<lambda>s. J (os_fs s) \<and> (\<forall>h \<in> set (os_hist s). ok h)) m
       (\<lambda>r s. R r (os_fs s) \<and> (\<forall>h \<in> set (os_hist s). ok h))"

lemma fshD:
  assumes "fsh ok J m R" "J (os_fs s)" "\<forall>h \<in> set (os_hist s). ok h" "run_state m s = (r, s')"
  shows "R r (os_fs s')" "\<forall>h \<in> set (os_hist s'). ok h"
  using assms unfolding fsh_def hoare_def by blast+

lemma fsh_return [triple]: "(\<And>t. J t \<Longrightarrow> R x t) \<Longrightarrow> fsh ok J (State_Monad.return x) R"
  by (auto simp: fsh_def hoare_def)

lemma fsh_bind [triple]:
  assumes "fsh ok J m Q" "\<And>x. fsh ok (Q x) (f x) R"
  shows "fsh ok J (State_Monad.bind m f) R"
  using assms unfolding fsh_def by (rule hoare_bind)

lemma fsh_get [triple]:
  assumes "\<And>s. fsh ok (\<lambda>t. J t \<and> os_fs s = t) (f s) R"
  shows "fsh ok J (State_Monad.bind State_Monad.get f) R"
  unfolding fsh_def
proof (rule hoareI)
  fix s r s'
  assume "J (os_fs s) \<and> (\<forall>h \<in> set (os_hist s). ok h)"
    and "run_state (State_Monad.bind State_Monad.get f) s = (r, s')"
  then have "J (os_fs s) \<and> os_fs s = os_fs s" "\<forall>h \<in> set (os_hist s). ok h"
    "run_state (f s) s = (r, s')"
    by (auto simp: State_Monad.get_def)
  then show "R r (os_fs s') \<and> (\<forall>h \<in> set (os_hist s'). ok h)"
    using fshD [OF assms [of s], of s r s'] by blast
qed

lemma fsh_if [triple]:
  "(b \<Longrightarrow> fsh ok J m R) \<Longrightarrow> (\<not> b \<Longrightarrow> fsh ok J n R) \<Longrightarrow> fsh ok J (if b then m else n) R"
  by simp

lemma fsh_sum [triple]:
  assumes "\<And>e. x = Inl e \<Longrightarrow> fsh ok J (f e) R" "\<And>y. x = Inr y \<Longrightarrow> fsh ok J (g y) R"
  shows "fsh ok J (case x of Inl e \<Rightarrow> f e | Inr y \<Rightarrow> g y) R"
  using assms by (cases x) auto

lemma fsh_option [triple]:
  assumes "x = None \<Longrightarrow> fsh ok J m R" "\<And>y. x = Some y \<Longrightarrow> fsh ok J (g y) R"
  shows "fsh ok J (case x of None \<Rightarrow> m | Some y \<Rightarrow> g y) R"
  using assms by (cases x) auto

lemma fsh_pre: "fsh ok J' m R \<Longrightarrow> (\<And>t. J t \<Longrightarrow> J' t) \<Longrightarrow> fsh ok J m R"
  unfolding fsh_def hoare_def by blast

lemma fsh_post: "fsh ok J m R' \<Longrightarrow> (\<And>r t. R' r t \<Longrightarrow> R r t) \<Longrightarrow> fsh ok J m R"
  unfolding fsh_def hoare_def by blast

lemma fsh_conseq:
  "fsh ok J' m R' \<Longrightarrow> (\<And>t. J t \<Longrightarrow> J' t) \<Longrightarrow> (\<And>r t. R' r t \<Longrightarrow> R r t) \<Longrightarrow> fsh ok J m R"
  by (rule fsh_post [OF fsh_pre])

lemma fsh_assume: "(\<And>t. J t \<Longrightarrow> P) \<Longrightarrow> (P \<Longrightarrow> fsh ok J m R) \<Longrightarrow> fsh ok J m R"
  unfolding fsh_def hoare_def by blast

lemma fsh_False: "fsh ok (\<lambda>t. False) m R"
  by (auto simp: fsh_def hoare_def)

text \<open>For each value a property of the first file system depends on.\<close>

lemma fsh_fix: "(\<And>t0. J t0 \<Longrightarrow> fsh ok (\<lambda>t. t = t0) m R) \<Longrightarrow> fsh ok J m R"
  unfolding fsh_def hoare_def by blast

text \<open>
  The rule of a call: it must justify its success by what \<open>f\<close> does, and its failure by what \<open>f\<close>
  says or by the environment.
\<close>

lemma fsh_sys:
  assumes "\<And>t x t'. J t \<Longrightarrow> f t = Inr (x, t') \<Longrightarrow> R (Inr x) t' \<and> ok t'"
    and "\<And>t e. J t \<Longrightarrow> f t = Inl e \<or> (\<exists>i. env_fault E i k = Some e) \<Longrightarrow> R (Inl e) t"
  shows "fsh ok J (sys E k f) R"
  unfolding fsh_def
proof (rule hoareI)
  fix s r s'
  assume J: "J (os_fs s) \<and> (\<forall>h \<in> set (os_hist s). ok h)" and run: "run_state (sys E k f) s = (r, s')"
  show "R r (os_fs s') \<and> (\<forall>h \<in> set (os_hist s'). ok h)"
  proof (cases "env_fault E (os_step s) k")
    case (Some e)
    then have "R (Inl e) (os_fs s)" using J assms(2) by blast
    with Some run J show ?thesis by (auto simp: sys_def Let_def)
  next
    case None
    show ?thesis
    proof (cases "f (os_fs s)")
      case (Inl e)
      with None run J assms(2) [of "os_fs s" e] show ?thesis by (auto simp: sys_def Let_def)
    next
      case (Inr p)
      obtain x t' where p: "p = (x, t')" by (cases p)
      with Inr None run J assms(1) [of "os_fs s" x t'] show ?thesis by (auto simp: sys_def Let_def)
    qed
  qed
qed

text \<open>An environment in which no call fails by itself.\<close>

definition no_faults :: "os_env \<Rightarrow> bool" where
  "no_faults E \<longleftrightarrow> (\<forall>i k. env_fault E i k = None)"

lemma no_faultsD: "no_faults E \<Longrightarrow> env_fault E i k = None"
  by (simp add: no_faults_def)

section \<open>Nodes\<close>

definition is_dir :: "fs \<Rightarrow> fpath \<Rightarrow> bool" where
  "is_dir t p \<longleftrightarrow> (\<exists>m. fs_get t p = Some (Dir m))"

definition is_link :: "fs \<Rightarrow> fpath \<Rightarrow> bool" where
  "is_link t p \<longleftrightarrow> (\<exists>l. fs_get t p = Some (Link l))"

text \<open>A tree: what exists is in a directory, and names are single components.\<close>

definition tree :: "fs \<Rightarrow> bool" where
  "tree t \<longleftrightarrow>
     (\<forall>p c. fs_get t (p @ [c]) \<noteq> None \<longrightarrow> is_dir t p \<and> plain_comp c)"

lemma is_dir_put: "is_dir (fs_put p n t) q \<longleftrightarrow> (if q = p then (\<exists>m. n = Dir m) else is_dir t q)"
  by (auto simp: is_dir_def nodes.get_put)

lemma is_dir_del: "is_dir (fs_del p t) q \<longleftrightarrow> q \<noteq> p \<and> is_dir t q"
  by (auto simp: is_dir_def nodes.get_del)

lemma treeD: "tree t \<Longrightarrow> fs_get t (p @ [c]) \<noteq> None \<Longrightarrow> is_dir t p"
  by (simp add: tree_def)

lemma not_dir_leaf: "tree t \<Longrightarrow> \<not> is_dir t q \<Longrightarrow> fs_get t (q @ [c]) = None"
  using treeD by blast

lemma tree_prefix_dir:
  assumes "tree t" "fs_get t (p @ q) \<noteq> None" "q \<noteq> []"
  shows "is_dir t p"
  using assms(2,3)
proof (induction q rule: rev_induct)
  case (snoc c q)
  then have "is_dir t (p @ q)" using treeD [OF assms(1), of "p @ q" c] by simp
  with snoc show ?case by (cases "q = []") (auto simp: is_dir_def)
qed simp

lemma tree_plain:
  assumes "tree t" "fs_get t p \<noteq> None"
  shows "list_all plain_comp p"
  using assms(2)
proof (induction p rule: rev_induct)
  case (snoc c p)
  then have "is_dir t p" "plain_comp c" using assms(1) by (auto simp: tree_def)
  with snoc show ?case by (auto simp: is_dir_def)
qed simp

lemma tree_put_new:
  assumes "tree t" "is_dir t p" "plain_comp c" "fs_get t (p @ [c]) = None"
  shows "tree (fs_put (p @ [c]) n t)"
proof -
  have leaf: "fs_get t ((p @ [c]) @ [c']) = None" for c'
    by (rule not_dir_leaf [OF assms(1)]) (use assms(4) in \<open>simp add: is_dir_def\<close>)
  have "is_dir t (p @ [c]) = False" using assms(4) by (simp add: is_dir_def)
  then show ?thesis
    using assms leaf unfolding tree_def nodes.get_put is_dir_put
    by (metis append_eq_append_conv last_snoc not_Cons_self2 butlast_snoc)
qed

lemma tree_put_same:
  assumes "tree t" "fs_get t q = Some n'" "is_dir t q \<longrightarrow> (\<exists>m. n = Dir m)"
  shows "tree (fs_put q n t)"
  using assms by (auto simp: tree_def is_dir_put nodes.get_put)

lemma tree_del_leaf:
  assumes "tree t" "\<And>c. fs_get t (q @ [c]) = None"
  shows "tree (fs_del q t)"
  using assms by (auto simp: tree_def is_dir_del nodes.get_del)

section \<open>Paths without links\<close>

text \<open>All directories above a path exist; no link is met on the way to it.\<close>

definition dirs :: "fs \<Rightarrow> fpath \<Rightarrow> bool" where
  "dirs t cs \<longleftrightarrow> (\<forall>q. strict_prefix q cs \<longrightarrow> is_dir t q)"

definition no_links :: "fs \<Rightarrow> bool \<Rightarrow> fpath \<Rightarrow> bool" where
  "no_links t follow cs \<longleftrightarrow>
     (\<forall>q. strict_prefix q cs \<longrightarrow> \<not> is_link t q) \<and> \<not> (follow \<and> is_link t cs)"

text \<open>An absolute path string with these components, none of them \<^verbatim>\<open>..\<close>.\<close>

definition abs_path :: "string \<Rightarrow> fpath \<Rightarrow> bool" where
  "abs_path p cs \<longleftrightarrow> path_IsAbs p \<and> path_comps p = cs \<and> ''..'' \<notin> set cs"

lemma strict_prefix_snoc_iff: "strict_prefix q (cs @ [c]) \<longleftrightarrow> strict_prefix q cs \<or> q = cs"
proof
  assume "strict_prefix q (cs @ [c])"
  then have "prefix q cs" unfolding strict_prefix_def prefix_snoc by blast
  then show "strict_prefix q cs \<or> q = cs" by (auto simp: strict_prefix_def)
next
  assume "strict_prefix q cs \<or> q = cs"
  then have "prefix q cs" by (auto simp: strict_prefix_def)
  moreover from this have "length q \<le> length cs" by (rule prefix_length_le)
  ultimately show "strict_prefix q (cs @ [c])" by (auto simp: strict_prefix_def prefix_snoc)
qed

lemma dirs_Nil [simp]: "dirs t []"
  by (simp add: dirs_def)

lemma dirs_snoc [simp]: "dirs t (cs @ [c]) \<longleftrightarrow> dirs t cs \<and> is_dir t cs"
  unfolding dirs_def strict_prefix_snoc_iff by blast

lemma tree_dirs: "tree t \<Longrightarrow> fs_get t cs \<noteq> None \<Longrightarrow> dirs t cs"
  unfolding dirs_def strict_prefix_def prefix_def using tree_prefix_dir by fastforce

lemma dir_not_link: "is_dir t p \<Longrightarrow> \<not> is_link t p"
  by (auto simp: is_dir_def is_link_def)

lemma no_links_snoc [simp]:
  "no_links t follow (cs @ [c]) \<longleftrightarrow> no_links t True cs \<and> \<not> (follow \<and> is_link t (cs @ [c]))"
  unfolding no_links_def strict_prefix_snoc_iff by blast

lemma no_links_weaken: "no_links t True cs \<Longrightarrow> no_links t f cs"
  by (auto simp: no_links_def)

lemma strict_prefix_Cons_same [simp]: "strict_prefix (x # xs) (x # ys) \<longleftrightarrow> strict_prefix xs ys"
  by (simp add: strict_prefix_def)

lemma strict_prefix_Nil_iff [simp]: "strict_prefix [] cs \<longleftrightarrow> cs \<noteq> []"
  by (auto simp: strict_prefix_def)

lemma strict_prefix_single [simp]: "strict_prefix p [c] \<longleftrightarrow> p = []"
  by (cases p) (auto simp: strict_prefix_def)

lemma resolve_dirs:
  assumes "\<forall>q. strict_prefix q cs \<longrightarrow> is_dir t (cur @ q)" and "''..'' \<notin> set cs"
    and "cs = [] \<or> \<not> (follow \<and> is_link t (cur @ cs))"
  shows "resolve n t follow cur cs = Inr (cur @ cs)"
  using assms
proof (induction cs arbitrary: cur)
  case Nil
  then show ?case by (simp add: resolve.simps)
next
  case (Cons c cs)
  have cur: "is_dir t cur" using Cons.prems(1) [rule_format, of "[]"] by simp
  have below: "\<forall>q. strict_prefix q cs \<longrightarrow> is_dir t ((cur @ [c]) @ q)"
    using Cons.prems(1) [rule_format, of "c # q" for q] by simp
  show ?case
  proof (cases "cs = []")
    case True
    with cur Cons.prems(2,3) show ?thesis
      by (auto simp: resolve.simps is_dir_def is_link_def split: option.splits fnode.splits)
  next
    case False
    then have "is_dir t (cur @ [c])" using below [rule_format, of "[]"] by simp
    moreover have "resolve n t follow (cur @ [c]) cs = Inr ((cur @ [c]) @ cs)"
      using Cons.IH [OF below] Cons.prems(2,3) by simp
    ultimately show ?thesis
      using cur Cons.prems(2) by (auto simp: resolve.simps is_dir_def)
  qed
qed

lemma resolve_nolink:
  assumes "resolve n t follow cur cs = Inr q" and "''..'' \<notin> set cs"
    and "\<forall>p. strict_prefix p cs \<and> p \<noteq> [] \<longrightarrow> \<not> is_link t (cur @ p)"
    and "cs = [] \<or> \<not> (follow \<and> is_link t (cur @ cs))"
  shows "q = cur @ cs \<and> (\<forall>p. strict_prefix p cs \<longrightarrow> is_dir t (cur @ p))"
  using assms
proof (induction cs arbitrary: cur)
  case Nil
  then show ?case by (simp add: resolve.simps)
next
  case (Cons c cs)
  from Cons.prems(1) have cur: "is_dir t cur"
    by (auto simp: resolve.simps is_dir_def split: option.splits fnode.splits)
  have below: "\<forall>p. strict_prefix p cs \<and> p \<noteq> [] \<longrightarrow> \<not> is_link t ((cur @ [c]) @ p)"
    using Cons.prems(3) [rule_format, of "c # p" for p] by simp
  have pre: "strict_prefix p (c # cs) \<longleftrightarrow> p = [] \<or> (\<exists>p'. p = c # p' \<and> strict_prefix p' cs)" for p
    by (cases p) (auto simp: strict_prefix_def)
  show ?case
  proof (cases "cs = []")
    case True
    with cur Cons.prems show ?thesis
      by (auto simp: pre resolve.simps is_dir_def is_link_def split: option.splits fnode.splits if_splits)
  next
    case False
    then have "\<not> is_link t (cur @ [c])" using Cons.prems(3) [rule_format, of "[c]"] by (simp add: pre)
    then have "resolve n t follow (cur @ [c]) cs = Inr q"
      using Cons.prems(1,2) cur False
      by (auto simp: resolve.simps is_dir_def is_link_def split: option.splits fnode.splits)
    from Cons.IH [OF this _ below] Cons.prems(2,4) False
    have "q = (cur @ [c]) @ cs \<and> (\<forall>p. strict_prefix p cs \<longrightarrow> is_dir t ((cur @ [c]) @ p))" by simp
    with cur show ?thesis by (auto simp: pre)
  qed
qed

text \<open>Something on the way is not a directory.\<close>

definition blocked :: "fs \<Rightarrow> fpath \<Rightarrow> bool" where
  "blocked t cs \<longleftrightarrow> (\<exists>q. strict_prefix q cs \<and> fs_get t q \<noteq> None \<and> \<not> is_dir t q)"

lemma resolve_fail:
  assumes "resolve n t follow cur cs = Inl e" and "''..'' \<notin> set cs"
    and "\<forall>p. strict_prefix p cs \<and> p \<noteq> [] \<longrightarrow> \<not> is_link t (cur @ p)"
    and "cs = [] \<or> \<not> (follow \<and> is_link t (cur @ cs))"
  shows "e = ENOENT \<or> (\<exists>p. strict_prefix p cs \<and> fs_get t (cur @ p) \<noteq> None \<and> \<not> is_dir t (cur @ p))"
  using assms
proof (induction cs arbitrary: cur)
  case Nil
  then show ?case by (simp add: resolve.simps)
next
  case (Cons c cs)
  have pre: "strict_prefix p (c # cs) \<longleftrightarrow> p = [] \<or> (\<exists>p'. p = c # p' \<and> strict_prefix p' cs)" for p
    by (cases p) (auto simp: strict_prefix_def)
  show ?case
  proof (cases "is_dir t cur")
    case False
    with Cons.prems(1) show ?thesis
      by (cases "fs_get t cur") (auto simp: pre resolve.simps is_dir_def)
  next
    case True
    have below: "\<forall>p. strict_prefix p cs \<and> p \<noteq> [] \<longrightarrow> \<not> is_link t ((cur @ [c]) @ p)"
      using Cons.prems(3) [rule_format, of "c # p" for p] by simp
    have nl: "\<not> (is_link t (cur @ [c]) \<and> (cs \<noteq> [] \<or> follow))"
      using Cons.prems(3) [rule_format, of "[c]"] Cons.prems(4) by (auto simp: pre)
    obtain m where m: "fs_get t cur = Some (Dir m)" using True by (auto simp: is_dir_def)
    have nn: "c \<noteq> ''..''" using Cons.prems(2) by auto
    have "fs_get t (cur @ [c]) = None \<and> e = ENOENT \<or> resolve n t follow (cur @ [c]) cs = Inl e"
    proof (cases "fs_get t (cur @ [c])")
      case None
      with Cons.prems(1) m nn show ?thesis by (cases "cs = []") (simp_all add: resolve.simps)
    next
      case (Some x)
      show ?thesis
      proof (cases "is_link t (cur @ [c])")
        case True
        with nl have "cs = [] \<and> \<not> follow" by blast
        with True Cons.prems(1) m nn show ?thesis by (auto simp: resolve.simps is_link_def)
      next
        case False
        with Some Cons.prems(1) m nn show ?thesis by (cases x) (simp_all add: resolve.simps is_link_def)
      qed
    qed
    then show ?thesis
    proof
      assume "resolve n t follow (cur @ [c]) cs = Inl e"
      from Cons.IH [OF this _ below] Cons.prems(2,4)
      have "e = ENOENT \<or> (\<exists>p. strict_prefix p cs \<and> fs_get t ((cur @ [c]) @ p) \<noteq> None \<and>
          \<not> is_dir t ((cur @ [c]) @ p))" by simp
      then show ?thesis by (auto simp: pre)
    qed simp
  qed
qed

lemma path_IsAbs_nonempty: "path_IsAbs p \<Longrightarrow> p \<noteq> []"
  by (auto simp: path_IsAbs_def)

lemma namei_dirs:
  assumes "abs_path p cs" "dirs t cs" "\<not> (follow \<and> is_link t cs)"
  shows "namei E t follow p = Inr cs"
  using assms resolve_dirs [of cs t "[]" follow] path_IsAbs_nonempty [of p]
  by (auto simp: namei_def abs_path_def dirs_def)

lemma namei_nolink:
  assumes "namei E t follow p = Inr q" "abs_path p cs" "no_links t follow cs"
  shows "q = cs" "dirs t cs"
  using assms resolve_nolink [of 40 t follow "[]" cs q] path_IsAbs_nonempty [of p]
  by (auto simp: namei_def abs_path_def dirs_def no_links_def split: if_splits)

lemma namei_fail:
  assumes "namei E t follow p = Inl e" "abs_path p cs" "no_links t follow cs"
  shows "\<not> dirs t cs \<and> (e = ENOENT \<or> blocked t cs)"
proof
  show "\<not> dirs t cs"
    using assms(1,3) namei_dirs [OF assms(2), of t follow E] by (auto simp: no_links_def)
  show "e = ENOENT \<or> blocked t cs"
  proof -
    have r: "resolve 40 t follow [] cs = Inl e" "''..'' \<notin> set cs"
      using assms(1,2) path_IsAbs_nonempty [of p] by (simp_all add: namei_def abs_path_def)
    have "\<forall>p. strict_prefix p cs \<and> p \<noteq> [] \<longrightarrow> \<not> is_link t ([] @ p)" "cs = [] \<or> \<not> (follow \<and> is_link t ([] @ cs))"
      using assms(3) by (simp_all add: no_links_def)
    from resolve_fail [OF r this] show ?thesis by (simp add: blocked_def)
  qed
qed

section \<open>Rules of the calls\<close>

lemma fsh_at:
  assumes p: "abs_path p cs" and nl: "\<And>t. J t \<Longrightarrow> no_links t follow cs"
    and succ: "\<And>t x t'. J t \<Longrightarrow> dirs t cs \<Longrightarrow> g cs (fs_get t cs) t = Inr (x, t') \<Longrightarrow> R (Inr x) t' \<and> ok t'"
    and fail: "\<And>t e. J t \<Longrightarrow> dirs t cs \<and> g cs (fs_get t cs) t = Inl e \<or>
      \<not> dirs t cs \<and> (e = ENOENT \<or> blocked t cs) \<or> (\<exists>i. env_fault E i k = Some e) \<Longrightarrow> R (Inl e) t"
  shows "fsh ok J (sys E k (at_path E follow p g)) R"
proof (rule fsh_sys)
  fix t x t'
  assume J: "J t" and *: "at_path E follow p g t = Inr (x, t')"
  then obtain q where q: "namei E t follow p = Inr q" "g q (fs_get t q) t = Inr (x, t')"
    by (auto simp: at_path_def split: sum.splits)
  from namei_nolink [OF q(1) p nl [OF J]] q(2) succ [OF J]
  show "R (Inr x) t' \<and> ok t'" by simp
next
  fix t e
  assume J: "J t" and *: "at_path E follow p g t = Inl e \<or> (\<exists>i. env_fault E i k = Some e)"
  have "dirs t cs \<and> g cs (fs_get t cs) t = Inl e \<or> \<not> dirs t cs \<and> (e = ENOENT \<or> blocked t cs)"
    if "at_path E follow p g t = Inl e"
    using that namei_fail [OF _ p nl [OF J]] namei_nolink [OF _ p nl [OF J]]
    by (auto simp: at_path_def split: sum.splits)
  with * fail [OF J] show "R (Inl e) t" by blast
qed

lemma fsh_node_at:
  assumes "\<And>t x t'. J t \<Longrightarrow> g q (fs_get t q) t = Inr (x, t') \<Longrightarrow> R (Inr x) t' \<and> ok t'"
    and "\<And>t e. J t \<Longrightarrow> g q (fs_get t q) t = Inl e \<or> (\<exists>i. env_fault E i k = Some e) \<Longrightarrow> R (Inl e) t"
  shows "fsh ok J (sys E k (node_at q g)) R"
  by (rule fsh_sys) (use assms in \<open>auto simp: node_at_def\<close>)

lemma fsh_Stat:
  assumes "abs_path p cs" "\<And>t. J t \<Longrightarrow> no_links t True cs" "\<And>t. J t \<Longrightarrow> ok t"
    and "\<And>t n. J t \<Longrightarrow> fs_get t cs = Some n \<Longrightarrow> R (Inr (node_info n)) t"
    and "\<And>t e. J t \<Longrightarrow> fs_get t cs = None \<and> dirs t cs \<and> e = ENOENT \<or>
      \<not> dirs t cs \<and> (e = ENOENT \<or> blocked t cs) \<or> (\<exists>i. env_fault E i SYS_stat = Some e) \<Longrightarrow> R (Inl e) t"
  shows "fsh ok J (Stat E p) R"
  unfolding Stat_def
proof (rule fsh_at [OF assms(1,2)], goal_cases)
  case (2 t x t')
  then show ?case using assms(3,4) by (auto simp: stat_at_def split: option.splits)
next
  case (3 t e)
  then show ?case using assms(5) [OF 3(1), of e] by (auto simp: stat_at_def split: option.splits)
qed

lemma fsh_Lstat:
  assumes "abs_path p cs" "\<And>t. J t \<Longrightarrow> no_links t False cs" "\<And>t. J t \<Longrightarrow> ok t"
    and "\<And>t n. J t \<Longrightarrow> fs_get t cs = Some n \<Longrightarrow> R (Inr (node_info n)) t"
    and "\<And>t e. J t \<Longrightarrow> fs_get t cs = None \<and> dirs t cs \<and> e = ENOENT \<or>
      \<not> dirs t cs \<and> (e = ENOENT \<or> blocked t cs) \<or> (\<exists>i. env_fault E i SYS_stat = Some e) \<Longrightarrow> R (Inl e) t"
  shows "fsh ok J (Lstat E p) R"
  unfolding Lstat_def
proof (rule fsh_at [OF assms(1,2)], goal_cases)
  case (2 t x t')
  then show ?case using assms(3,4) by (auto simp: stat_at_def split: option.splits)
next
  case (3 t e)
  then show ?case using assms(5) [OF 3(1), of e] by (auto simp: stat_at_def split: option.splits)
qed

lemma fsh_Readlink:
  assumes "abs_path p cs" "\<And>t. J t \<Longrightarrow> no_links t False cs" "\<And>t. J t \<Longrightarrow> ok t"
    and "\<And>t l. J t \<Longrightarrow> fs_get t cs = Some (Link l) \<Longrightarrow> R (Inr l) t"
    and "\<And>t e. J t \<Longrightarrow> fs_get t cs = None \<and> dirs t cs \<and> e = ENOENT \<or>
      fs_get t cs \<noteq> None \<and> \<not> is_link t cs \<and> e = EINVAL \<or> \<not> dirs t cs \<or>
      (\<exists>i. env_fault E i SYS_readlink = Some e) \<Longrightarrow> R (Inl e) t"
  shows "fsh ok J (Readlink E p) R"
  unfolding Readlink_def
proof (rule fsh_at [OF assms(1,2)], goal_cases)
  case (2 t x t')
  then show ?case using assms(3,4) by (auto simp: is_link_def split: option.splits fnode.splits)
next
  case (3 t e)
  then show ?case using assms(5) [OF 3(1), of e] by (auto simp: is_link_def split: option.splits fnode.splits)
qed

lemma fsh_Mkdir:
  assumes "abs_path p cs" "\<And>t. J t \<Longrightarrow> no_links t False cs"
    and "\<And>t m. J t \<Longrightarrow> dirs t cs \<Longrightarrow> fs_get t cs = None \<Longrightarrow>
      R (Inr ()) (fs_put cs (Dir m) t) \<and> ok (fs_put cs (Dir m) t)"
    and "\<And>t e. J t \<Longrightarrow> fs_get t cs \<noteq> None \<and> e = EEXIST \<or> \<not> dirs t cs \<or>
      (\<exists>i. env_fault E i SYS_mkdir = Some e) \<Longrightarrow> R (Inl e) t"
  shows "fsh ok J (Mkdir E p mode) R"
  unfolding Mkdir_def
proof (rule fsh_at [OF assms(1,2)], goal_cases)
  case (2 t x t')
  then show ?case using assms(3) by (auto split: option.splits)
next
  case (3 t e)
  then show ?case using assms(4) [OF 3(1), of e] by (auto split: option.splits)
qed

lemma fsh_Symlink:
  assumes "abs_path p cs" "target \<noteq> []" "\<And>t. J t \<Longrightarrow> no_links t False cs"
    and "\<And>t. J t \<Longrightarrow> dirs t cs \<Longrightarrow> fs_get t cs = None \<Longrightarrow>
      R (Inr ()) (fs_put cs (Link target) t) \<and> ok (fs_put cs (Link target) t)"
    and "\<And>t e. J t \<Longrightarrow> fs_get t cs \<noteq> None \<and> e = EEXIST \<or> \<not> dirs t cs \<or>
      (\<exists>i. env_fault E i SYS_symlink = Some e) \<Longrightarrow> R (Inl e) t"
  shows "fsh ok J (Symlink E target p) R"
  unfolding Symlink_def if_not_P [OF assms(2)]
proof (rule fsh_at [OF assms(1,3)], goal_cases)
  case (2 t x t')
  then show ?case using assms(4) by (auto split: option.splits)
next
  case (3 t e)
  then show ?case using assms(5) [OF 3(1), of e] by (auto split: option.splits)
qed

lemma fsh_Chmod:
  assumes "abs_path p cs" "\<And>t. J t \<Longrightarrow> no_links t True cs"
    and "\<And>t d m m'. J t \<Longrightarrow> fs_get t cs = Some (File d m) \<Longrightarrow>
      R (Inr ()) (fs_put cs (File d m') t) \<and> ok (fs_put cs (File d m') t)"
    and "\<And>t m m'. J t \<Longrightarrow> fs_get t cs = Some (Dir m) \<Longrightarrow>
      R (Inr ()) (fs_put cs (Dir m') t) \<and> ok (fs_put cs (Dir m') t)"
    and "\<And>t e. J t \<Longrightarrow> fs_get t cs = None \<or> \<not> dirs t cs \<or>
      (\<exists>i. env_fault E i SYS_chmod = Some e) \<Longrightarrow> R (Inl e) t"
  shows "fsh ok J (Chmod E p mode) R"
  unfolding Chmod_def
proof (rule fsh_at [OF assms(1,2)], goal_cases)
  case (2 t x t')
  then show ?case using assms(3,4) by (auto split: option.splits fnode.splits)
next
  case (3 t e)
  moreover have "\<not> is_link t cs" using assms(2) [OF 3(1)] by (simp add: no_links_def)
  ultimately show ?case
    using assms(5) [OF 3(1), of e] by (auto simp: is_link_def split: option.splits fnode.splits)
qed

lemma fsh_ReadFile:
  assumes "abs_path p cs" "\<And>t. J t \<Longrightarrow> no_links t True cs" "\<And>t. J t \<Longrightarrow> ok t"
    and "\<And>t d m. J t \<Longrightarrow> fs_get t cs = Some (File d m) \<Longrightarrow> R (Inr d) t"
    and "\<And>t e. J t \<Longrightarrow> \<not> (\<exists>d m. fs_get t cs = Some (File d m)) \<or> \<not> dirs t cs \<or>
      (\<exists>i k. env_fault E i k = Some e) \<Longrightarrow> R (Inl e) t"
  shows "fsh ok J (ReadFile E p) R"
  unfolding ReadFile_def
proof (rule fsh_bind [where Q = "\<lambda>r t. case r of Inl e \<Rightarrow> R (Inl e) t | Inr q \<Rightarrow> J t \<and> q = cs"],
    rule fsh_at [OF assms(1,2)], goal_cases)
  case (2 t x t')
  then show ?case using assms(3) by (auto split: option.splits)
next
  case (3 t e)
  then show ?case using assms(5) [OF 3(1), of e] by (auto split: option.splits)
next
  case (4 x)
  show ?case
  proof (cases x)
    case (Inr q)
    show ?thesis
      unfolding Inr sum.case
    proof (rule fsh_sys, goal_cases)
      case (1 t x t')
      then show ?case using assms(3,4) by (auto split: option.splits fnode.splits)
    next
      case (2 t e)
      then show ?case using assms(5) [of t e] by (auto split: option.splits fnode.splits)
    qed
  qed (simp add: fsh_return)
qed

lemma fsh_WriteFile:
  assumes "abs_path p cs" "\<And>t. J t \<Longrightarrow> no_links t True cs"
    and opened: "\<And>t m. J t \<Longrightarrow> dirs t cs \<Longrightarrow> fs_get t cs = None \<or> (\<exists>d0 m0. fs_get t cs = Some (File d0 m0)) \<Longrightarrow>
      Q (fs_put cs (File [] m) t) \<and> ok (fs_put cs (File [] m) t)"
    and written: "\<And>t d0 m. Q t \<Longrightarrow> fs_get t cs = Some (File d0 m) \<Longrightarrow>
      R (Inr ()) (fs_put cs (File d m) t) \<and> ok (fs_put cs (File d m) t)"
    and fail1: "\<And>t e. J t \<Longrightarrow> is_dir t cs \<or> \<not> dirs t cs \<or> (\<exists>i. env_fault E i SYS_open = Some e) \<Longrightarrow> R (Inl e) t"
    and fail2: "\<And>t e. Q t \<Longrightarrow> \<not> (\<exists>d0 m. fs_get t cs = Some (File d0 m)) \<or>
      (\<exists>i. env_fault E i SYS_write = Some e) \<Longrightarrow> R (Inl e) t"
  shows "fsh ok J (WriteFile E p d mode) R"
  unfolding WriteFile_def
proof (rule fsh_bind [where Q = "\<lambda>r t. case r of Inl e \<Rightarrow> R (Inl e) t | Inr q \<Rightarrow> Q t \<and> q = cs"],
    rule fsh_at [OF assms(1,2)], goal_cases)
  case (2 t x t')
  then show ?case using opened by (auto split: option.splits fnode.splits)
next
  case (3 t e)
  moreover have "\<not> is_link t cs" using assms(2) [OF 3(1)] by (simp add: no_links_def)
  ultimately show ?case
    using fail1 [OF 3(1), of e]
    by (auto simp: is_dir_def is_link_def split: option.splits fnode.splits)
next
  case (4 x)
  show ?case
  proof (cases x)
    case (Inr q)
    show ?thesis
      unfolding Inr sum.case
    proof (rule fsh_sys, goal_cases)
      case (1 t x t')
      then show ?case using written by (auto split: option.splits fnode.splits)
    next
      case (2 t e)
      then show ?case using fail2 [of t e] by (auto split: option.splits fnode.splits)
    qed
  qed (simp add: fsh_return)
qed

text \<open>Renaming a link over something that is not a directory.\<close>

lemma fsh_Rename_link:
  assumes "abs_path p1 cs1" "abs_path p2 cs2" "cs1 \<noteq> cs2" "\<And>t. J t \<Longrightarrow> ok t"
    and nl: "\<And>t. J t \<Longrightarrow> no_links t False cs1 \<and> no_links t False cs2"
    and lnk: "\<And>t. J t \<Longrightarrow> is_link t cs1 \<and> \<not> is_dir t cs2"
    and succ: "\<And>t n. J t \<Longrightarrow> dirs t cs2 \<Longrightarrow> fs_get t cs1 = Some n \<Longrightarrow>
      R (Inr ()) (fs_put cs2 n (fs_del cs1 t)) \<and> ok (fs_put cs2 n (fs_del cs1 t))"
    and fail: "\<And>t e. J t \<Longrightarrow> \<not> dirs t cs1 \<or> \<not> dirs t cs2 \<or> (\<exists>i. env_fault E i SYS_rename = Some e) \<Longrightarrow>
      R (Inl e) t"
  shows "fsh ok J (Rename E p1 p2) R"
proof -
  have lstat: "fsh ok J (Lstat E p2) (\<lambda>r t. J t \<and> r \<noteq> Inr (FileInfo True))"
    using nl lnk assms(4)
    by (intro fsh_Lstat [OF assms(2)]) (auto simp: node_info_def is_dir_def split: fnode.splits)
  have rename: "fsh ok J (sys_rename E p1 p2) R"
    unfolding sys_rename_def
  proof (rule fsh_sys, goal_cases)
    case (1 t x t')
    then obtain q1 q2 where q: "namei E t False p1 = Inr q1" "namei E t False p2 = Inr q2"
      "rename_at q1 q2 t = Inr (x, t')" by (auto split: sum.splits)
    have "q1 = cs1" "q2 = cs2" "dirs t cs2"
      using namei_nolink q assms(1,2) nl 1(1) by blast+
    then show ?case
      using q(3) succ [OF 1(1)] lnk [OF 1(1)] assms(3)
      by (auto simp: rename_at_def is_link_def is_dir_def split: option.splits fnode.splits if_splits)
  next
    case (2 t e)
    have "rename_at cs1 cs2 t \<noteq> Inl e'" for e'
      using lnk [OF 2(1)] assms(3)
      by (auto simp: rename_at_def is_link_def is_dir_def split: option.splits fnode.splits)
    then have "\<not> dirs t cs1 \<or> \<not> dirs t cs2 \<or> (\<exists>i. env_fault E i SYS_rename = Some e)"
      using 2(2) namei_dirs [OF assms(1), of t False E] namei_dirs [OF assms(2), of t False E]
      by auto
    then show ?case using fail [OF 2(1)] by blast
  qed
  show ?thesis
    unfolding Rename_def
    by (rule fsh_bind [OF lstat], rule fsh_if, rule fsh_assume) (auto intro: fsh_pre [OF rename])
qed

text \<open>
  Removal: what goes is a file or link, or an empty directory; each time something that has
  nothing below it.
\<close>

definition leaf :: "fs \<Rightarrow> fpath \<Rightarrow> bool" where
  "leaf t q \<longleftrightarrow> fs_get t q \<noteq> None \<and> (\<forall>c. fs_get t (q @ [c]) = None)"

lemma unlink_leaf:
  assumes "tree t" "unlink_at q (fs_get t q) t = Inr (x, t')"
  shows "leaf t q \<and> t' = fs_del q t"
  using assms not_dir_leaf [OF assms(1), of q]
  by (auto simp: unlink_at_def leaf_def is_dir_def split: option.splits fnode.splits)

lemma rmdir_leaf:
  assumes "rmdir_at q (fs_get t q) t = Inr (x, t')"
  shows "leaf t q \<and> q \<noteq> [] \<and> t' = fs_del q t"
  using assms
  by (auto simp: rmdir_at_def leaf_def nodes.children_Nil_iff split: option.splits fnode.splits if_splits)

lemma fsh_Remove:
  assumes p: "abs_path p cs" and nl: "\<And>t. J t \<Longrightarrow> no_links t False cs"
    and tr: "\<And>t. J t \<Longrightarrow> tree t"
    and succ: "\<And>t. J t \<Longrightarrow> leaf t cs \<Longrightarrow> R (Inr ()) (fs_del cs t) \<and> ok (fs_del cs t)"
    and fail: "\<And>t e. J t \<Longrightarrow> \<not> leaf t cs \<or> cs = [] \<or> (\<exists>i. env_fault E i SYS_unlink \<noteq> None) \<Longrightarrow> R (Inl e) t"
  shows "fsh ok J (Remove E p) R"
  unfolding Remove_def
proof (rule fsh_bind [where Q = "\<lambda>r t. case r of
      Inl e \<Rightarrow> J t \<and> (is_dir t cs \<or> \<not> leaf t cs \<or> (\<exists>i. env_fault E i SYS_unlink \<noteq> None))
    | Inr u \<Rightarrow> R (Inr u) t"],
    rule fsh_at [OF p nl], goal_cases)
  case (1 t)
  then show ?case by simp
next
  case (2 t x t')
  then show ?case using unlink_leaf [OF tr [OF 2(1)] 2(3)] succ by auto
next
  case (3 t e)
  then show ?case
    using tree_dirs [OF tr [OF 3(1)]]
    by (auto simp: unlink_at_def leaf_def is_dir_def split: option.splits fnode.splits)
next
  case (4 x)
  show ?case
  proof (cases x)
    case (Inr u)
    then show ?thesis by (auto intro: fsh_return)
  next
    case (Inl e)
    show ?thesis
      unfolding Inl sum.case
    proof (rule fsh_bind [where Q = "\<lambda>r t. case r of Inl e \<Rightarrow> (\<forall>e. R (Inl e) t) | Inr u \<Rightarrow> R (Inr u) t"],
        rule fsh_at [OF p nl], goal_cases)
      case (1 t)
      then show ?case by simp
    next
      case (2 t x t')
      then show ?case using rmdir_leaf [OF 2(3)] succ by auto
    next
      case (3 t e')
      then have "\<not> leaf t cs \<or> cs = [] \<or> (\<exists>i. env_fault E i SYS_unlink \<noteq> None)"
        using tree_dirs [OF tr, of t cs]
        by (auto simp: rmdir_at_def leaf_def is_dir_def nodes.children_Nil_iff
            split: option.splits fnode.splits if_splits)
      then show ?case using fail [of t] 3(1) by simp
    next
      case (4 x)
      then show ?case by (cases x) (auto intro: fsh_return)
    qed
  qed
qed

text \<open>\<^verbatim>\<open>RemoveAll\<close> keeps what every removal of a leaf at or below its path keeps.\<close>

lemma fsh_each_child:
  assumes "\<And>c. fsh ok J (f c) (\<lambda>_. J)"
  shows "fsh ok J (each_child f cs acc) (\<lambda>_. J)"
proof (induction cs arbitrary: acc)
  case Nil
  then show ?case by (auto intro: fsh_return)
next
  case (Cons c cs)
  then show ?case by (auto intro!: fsh_bind [OF assms])
qed

lemma fsh_removeAllFrom:
  assumes tr: "\<And>t. J t \<Longrightarrow> tree t \<and> ok t"
    and del: "\<And>t q. J t \<Longrightarrow> prefix cs q \<Longrightarrow> leaf t q \<Longrightarrow> J (fs_del q t)"
  shows "prefix cs q \<Longrightarrow> fsh ok J (removeAllFrom E n q) (\<lambda>_. J)"
proof (induction n arbitrary: q)
  case 0
  then show ?case by (auto intro: fsh_return)
next
  case (Suc n)
  have unlink: "fsh ok J (sys E SYS_unlink (node_at q unlink_at)) (\<lambda>_. J)"
    using tr del Suc.prems unlink_leaf by (intro fsh_node_at) blast+
  have rmdir: "fsh ok J (sys E SYS_unlink (node_at q rmdir_at)) (\<lambda>_. J)"
    using tr del Suc.prems rmdir_leaf by (intro fsh_node_at) blast+
  have dents: "fsh ok J (sys E SYS_getdents (node_at q getdents_at)) (\<lambda>_. J)"
    by (rule fsh_node_at) (use tr in \<open>auto simp: getdents_at_def split: option.splits fnode.splits\<close>)
  have rec: "fsh ok J (each_child (\<lambda>c. removeAllFrom E n (q @ [c])) names (Inr ())) (\<lambda>_. J)" for names
    by (rule fsh_each_child, rule Suc.IH) (use Suc.prems in \<open>auto simp: prefix_def\<close>)
  show ?case
    unfolding removeAllFrom.simps
    by (intro fsh_bind [OF unlink] fsh_bind [OF dents] fsh_bind [OF rec] fsh_bind [OF rmdir]
        fsh_sum fsh_if fsh_return)
qed

lemma fsh_RemoveAll:
  assumes p: "abs_path p cs" and nl: "\<And>t. J t \<Longrightarrow> no_links t False cs"
    and tr: "\<And>t. J t \<Longrightarrow> tree t \<and> ok t"
    and del: "\<And>t q. J t \<Longrightarrow> prefix cs q \<Longrightarrow> leaf t q \<Longrightarrow> J (fs_del q t)"
  shows "fsh ok J (RemoveAll E p) (\<lambda>_. J)"
proof -
  have rm: "fsh ok J (Remove E p) (\<lambda>_. J)"
    using tr del [of _ cs] by (intro fsh_Remove [OF p nl]) blast+
  have op: "fsh ok (\<lambda>t. J t \<and> P t) (sys E SYS_open (\<lambda>t. case namei E t False p of Inl e \<Rightarrow> Inl e | Inr q \<Rightarrow> Inr (q, t)))
      (\<lambda>r t. J t \<and> (\<forall>q. r = Inr q \<longrightarrow> q = cs))" for P
    by (rule fsh_sys) (use tr namei_nolink [OF _ p nl] in \<open>auto split: sum.splits\<close>)
  have from_J: "fsh ok J (removeAllFrom E n cs) (\<lambda>_. J)" for n
    by (rule fsh_removeAllFrom [where J = J and cs = cs]) (use tr del in auto)
  have from_cs: "fsh ok (\<lambda>t. J t \<and> (\<forall>q. r = Inr q \<longrightarrow> q = cs)) (removeAllFrom E n q) (\<lambda>_. J)"
    if "r = Inr q" for n q and r :: "errno + fpath"
    by (rule fsh_assume [of _ "q = cs"]) (use that in \<open>auto intro: fsh_pre [OF from_J]\<close>)
  show ?thesis
    unfolding RemoveAll_def
    by (intro fsh_if fsh_return fsh_bind [OF rm] fsh_sum fsh_get fsh_bind [OF op] from_cs)
      (simp_all del: removeAllFrom.simps)
qed

section \<open>MkdirAll\<close>

lemma path_comps_slashes: "list_all (\<lambda>c. c = CHR ''/'') z \<Longrightarrow> path_comps (s @ z) = path_comps s"
proof (induction z arbitrary: s)
  case (Cons c z)
  then have "path_comps (s @ c # z) = path_comps s @ path_comps z" by simp
  also have "path_comps z = []" using Cons.IH [of "[]"] Cons.prems by simp
  finally show ?case by simp
qed simp

text \<open>The components of the parent, and of what it leaves.\<close>

lemma parent_of_split:
  obtains s ws w where "prefix s p" "path_comps p = path_comps s" "split_slash s = ws @ [w]"
    "parent_of p = (if length (join_slash ws) > 0 then Some (join_slash ws) else None)"
proof -
  define s where "s = rev (dropWhile (\<lambda>c. c = CHR ''/'') (rev p))"
  define z where "z = rev (takeWhile (\<lambda>c. c = CHR ''/'') (rev p))"
  have p: "p = s @ z"
    unfolding s_def z_def by (metis rev_append rev_rev_ident takeWhile_dropWhile_id)
  have z: "list_all (\<lambda>c. c = CHR ''/'') z"
    unfolding z_def by (auto simp: list_all_iff dest: set_takeWhileD)
  obtain ws w where sp: "split_slash s = ws @ [w]"
    using append_butlast_last_id [OF split_slash_nonempty, of s] by metis
  have s: "s = join_slash (ws @ [w])" using join_split [of s] sp by simp
  have par: "parent_of p = (if length (join_slash ws) > 0 then Some (join_slash ws) else None)"
  proof (cases "ws = []")
    case True
    with s sp show ?thesis by (simp add: parent_of_def s_def [symmetric] Let_def)
  next
    case False
    then have sw: "s = join_slash ws @ CHR ''/'' # w" using s by (simp add: join_slash_snoc)
    then have "length s - length w = Suc (length (join_slash ws))"
      "take (length (join_slash ws)) p = join_slash ws" using p by simp_all
    then show ?thesis unfolding parent_of_def s_def [symmetric] Let_def sp by simp
  qed
  show thesis
    using that [OF _ _ sp par] p z by (simp add: path_comps_slashes)
qed

lemma parent_of_Some:
  assumes "parent_of p = Some d"
  shows "\<exists>w. length (path_comps w) \<le> 1 \<and> path_comps p = path_comps d @ path_comps w"
    and "path_IsAbs p \<Longrightarrow> path_IsAbs d"
proof -
  obtain s ws w where s: "prefix s p" "path_comps p = path_comps s" "split_slash s = ws @ [w]"
    "parent_of p = (if length (join_slash ws) > 0 then Some (join_slash ws) else None)"
    by (rule parent_of_split)
  then have d: "d = join_slash ws" "d \<noteq> []" using assms by (auto split: if_splits)
  then have "ws \<noteq> []" by auto
  then have sd: "s = d @ CHR ''/'' # w"
    using s(3) d join_split [of s] by (simp add: join_slash_snoc)
  have "CHR ''/'' \<notin> set w" using split_slash_no_slash [of w s] s(3) by simp
  then have "length (path_comps w) \<le> 1" by (simp add: path_comps_def)
  then show "\<exists>w. length (path_comps w) \<le> 1 \<and> path_comps p = path_comps d @ path_comps w"
    using s(2) sd by auto
  show "path_IsAbs p \<Longrightarrow> path_IsAbs d"
    using s(1) sd d(2) by (cases d) (auto simp: path_IsAbs_def prefix_def)
qed

lemma parent_of_None:
  assumes "parent_of p = None"
  shows "length (path_comps p) \<le> 1"
proof -
  obtain s ws w where s: "prefix s p" "path_comps p = path_comps s" "split_slash s = ws @ [w]"
    "parent_of p = (if length (join_slash ws) > 0 then Some (join_slash ws) else None)"
    by (rule parent_of_split)
  have w: "CHR ''/'' \<notin> set w" using split_slash_no_slash [of w s] s(3) by simp
  have "join_slash ws = []" using assms s(4) by (auto split: if_splits)
  then have "s = w \<or> s = CHR ''/'' # w"
    using s(3) join_split [of s] by (cases "ws = []") (auto simp: join_slash_snoc)
  with s(2) w show ?thesis by (auto simp: path_comps_def)
qed

text \<open>
  \<^verbatim>\<open>MkdirAll\<close> keeps what the creation of a directory on the way keeps; when it reports success
  the directory is there, and it does when nothing fails (\<open>g\<close>) and only directories are on the
  way.
\<close>

lemma dirs_one_more:
  assumes "tree t" "is_dir t p" "length w \<le> 1"
  shows "dirs t (p @ w)"
proof -
  have "dirs t p" using tree_dirs [OF assms(1)] assms(2) by (auto simp: is_dir_def)
  with assms(2,3) show ?thesis by (cases w) auto
qed

text \<open>MkdirAll's last look at a path, and its step to the parent.\<close>

lemma fsh_Lstat_dir:
  assumes p: "abs_path p c" and nl: "\<And>t b. J t \<Longrightarrow> no_links t b c" and ok: "\<And>t. J t \<Longrightarrow> tree t \<and> ok t"
    and g: "g \<Longrightarrow> no_faults E"
  shows "fsh ok (\<lambda>t. J t \<and> (g \<longrightarrow> is_dir t c)) (Lstat E p)
    (\<lambda>r t. J t \<and> (r = Inr (FileInfo True) \<longrightarrow> is_dir t c) \<and> (g \<longrightarrow> r = Inr (FileInfo True)))"
proof (rule fsh_Lstat [OF p], goal_cases)
  case (4 t e)
  have "\<not> g"
  proof
    assume g': g
    with 4 have "is_dir t c" by simp
    then have "fs_get t c \<noteq> None" by (auto simp: is_dir_def)
    moreover from this have "dirs t c" using tree_dirs ok 4(1) by blast
    ultimately show False using 4(2) no_faultsD [OF g [OF g']] by simp
  qed
  then show ?case using 4 by simp
qed (use nl ok in \<open>auto simp: node_info_def is_dir_def split: fnode.splits\<close>)

lemma fsh_parent:
  assumes p: "abs_path p c" and c: "prefix c cs" and ok: "\<And>t. J t \<Longrightarrow> tree t \<and> ok t"
    and root: "\<And>t. J t \<Longrightarrow> is_dir t []"
    and parent: "\<And>d e. parent_of p = Some d \<Longrightarrow> abs_path d e \<Longrightarrow> prefix e cs \<Longrightarrow>
      fsh ok J (MkdirAll E d mode) (\<lambda>r t. J t \<and> (r = Inr () \<longrightarrow> is_dir t e) \<and> (g \<longrightarrow> r = Inr ()))"
  shows "fsh ok J (case parent_of p of None \<Rightarrow> State_Monad.return (Inr ()) | Some d \<Rightarrow> MkdirAll E d mode)
    (\<lambda>r t. J t \<and> (g \<longrightarrow> r = Inr () \<and> dirs t c))"
proof (rule fsh_option)
  fix d
  assume d: "parent_of p = Some d"
  obtain w where w: "length (path_comps w) \<le> 1" "c = path_comps d @ path_comps w"
    using parent_of_Some(1) [OF d] p by (auto simp: abs_path_def)
  have "abs_path d (path_comps d)" "prefix (path_comps d) cs"
    using parent_of_Some(2) [OF d] p c w(2) by (auto simp: abs_path_def prefix_def)
  from parent [OF d this] show "fsh ok J (MkdirAll E d mode) (\<lambda>r t. J t \<and> (g \<longrightarrow> r = Inr () \<and> dirs t c))"
    by (rule fsh_post) (use ok dirs_one_more [OF _ _ w(1)] w(2) in auto)
next
  assume "parent_of p = None"
  then have "length c \<le> 1" using parent_of_None [of p] p by (simp add: abs_path_def)
  then have "dirs t c" if "J t" for t using dirs_one_more [of t "[]" c] ok root that by simp
  then show "fsh ok J (State_Monad.return (Inr ())) (\<lambda>r t. J t \<and> (g \<longrightarrow> r = Inr () \<and> dirs t c))"
    by (auto intro: fsh_return)
qed

lemma fsh_MkdirAll:
  assumes nl: "\<And>t q. J t \<Longrightarrow> prefix q cs \<Longrightarrow> \<not> is_link t q" and ok: "\<And>t. J t \<Longrightarrow> tree t \<and> ok t"
    and mk: "\<And>t q m. J t \<Longrightarrow> prefix q cs \<Longrightarrow> dirs t q \<Longrightarrow> fs_get t q = None \<Longrightarrow> J (fs_put q (Dir m) t)"
    and way: "\<And>t q. g \<Longrightarrow> J t \<Longrightarrow> prefix q cs \<Longrightarrow> fs_get t q \<noteq> None \<Longrightarrow> is_dir t q"
    and root: "\<And>t. J t \<Longrightarrow> is_dir t []"
  shows "(g \<Longrightarrow> no_faults E) \<Longrightarrow> abs_path p c \<Longrightarrow> prefix c cs \<Longrightarrow>
    fsh ok J (MkdirAll E p mode) (\<lambda>r t. J t \<and> (r = Inr () \<longrightarrow> is_dir t c) \<and> (g \<longrightarrow> r = Inr ()))"
proof (induction E p mode arbitrary: c rule: MkdirAll.induct)
  case (1 E p mode)
  have nlc: "no_links t b c" if "J t" for t b
    using nl [OF that] 1(4) unfolding no_links_def strict_prefix_def
    by (meson prefix_order.trans prefix_order.refl)
  have nf: "env_fault E i k = None" if g for i k
    using no_faultsD [OF 1(2) [OF that]] .
  have stat: "fsh ok J (Stat E p) (\<lambda>r t. J t \<and> (r = Inr (FileInfo True) \<longrightarrow> is_dir t c) \<and>
      (g \<and> r \<noteq> Inr (FileInfo True) \<longrightarrow> (\<exists>e. r = Inl e)))"
  proof (rule fsh_Stat [OF 1(3)], goal_cases)
    case (3 t n)
    then show ?case
      using way [OF _ 3(1) 1(4)] by (cases n) (auto simp: node_info_def is_dir_def)
  qed (use nlc ok in auto)
  have lstat: "fsh ok (\<lambda>t. J t \<and> (g \<longrightarrow> is_dir t c)) (Lstat E p)
      (\<lambda>r t. J t \<and> (r = Inr (FileInfo True) \<longrightarrow> is_dir t c) \<and> (g \<longrightarrow> r = Inr (FileInfo True)))"
    by (rule fsh_Lstat_dir [OF 1(3) nlc ok 1(2)])
  have mkdir: "fsh ok (\<lambda>t. J t \<and> (g \<longrightarrow> dirs t c)) (Mkdir E p mode)
      (\<lambda>r t. J t \<and> (r = Inr () \<longrightarrow> is_dir t c) \<and> (g \<and> r \<noteq> Inr () \<longrightarrow> is_dir t c))"
    by (rule fsh_Mkdir [OF 1(3)]) (use nlc ok mk 1(4) way nf in \<open>auto simp: is_dir_put\<close>)
  have up: "fsh ok J (case parent_of p of None \<Rightarrow> State_Monad.return (Inr ())
      | Some d \<Rightarrow> MkdirAll E d mode) (\<lambda>r t. J t \<and> (g \<longrightarrow> r = Inr () \<and> dirs t c))"
  proof (rule fsh_parent [OF 1(3,4)])
    show "fsh ok J (MkdirAll E d mode) (\<lambda>r t. J t \<and> (r = Inr () \<longrightarrow> is_dir t e) \<and> (g \<longrightarrow> r = Inr ()))"
      if "parent_of p = Some d" "abs_path d e" "prefix e cs" for d e
      using 1(1) [OF that(1) 1(2) that(2,3)] .
  qed (fact ok root)+
  show ?case
    unfolding MkdirAll.simps [of E p mode]
  proof (rule fsh_bind [OF stat], rule fsh_sum, goal_cases)
    case (1 x e)
    show ?case
    proof (rule fsh_pre [OF fsh_bind [OF up]], rule fsh_sum, goal_cases)
      case (1 r e)
      then show ?case by (auto intro!: fsh_return)
    next
      case (2 r u)
      show ?case
      proof (rule fsh_pre [OF fsh_bind [OF mkdir]], rule fsh_sum, goal_cases)
        case (1 m e)
        then show ?case
          by (auto intro!: fsh_pre [OF fsh_bind [OF lstat]] fsh_return)
      next
        case (2 m u)
        then show ?case by (auto intro!: fsh_return)
      qed simp
    qed simp
  next
    case (2 x info)
    then show ?case by (cases info) (auto intro!: fsh_return)
  qed
qed

section \<open>RemoveAll succeeds\<close>

lemma fsh_each_child_ok:
  assumes "\<And>D c. c \<in> set names \<Longrightarrow>
    fsh ok (\<lambda>t. K t \<and> (\<forall>d \<in> D. P d t)) (f c) (\<lambda>r t. (K t \<and> (\<forall>d \<in> D. P d t)) \<and> r = Inr () \<and> P c t)"
  shows "fsh ok (\<lambda>t. K t \<and> (\<forall>d \<in> D. P d t)) (each_child f names (Inr ()))
    (\<lambda>r t. (K t \<and> (\<forall>d \<in> D \<union> set names. P d t)) \<and> r = Inr ())"
  using assms
proof (induction names arbitrary: D)
  case Nil
  then show ?case by (auto intro: fsh_return)
next
  case (Cons c names)
  have rest: "fsh ok (\<lambda>t. K t \<and> (\<forall>d \<in> insert c D. P d t)) (each_child f names (Inr ()))
      (\<lambda>r t. (K t \<and> (\<forall>d \<in> D \<union> set (c # names). P d t)) \<and> r = Inr ())"
    using Cons.IH [of "insert c D"] Cons.prems by simp
  show ?case
    unfolding each_child.simps
  proof (rule fsh_bind [OF Cons.prems], simp)
    fix r :: "errno + unit"
    show "fsh ok (\<lambda>t. (K t \<and> (\<forall>d \<in> D. P d t)) \<and> r = Inr () \<and> P c t)
        (each_child f names (case r of Inl e \<Rightarrow> Inl e | Inr _ \<Rightarrow> Inr ()))
        (\<lambda>r t. (K t \<and> (\<forall>d \<in> D \<union> set (c # names). P d t)) \<and> r = Inr ())"
    proof (rule fsh_assume [of _ "r = Inr ()"])
      assume "r = Inr ()"
      then have "(case r of Inl e \<Rightarrow> Inl e | Inr _ \<Rightarrow> Inr ()) = Inr ()" by simp
      then show "fsh ok (\<lambda>t. (K t \<and> (\<forall>d \<in> D. P d t)) \<and> r = Inr () \<and> P c t)
          (each_child f names (case r of Inl e \<Rightarrow> Inl e | Inr _ \<Rightarrow> Inr ()))
          (\<lambda>r t. (K t \<and> (\<forall>d \<in> D \<union> set (c # names). P d t)) \<and> r = Inr ())"
        by (simp only:) (rule fsh_conseq [OF rest], auto)
    qed simp
  qed
qed

text \<open>The first attempt of \<^verbatim>\<open>removeAllFrom\<close>: a leaf goes, a directory is told apart.\<close>

lemma fsh_unlink_ok:
  assumes nf: "no_faults E" and tr: "\<And>t. J t \<Longrightarrow> tree t \<and> ok t"
    and del: "\<And>t p. J t \<Longrightarrow> prefix q p \<Longrightarrow> leaf t p \<Longrightarrow> J (fs_del p t)"
  shows "fsh ok J (sys E SYS_unlink (node_at q unlink_at))
    (\<lambda>r t. J t \<and> (case r of Inr _ \<Rightarrow> fs_get t q = None
       | Inl e \<Rightarrow> e = ENOENT \<and> fs_get t q = None \<or> e = EISDIR \<and> is_dir t q))"
proof (rule fsh_node_at, goal_cases)
  case (1 t x t')
  then have "leaf t q" "t' = fs_del q t" using unlink_leaf tr by blast+
  then show ?case using tr del [OF 1(1)] by simp
next
  case (2 t e)
  then have "unlink_at q (fs_get t q) t = Inl e" by (simp add: no_faultsD [OF nf])
  with 2(1) show ?case by (auto simp: unlink_at_def is_dir_def split: option.splits fnode.splits)
qed

text \<open>While the children of \<open>q\<close> go: \<open>q\<close> is a directory, and nothing new appears.\<close>

definition emptying :: "(fs \<Rightarrow> bool) \<Rightarrow> fpath \<Rightarrow> fs \<Rightarrow> fs \<Rightarrow> bool" where
  "emptying J q t1 t \<longleftrightarrow> J t \<and> is_dir t q \<and> (\<forall>p. fs_get t p \<noteq> None \<longrightarrow> fs_get t1 p \<noteq> None)"

lemma emptying_del:
  assumes "\<And>t p. J t \<Longrightarrow> prefix q p \<Longrightarrow> leaf t p \<Longrightarrow> J (fs_del p t)"
    and "emptying J q t1 t" "prefix (q @ [c]) p" "leaf t p"
  shows "emptying J q t1 (fs_del p t)"
proof -
  have "prefix q p" "p \<noteq> q" using assms(3) by (auto simp: prefix_def)
  then show ?thesis using assms(1) [of t p] assms(2,4) by (auto simp: emptying_def is_dir_del nodes.get_del)
qed

lemma fsh_rmdir_emptied:
  assumes nf: "no_faults E" and tr: "\<And>t. J t \<Longrightarrow> tree t \<and> ok t" and ne: "q \<noteq> []"
    and del: "\<And>t p. J t \<Longrightarrow> prefix q p \<Longrightarrow> leaf t p \<Longrightarrow> J (fs_del p t)"
    and names: "set names = {c. fs_get t1 (q @ [c]) \<noteq> None}"
  shows "fsh ok (\<lambda>t. (emptying J q t1 t \<and> (\<forall>d \<in> {} \<union> set names. fs_get t (q @ [d]) = None)) \<and> r = Inr ())
    (sys E SYS_unlink (node_at q rmdir_at)) (\<lambda>r t. J t \<and> r = Inr () \<and> fs_get t q = None)"
proof (rule fsh_node_at, goal_cases)
  case (1 t x t')
  then have "leaf t q" "t' = fs_del q t" using rmdir_leaf by blast+
  then show ?case using 1(1) tr del [of t q] by (simp add: emptying_def)
next
  case (2 t e)
  then have "fs_children q t = []" using names by (auto simp: emptying_def nodes.children_Nil_iff)
  with 2 ne show ?case by (auto simp: emptying_def rmdir_at_def is_dir_def no_faultsD [OF nf])
qed

text \<open>A child, by the induction hypothesis \<open>rec\<close> of the recursion.\<close>

lemma fsh_remove_child:
  assumes rec: "\<And>m J q. m < n \<Longrightarrow> (\<And>t. J t \<Longrightarrow> tree t \<and> ok t) \<Longrightarrow>
      (\<And>t p. J t \<Longrightarrow> prefix q p \<Longrightarrow> leaf t p \<Longrightarrow> J (fs_del p t)) \<Longrightarrow> q \<noteq> [] \<Longrightarrow>
      (\<And>t ks. J t \<Longrightarrow> fs_get t (q @ ks) \<noteq> None \<Longrightarrow> length ks \<le> m) \<Longrightarrow>
      fsh ok J (removeAllFrom E (Suc m) q) (\<lambda>r t. J t \<and> r = Inr () \<and> fs_get t q = None)"
    and tr: "\<And>t. J t \<Longrightarrow> tree t \<and> ok t"
    and del: "\<And>t p. J t \<Longrightarrow> prefix q p \<Longrightarrow> leaf t p \<Longrightarrow> J (fs_del p t)"
    and len: "\<And>t ks. J t \<Longrightarrow> fs_get t (q @ ks) \<noteq> None \<Longrightarrow> length ks \<le> n"
    and J1: "J t1" "fs_get t1 (q @ [c]) \<noteq> None"
  shows "fsh ok (\<lambda>t. emptying J q t1 t \<and> (\<forall>d \<in> D. fs_get t (q @ [d]) = None)) (removeAllFrom E n (q @ [c]))
    (\<lambda>r t. (emptying J q t1 t \<and> (\<forall>d \<in> D. fs_get t (q @ [d]) = None)) \<and> r = Inr () \<and> fs_get t (q @ [c]) = None)"
proof -
  from len [OF J1] obtain m where m: "n = Suc m" by (cases n) auto
  show ?thesis
    unfolding m
  proof (rule rec, goal_cases)
    case (2 t)
    then show ?case using tr by (simp add: emptying_def)
  next
    case (3 t p)
    then show ?case using emptying_del [of J q t1 t c p] del by (auto simp: nodes.get_del)
  next
    case (5 t ks)
    then have "fs_get t1 (q @ c # ks) \<noteq> None" by (simp add: emptying_def)
    from len [OF J1(1) this] m show ?case by simp
  qed (simp_all add: m)
qed

lemma fsh_removeAllFrom_ok:
  assumes nf: "no_faults E"
  shows "(\<And>t. J t \<Longrightarrow> tree t \<and> ok t) \<Longrightarrow>
    (\<And>t p. J t \<Longrightarrow> prefix q p \<Longrightarrow> leaf t p \<Longrightarrow> J (fs_del p t)) \<Longrightarrow> q \<noteq> [] \<Longrightarrow>
    (\<And>t ks. J t \<Longrightarrow> fs_get t (q @ ks) \<noteq> None \<Longrightarrow> length ks \<le> n) \<Longrightarrow>
    fsh ok J (removeAllFrom E (Suc n) q) (\<lambda>r t. J t \<and> r = Inr () \<and> fs_get t q = None)"
proof (induction n arbitrary: q J rule: less_induct)
  case (less n)
  note tr = less.prems(1) and del = less.prems(2) and ne = less.prems(3) and len = less.prems(4)
  have unlink: "fsh ok J (sys E SYS_unlink (node_at q unlink_at))
      (\<lambda>r t. J t \<and> (case r of Inr _ \<Rightarrow> fs_get t q = None
         | Inl e \<Rightarrow> e = ENOENT \<and> fs_get t q = None \<or> e = EISDIR \<and> is_dir t q))"
    using nf tr del by (rule fsh_unlink_ok)
  have loop: "fsh ok (\<lambda>t. t = t1) (do {
        r \<leftarrow> each_child (\<lambda>c. removeAllFrom E n (q @ [c])) names (Inr ());
        r1 \<leftarrow> sys E SYS_unlink (node_at q rmdir_at);
        case r1 of
          Inr u \<Rightarrow> State_Monad.return (Inr u)
        | Inl e2 \<Rightarrow>
            if IsNotExist e2 then State_Monad.return (Inr ())
            else State_Monad.return (case r of Inl er \<Rightarrow> Inl er | Inr _ \<Rightarrow> Inl e2)
      }) (\<lambda>r t. J t \<and> r = Inr () \<and> fs_get t q = None)"
    if J1: "J t1" "is_dir t1 q" and names: "set names = {c. fs_get t1 (q @ [c]) \<noteq> None}" for t1 names
  proof -
    have child: "fsh ok (\<lambda>t. emptying J q t1 t \<and> (\<forall>d \<in> D. fs_get t (q @ [d]) = None)) (removeAllFrom E n (q @ [c]))
        (\<lambda>r t. (emptying J q t1 t \<and> (\<forall>d \<in> D. fs_get t (q @ [d]) = None)) \<and> r = Inr () \<and> fs_get t (q @ [c]) = None)"
      if "c \<in> set names" for c D
    proof (rule fsh_remove_child [where ok = ok and J = J and n = n], goal_cases)
      case (1 m J q)
      then show ?case by (rule less.IH)
    qed (use tr del len J1(1) that names in auto)
    have rmdir: "fsh ok (\<lambda>t. (emptying J q t1 t \<and> (\<forall>d \<in> {} \<union> set names. fs_get t (q @ [d]) = None)) \<and> r = Inr ())
        (sys E SYS_unlink (node_at q rmdir_at)) (\<lambda>r t. J t \<and> r = Inr () \<and> fs_get t q = None)"
      for r :: "errno + unit"
      using nf tr ne del names by (rule fsh_rmdir_emptied)
    show ?thesis
    proof (rule fsh_pre [OF fsh_bind [OF fsh_each_child_ok [where K = "emptying J q t1" and
            P = "\<lambda>d t. fs_get t (q @ [d]) = None" and D = "{}", OF child] fsh_bind [OF rmdir]]], goal_cases)
      case (2 r r1)
      show ?case by (rule fsh_sum) (auto intro: fsh_return)
    qed (use J1 in \<open>auto simp: emptying_def\<close>)
  qed
  have dents: "fsh ok (\<lambda>t. J t \<and> is_dir t q) (sys E SYS_getdents (node_at q getdents_at))
      (\<lambda>r t. J t \<and> is_dir t q \<and> (\<exists>names. r = Inr names \<and> set names = {c. fs_get t (q @ [c]) \<noteq> None}))"
    by (rule fsh_node_at)
      (use tr no_faultsD [OF nf] in \<open>auto simp: getdents_at_def is_dir_def nodes.set_children\<close>)
  have dir: "fsh ok (\<lambda>t. J t \<and> is_dir t q) (do {
        l \<leftarrow> sys E SYS_getdents (node_at q getdents_at);
        case l of
          Inl e1 \<Rightarrow>
            State_Monad.return
              (if IsNotExist e1 then Inr () else if e1 = ENOTDIR then Inl e else Inl e1)
        | Inr names \<Rightarrow> do {
            r \<leftarrow> each_child (\<lambda>c. removeAllFrom E n (q @ [c])) names (Inr ());
            r1 \<leftarrow> sys E SYS_unlink (node_at q rmdir_at);
            case r1 of
              Inr u \<Rightarrow> State_Monad.return (Inr u)
            | Inl e2 \<Rightarrow>
                if IsNotExist e2 then State_Monad.return (Inr ())
                else State_Monad.return (case r of Inl er \<Rightarrow> Inl er | Inr _ \<Rightarrow> Inl e2)
          }
      }) (\<lambda>r t. J t \<and> r = Inr () \<and> fs_get t q = None)" for e
  proof (rule fsh_bind [OF dents], rule fsh_sum, goal_cases)
    case (2 l names)
    show ?case
      by (rule fsh_fix, rule fsh_conseq [OF loop]) (use 2 in auto)
  qed (auto intro: fsh_return)
  show ?case
    unfolding removeAllFrom.simps
  proof (rule fsh_bind [OF unlink], rule fsh_sum, goal_cases)
    case (1 r e)
    show ?case
    proof (intro fsh_if, goal_cases)
      case 3
      then show ?case using 1 by (intro fsh_pre [OF dir]) auto
    qed (use 1 in \<open>auto intro!: fsh_return simp: IsNotExist_def\<close>)
  next
    case (2 r u)
    then show ?case by (auto intro: fsh_return)
  qed
qed

lemma fs_depth_bound: "fs_get t p \<noteq> None \<Longrightarrow> length p \<le> fs_depth t"
proof (induction t)
  case (Cons x t)
  then show ?case by (cases x) (auto simp: fs_get_def fs_depth_def split: if_splits)
qed (simp add: fs_get_def)

text \<open>When nothing fails, \<^verbatim>\<open>RemoveAll\<close> reports success.\<close>

lemma fsh_RemoveAll_ok:
  assumes nf: "no_faults E"
    and p: "abs_path p cs" "cs \<noteq> []" "last (split_slash p) \<noteq> ''.''"
    and nl: "\<And>t. J t \<Longrightarrow> no_links t False cs \<and> dirs t cs"
    and tr: "\<And>t. J t \<Longrightarrow> tree t \<and> ok t"
    and del: "\<And>t q. J t \<Longrightarrow> prefix cs q \<Longrightarrow> leaf t q \<Longrightarrow> J (fs_del q t)"
  shows "fsh ok J (RemoveAll E p) (\<lambda>r t. J t \<and> r = Inr ())"
proof -
  have rm: "fsh ok J (Remove E p) (\<lambda>_. J)"
    using tr del [of _ cs] by (intro fsh_Remove [OF p(1)]) (use nl in auto)
  have op: "fsh ok (\<lambda>t. J t \<and> os_fs s = t) (sys E SYS_open (\<lambda>t. case namei E t False p of Inl e \<Rightarrow> Inl e | Inr q \<Rightarrow> Inr (q, t)))
      (\<lambda>r t. (J t \<and> os_fs s = t) \<and> r = Inr cs)" for s
    by (rule fsh_sys)
      (use tr nl namei_dirs [OF p(1), of _ False E] no_faultsD [OF nf] in \<open>auto split: sum.splits\<close>)
  have from_cs: "fsh ok (\<lambda>t. J t \<and> os_fs s = t) (removeAllFrom E (Suc (fs_depth (os_fs s))) cs)
      (\<lambda>r t. J t \<and> r = Inr ())" for s
  proof -
    define K where "K t \<longleftrightarrow> J t \<and> (\<forall>p. fs_get t p \<noteq> None \<longrightarrow> fs_get (os_fs s) p \<noteq> None)" for t
    have "fsh ok K (removeAllFrom E (Suc (fs_depth (os_fs s))) cs)
        (\<lambda>r t. K t \<and> r = Inr () \<and> fs_get t cs = None)"
    proof (rule fsh_removeAllFrom_ok [OF nf _ _ p(2)], goal_cases)
      case (3 t ks)
      then have "fs_get (os_fs s) (cs @ ks) \<noteq> None" by (simp add: K_def)
      from fs_depth_bound [OF this] show ?case by simp
    qed (use tr del in \<open>auto simp: K_def nodes.get_del\<close>)
    then show ?thesis by (rule fsh_conseq) (auto simp: K_def)
  qed
  have rest: "fsh ok J (do {
        s \<leftarrow> State_Monad.get;
        q \<leftarrow> sys E SYS_open (\<lambda>t. case namei E t False p of Inl e \<Rightarrow> Inl e | Inr q \<Rightarrow> Inr (q, t));
        case q of
          Inl e \<Rightarrow> State_Monad.return (if IsNotExist e then Inr () else Inl e)
        | Inr q \<Rightarrow> removeAllFrom E (Suc (fs_depth (os_fs s))) q
      }) (\<lambda>r t. J t \<and> r = Inr ())"
  proof (rule fsh_get, rule fsh_bind [OF op], rule fsh_sum, goal_cases)
    case (1 s q e)
    then show ?case by (auto intro: fsh_return)
  next
    case (2 s q y)
    show ?case
    proof (rule fsh_assume [of _ "y = cs"])
      assume "y = cs"
      then show "fsh ok (\<lambda>t. (J t \<and> os_fs s = t) \<and> q = Inr cs)
          (removeAllFrom E (Suc (fs_depth (os_fs s))) y) (\<lambda>r t. J t \<and> r = Inr ())"
        by (simp only:) (rule fsh_pre [OF from_cs], blast)
    qed (use 2 in auto)
  qed
  have "p \<noteq> []" using p(1) path_IsAbs_nonempty by (auto simp: abs_path_def)
  then show ?thesis
    unfolding RemoveAll_def if_not_P [OF \<open>p \<noteq> []\<close>] if_not_P [OF p(3)]
  proof (intro fsh_bind [OF rm] fsh_sum fsh_if, goal_cases)
    case (2 r e)
    show ?case by (rule rest)
  qed (auto intro: fsh_return)
qed

end
