(* ===== verification/Fs_Walk.thy ===== *)
theory Fs_Walk
  imports Fs_Logic
begin

text \<open>
  Absolute path strings and their components, and what a walk visits: only what exists below
  its root, and all of it when no call fails.
\<close>

section \<open>Absolute paths\<close>

definition abs_str :: "fpath \<Rightarrow> string" where
  "abs_str cs = CHR ''/'' # join_slash cs"

lemma plain_no_dotdot: "list_all plain_comp cs \<Longrightarrow> ''..'' \<notin> set cs"
  by (auto simp: list_all_iff plain_comp_def)

lemma plain_comps_join: "list_all plain_comp cs \<Longrightarrow> path_comps (join_slash cs) = cs"
  by (rule path_comps_join) (auto simp: list_all_iff plain_comp_def)

lemma abs_str_path: "list_all plain_comp cs \<Longrightarrow> abs_path (abs_str cs) cs"
  by (simp add: abs_path_def abs_str_def path_IsAbs_def plain_comps_join plain_no_dotdot)

lemma abs_path_Join:
  assumes "abs_path d cs" "''..'' \<notin> set (path_comps n)"
  shows "abs_path (path_Join [d, n]) (cs @ path_comps n)"
  using assms path_comps_Join2 [of d n] IsAbs_Join2 [of d n] by (auto simp: abs_path_def)

text \<open>\<^verbatim>\<open>path.Join\<close> of an absolute path is in this normal form.\<close>

lemma path_Join_abs_str:
  assumes "abs_path d cs" "''..'' \<notin> set (path_comps n)"
  shows "path_Join [d, n] = abs_str (cs @ path_comps n)"
proof -
  let ?p = "d @ CHR ''/'' # n"
  have a: "path_IsAbs ?p" "path_comps ?p = cs @ path_comps n"
    using assms by (auto simp: abs_path_def IsAbs_append)
  then have "''..'' \<notin> set (split_slash ?p)"
    using assms dotdot_path_comps [of ?p] by (auto simp: abs_path_def)
  from clean_comps_plain [OF this, of True "[]"] a
  have "path_Clean ?p = abs_str (cs @ path_comps n)"
    by (auto simp: path_Clean_def abs_str_def Let_def path_comps_def path_IsAbs_def)
  with assms(1) show ?thesis by (simp add: path_Join2_abs abs_path_def)
qed

lemma abs_str_inject: "list_all plain_comp a \<Longrightarrow> list_all plain_comp b \<Longrightarrow> abs_str a = abs_str b \<longleftrightarrow> a = b"
  by (metis abs_str_path abs_path_def)

lemma join_slash_append: "a \<noteq> [] \<Longrightarrow> b \<noteq> [] \<Longrightarrow> join_slash (a @ b) = join_slash a @ CHR ''/'' # join_slash b"
  by (induction a rule: join_slash.induct) (auto simp: neq_Nil_conv)

lemma abs_str_append: "ks \<noteq> [] \<Longrightarrow> cs \<noteq> [] \<Longrightarrow> abs_str (cs @ ks) = abs_str cs @ CHR ''/'' # join_slash ks"
  by (simp add: abs_str_def join_slash_append)

lemma abs_path_snoc: "abs_path d cs \<Longrightarrow> CHR ''/'' \<notin> set w \<Longrightarrow> plain_comp w \<Longrightarrow> abs_path (d @ CHR ''/'' # w) (cs @ [w])"
  by (auto simp: abs_path_def IsAbs_append plain_comp_def path_comps_plain)

lemma tree_abs_str: "tree t \<Longrightarrow> fs_get t cs \<noteq> None \<Longrightarrow> abs_path (abs_str cs) cs"
  using abs_str_path tree_plain by blast

lemma tree_no_links:
  assumes "tree t" "fs_get t cs \<noteq> None" "\<not> (f \<and> is_link t cs)"
  shows "no_links t f cs"
  using tree_dirs [OF assms(1,2)] dir_not_link assms(3) unfolding dirs_def no_links_def by blast

section \<open>The walk\<close>

lemma fsh_visit_all:
  assumes "\<And>name. name \<in> set names \<Longrightarrow> fsh ok J (f name) (\<lambda>vs t. J t \<and> P name vs)"
  shows "fsh ok J (visit_all f names)
    (\<lambda>vs t. J t \<and> (\<exists>vss. vs = concat vss \<and> list_all2 P names vss))"
  using assms
proof (induction names)
  case Nil
  then show ?case by (auto intro: fsh_return)
next
  case (Cons name names)
  have rest: "fsh ok J (visit_all f names)
      (\<lambda>vs t. J t \<and> (\<exists>vss. vs = concat vss \<and> list_all2 P names vss))"
    using Cons by simp
  have "fsh ok (\<lambda>t. J t \<and> P name xs) (visit_all f names)
      (\<lambda>vs t. J t \<and> P name xs \<and> (\<exists>vss. vs = concat vss \<and> list_all2 P names vss))" for xs
    by (rule fsh_assume [of _ "P name xs"]) (auto intro: fsh_conseq [OF rest])
  then have "fsh ok (\<lambda>t. J t \<and> P name xs) (do { ys \<leftarrow> visit_all f names; State_Monad.return (xs @ ys) })
      (\<lambda>vs t. J t \<and> (\<exists>vss. vs = concat vss \<and> list_all2 P (name # names) vss))" for xs
    by (rule fsh_bind) (rule fsh_return, metis concat.simps(2) list_all2_Cons)
  then show ?case
    unfolding visit_all.simps by (intro fsh_bind [OF Cons.prems [of name]]) simp_all
qed

definition walk_reliable :: "os_env \<Rightarrow> bool" where
  "walk_reliable E \<longleftrightarrow> (\<forall>i. env_fault E i SYS_stat = None \<and> env_fault E i SYS_open = None \<and>
     env_fault E i SYS_getdents = None)"

lemma walk_reliableD:
  assumes "walk_reliable E"
  shows "env_fault E i SYS_stat = None" "env_fault E i SYS_open = None" "env_fault E i SYS_getdents = None"
  using assms by (simp_all add: walk_reliable_def)

text \<open>What a walk from the directory or file \<open>cs\<close> of a tree visits.\<close>

definition visits :: "os_env \<Rightarrow> fs \<Rightarrow> fpath \<Rightarrow> string list \<Rightarrow> bool" where
  "visits E t cs vs \<longleftrightarrow>
     (\<forall>v \<in> set vs. \<exists>ks. v = abs_str (cs @ ks) \<and> (ks = [] \<or> fs_get t (cs @ ks) \<noteq> None)) \<and>
     (walk_reliable E \<longrightarrow> (\<forall>ks. fs_get t (cs @ ks) \<noteq> None \<longrightarrow> abs_str (cs @ ks) \<in> set vs))"

lemma fsh_readDirNames:
  assumes "tree t0" "is_dir t0 cs" "ok t0"
  shows "fsh ok (\<lambda>t. t = t0) (readDirNames E (abs_str cs))
    (\<lambda>r t. t = t0 \<and> (case r of Inl e \<Rightarrow> \<not> walk_reliable E
       | Inr names \<Rightarrow> set names = {c. fs_get t0 (cs @ [c]) \<noteq> None}))"
proof -
  have ex: "fs_get t0 cs \<noteq> None" using assms(2) by (auto simp: is_dir_def)
  have nl: "no_links t0 True cs"
    by (rule tree_no_links [OF assms(1) ex]) (use dir_not_link [OF assms(2)] in simp)
  show ?thesis
    unfolding readDirNames_def
  proof (rule fsh_bind [where Q = "\<lambda>r t. t = t0 \<and> (case r of Inl e \<Rightarrow> \<not> walk_reliable E | Inr q \<Rightarrow> q = cs)"],
      rule fsh_at [OF tree_abs_str [OF assms(1) ex]], goal_cases)
    case (3 t e)
    then show ?case
      using ex tree_dirs [OF assms(1) ex] by (auto simp: walk_reliableD split: option.splits)
  next
    case (4 x)
    show ?case
    proof (cases x)
      case (Inl e)
      then show ?thesis by (auto intro!: fsh_return)
    next
      case (Inr q)
      have dents: "fsh ok (\<lambda>t. t = t0) (sys E SYS_getdents (node_at cs getdents_at))
          (\<lambda>r t. t = t0 \<and> (case r of Inl e \<Rightarrow> \<not> walk_reliable E
            | Inr names \<Rightarrow> set names = {c. fs_get t0 (cs @ [c]) \<noteq> None}))"
        by (rule fsh_node_at)
          (use assms(2,3) in \<open>auto simp: getdents_at_def is_dir_def nodes.set_children walk_reliableD\<close>)
      have "fsh ok (\<lambda>t. t = t0 \<and> q = cs) (sys E SYS_getdents (node_at q getdents_at))
          (\<lambda>r t. t = t0 \<and> (case r of Inl e \<Rightarrow> \<not> walk_reliable E
            | Inr names \<Rightarrow> set names = {c. fs_get t0 (cs @ [c]) \<noteq> None}))"
        by (rule fsh_assume [of _ "q = cs"]) (auto intro: fsh_pre [OF dents])
      with Inr show ?thesis by (auto intro!: fsh_bind fsh_return split: sum.splits)
    qed
  qed (use nl assms(3) in \<open>auto split: option.splits\<close>)
qed

lemma tree_child:
  assumes "tree t" "fs_get t (cs @ c # ks) \<noteq> None"
  shows "fs_get t (cs @ [c]) \<noteq> None"
proof (cases "ks = []")
  case False
  then have "is_dir t (cs @ [c])" using tree_prefix_dir [OF assms(1), of "cs @ [c]" ks] assms(2) by simp
  then show ?thesis by (auto simp: is_dir_def)
qed (use assms in simp)

lemma visits_single:
  assumes "tree t" "\<And>c. fs_get t (cs @ [c]) = None"
  shows "visits E t cs [abs_str cs]"
proof -
  have "ks = []" if "fs_get t (cs @ ks) \<noteq> None" for ks
    using that tree_child [OF assms(1), of cs] assms(2) by (cases ks) blast+
  then have "fs_get t (cs @ ks) \<noteq> None \<Longrightarrow> abs_str (cs @ ks) = abs_str cs" for ks by fastforce
  then show ?thesis by (auto simp: visits_def intro: exI [of _ "[]"])
qed

lemma visits_unreliable: "\<not> walk_reliable E \<Longrightarrow> visits E t cs [abs_str cs]"
  by (auto simp: visits_def intro: exI [of _ "[]"])

text \<open>The visits of a directory from the visits of its entries.\<close>

lemma visits_dir:
  assumes tr: "tree t" and names: "set names = {c. fs_get t (cs @ [c]) \<noteq> None}"
    and vss: "list_all2 (\<lambda>c. visits E t (cs @ [c])) names vss"
  shows "visits E t cs (abs_str cs # concat vss)"
proof -
  have sub: "\<exists>c \<in> set names. visits E t (cs @ [c]) vs" if "vs \<in> set vss" for vs
    using that vss by (metis list_all2_conv_all_nth in_set_conv_nth)
  have sup: "\<exists>vs \<in> set vss. visits E t (cs @ [c]) vs" if "c \<in> set names" for c
    using that vss by (metis list_all2_conv_all_nth in_set_conv_nth)
  have 1: "\<exists>ks. v = abs_str (cs @ ks) \<and> fs_get t (cs @ ks) \<noteq> None" if v: "v \<in> set (concat vss)" for v
  proof -
    from v obtain vs where vs: "vs \<in> set vss" "v \<in> set vs" by auto
    from sub [OF vs(1)] obtain c where c: "c \<in> set names" "visits E t (cs @ [c]) vs" by blast
    with vs(2) obtain ks where "v = abs_str ((cs @ [c]) @ ks)"
      "ks = [] \<or> fs_get t ((cs @ [c]) @ ks) \<noteq> None" unfolding visits_def by blast
    with c(1) names show ?thesis by (intro exI [of _ "c # ks"]) auto
  qed
  have 2: "abs_str (cs @ ks) \<in> set (abs_str cs # concat vss)"
    if rel: "walk_reliable E" and ks: "fs_get t (cs @ ks) \<noteq> None" for ks
  proof (cases ks)
    case (Cons c ks')
    then have "c \<in> set names" using tree_child [OF tr] ks names by simp
    from sup [OF this] obtain vs where "vs \<in> set vss" "visits E t (cs @ [c]) vs" by blast
    with rel ks Cons show ?thesis unfolding visits_def by auto
  qed simp
  from 1 2 show ?thesis unfolding visits_def by (auto intro: exI [of _ "[]"])
qed

text \<open>What the walk does with one entry of a directory, and the visits of that entry when the walk below it is right.\<close>

abbreviation walk_entry :: "os_env \<Rightarrow> nat \<Rightarrow> string \<Rightarrow> string \<Rightarrow> (os, string list) state" where
  "walk_entry E n path name \<equiv>
     State_Monad.bind (Lstat E (path_Join [path, name])) (\<lambda>l. case l of
       Inl e \<Rightarrow> State_Monad.return [path_Join [path, name]]
     | Inr fi \<Rightarrow> walk_from E n (path_Join [path, name]) fi)"

lemma fsh_walk_entry:
  assumes tr: "tree t0" and ok: "ok t0" and cs: "fs_get t0 cs \<noteq> None" and c: "fs_get t0 (cs @ [c]) \<noteq> None"
    and below: "\<And>fi. info_IsDir fi = is_dir t0 (cs @ [c]) \<Longrightarrow>
      fsh ok (\<lambda>t. t = t0) (walk_from E n (abs_str (cs @ [c])) fi) (\<lambda>vs t. t = t0 \<and> visits E t0 (cs @ [c]) vs)"
  shows "fsh ok (\<lambda>t. t = t0) (walk_entry E n (abs_str cs) c) (\<lambda>vs t. t = t0 \<and> visits E t0 (cs @ [c]) vs)"
proof -
  have pc: "plain_comp c" using tr c by (auto simp: tree_def)
  have filename: "path_Join [abs_str cs, c] = abs_str (cs @ [c])"
    using path_Join_abs_str [OF tree_abs_str [OF tr cs], of c] plain_no_dotdot [of "[c]"] pc
    by simp
  have lstat: "fsh ok (\<lambda>t. t = t0) (Lstat E (abs_str (cs @ [c])))
      (\<lambda>r t. t = t0 \<and> (case r of Inl e \<Rightarrow> \<not> walk_reliable E
         | Inr fi \<Rightarrow> info_IsDir fi = is_dir t0 (cs @ [c])))"
    by (rule fsh_Lstat [OF tree_abs_str [OF tr c]])
      (use tree_no_links [OF tr c, of False] c ok tree_dirs [OF tr c] in
        \<open>auto simp: node_info_def is_dir_def walk_reliableD split: fnode.splits\<close>)
  have "fsh ok (\<lambda>t. t = t0 \<and> info_IsDir fi = is_dir t0 (cs @ [c])) (walk_from E n (abs_str (cs @ [c])) fi)
      (\<lambda>vs t. t = t0 \<and> visits E t0 (cs @ [c]) vs)" for fi
    by (rule fsh_assume [of _ "info_IsDir fi = is_dir t0 (cs @ [c])"]) (auto intro: fsh_pre [OF below])
  then show ?thesis
    unfolding filename
    by (intro fsh_bind [OF lstat] fsh_sum) (auto intro: fsh_return visits_unreliable)
qed

lemma fsh_walk_entries:
  assumes tr: "tree t0" and step: "\<And>c. fs_get t0 (cs @ [c]) \<noteq> None \<Longrightarrow>
      fsh ok (\<lambda>t. t = t0) (walk_entry E n (abs_str cs) c) (\<lambda>vs t. t = t0 \<and> visits E t0 (cs @ [c]) vs)"
  shows "fsh ok (\<lambda>t. t = t0 \<and> set names = {c. fs_get t0 (cs @ [c]) \<noteq> None})
    (visit_all (walk_entry E n (abs_str cs)) names) (\<lambda>vs t. t = t0 \<and> visits E t0 cs (abs_str cs # vs))"
proof (rule fsh_assume [of _ "set names = {c. fs_get t0 (cs @ [c]) \<noteq> None}"], simp)
  assume names: "set names = {c. fs_get t0 (cs @ [c]) \<noteq> None}"
  show "fsh ok (\<lambda>t. t = t0 \<and> set names = {c. fs_get t0 (cs @ [c]) \<noteq> None})
    (visit_all (walk_entry E n (abs_str cs)) names) (\<lambda>vs t. t = t0 \<and> visits E t0 cs (abs_str cs # vs))"
    by (rule fsh_conseq [OF fsh_visit_all [where J = "\<lambda>t. t = t0" and P = "\<lambda>c. visits E t0 (cs @ [c])"]])
      (use names step visits_dir [OF tr names] in auto)
qed

lemma fsh_walk_from:
  assumes tr: "tree t0" and ok: "ok t0"
  shows "fs_get t0 cs \<noteq> None \<Longrightarrow> info_IsDir info = is_dir t0 cs \<Longrightarrow>
    (\<And>ks. fs_get t0 (cs @ ks) \<noteq> None \<Longrightarrow> length ks \<le> n) \<Longrightarrow>
    fsh ok (\<lambda>t. t = t0) (walk_from E n (abs_str cs) info) (\<lambda>vs t. t = t0 \<and> visits E t0 cs vs)"
proof (induction n arbitrary: cs info)
  case 0
  have "fs_get t0 (cs @ [c]) = None" for c
    using 0(3) [of "[c]"] by (cases "fs_get t0 (cs @ [c])") auto
  with visits_single [OF tr] show ?case by (auto intro: fsh_return)
next
  case (Suc n)
  have step: "fsh ok (\<lambda>t. t = t0) (walk_entry E n (abs_str cs) c) (\<lambda>vs t. t = t0 \<and> visits E t0 (cs @ [c]) vs)"
    if c: "fs_get t0 (cs @ [c]) \<noteq> None" for c
  proof (rule fsh_walk_entry [where ok = ok, OF tr ok Suc.prems(1) c])
    fix fi assume "info_IsDir fi = is_dir t0 (cs @ [c])"
    moreover have "length ks \<le> n" if "fs_get t0 ((cs @ [c]) @ ks) \<noteq> None" for ks
      using Suc.prems(3) [of "c # ks"] that by simp
    ultimately show "fsh ok (\<lambda>t. t = t0) (walk_from E n (abs_str (cs @ [c])) fi)
        (\<lambda>vs t. t = t0 \<and> visits E t0 (cs @ [c]) vs)" by (rule Suc.IH [OF c])
  qed
  show ?case
  proof (cases "is_dir t0 cs")
    case False
    with visits_single [OF tr not_dir_leaf [OF tr False]] Suc.prems(2)
    show ?thesis by (auto intro: fsh_return)
  next
    case True
    have whole: "fsh ok (\<lambda>t. t = t0 \<and> set names = {c. fs_get t0 (cs @ [c]) \<noteq> None})
        (do { below \<leftarrow> visit_all (walk_entry E n (abs_str cs)) names; State_Monad.return (abs_str cs # below) })
        (\<lambda>vs t. t = t0 \<and> visits E t0 cs vs)" for names
      by (rule fsh_bind [OF fsh_walk_entries [where cs = cs, OF tr step]]) (auto intro: fsh_return)
    show ?thesis
      unfolding walk_from.simps Let_def
    proof (rule fsh_if)
      assume "\<not> info_IsDir info"
      with True Suc.prems(2) show "fsh ok (\<lambda>t. t = t0) (State_Monad.return [abs_str cs])
          (\<lambda>vs t. t = t0 \<and> visits E t0 cs vs)" by simp
    qed (rule fsh_bind [OF fsh_readDirNames [OF tr True, of ok E, OF ok]], rule fsh_sum,
        auto intro: fsh_return visits_unreliable fsh_pre [OF whole])
  qed
qed

theorem fsh_Walk:
  assumes tr: "tree t0" and ok: "ok t0" and ex: "fs_get t0 cs \<noteq> None"
  shows "fsh ok (\<lambda>t. t = t0) (Walk E (abs_str cs)) (\<lambda>vs t. t = t0 \<and> visits E t0 cs vs)"
proof -
  have lstat: "fsh ok (\<lambda>t. t = t0) (Lstat E (abs_str cs))
      (\<lambda>r t. t = t0 \<and> (case r of Inl e \<Rightarrow> \<not> walk_reliable E | Inr fi \<Rightarrow> info_IsDir fi = is_dir t0 cs))"
    by (rule fsh_Lstat [OF tree_abs_str [OF tr ex]])
      (use tree_no_links [OF tr ex, of False] ex ok tree_dirs [OF tr ex] in
        \<open>auto simp: node_info_def is_dir_def walk_reliableD split: fnode.splits\<close>)
  have len: "length ks \<le> Suc (fs_depth t0)" if "fs_get t0 (cs @ ks) \<noteq> None" for ks
    using fs_depth_bound [OF that] by simp
  have walk: "fsh ok (\<lambda>t. t = t0) (walk_from E (Suc (fs_depth t0)) (abs_str cs) fi)
      (\<lambda>vs t. t = t0 \<and> visits E t0 cs vs)" if "info_IsDir fi = is_dir t0 cs" for fi
    by (rule fsh_walk_from [where ok = ok, OF tr ok ex that len])
  have go: "fsh ok (\<lambda>t. t = t0 \<and> info_IsDir fi = is_dir t0 cs) (do {
        s \<leftarrow> State_Monad.get;
        walk_from E (Suc (fs_depth (os_fs s))) (abs_str cs) fi
      }) (\<lambda>vs t. t = t0 \<and> visits E t0 cs vs)" for fi
  proof (rule fsh_get, rule fsh_assume)
    fix s t
    assume "(t = t0 \<and> info_IsDir fi = is_dir t0 cs) \<and> os_fs s = t"
    then show "os_fs s = t0 \<and> info_IsDir fi = is_dir t0 cs" by simp
  next
    fix s
    assume P: "os_fs s = t0 \<and> info_IsDir fi = is_dir t0 cs"
    show "fsh ok (\<lambda>t. (t = t0 \<and> info_IsDir fi = is_dir t0 cs) \<and> os_fs s = t)
        (walk_from E (Suc (fs_depth (os_fs s))) (abs_str cs) fi) (\<lambda>vs t. t = t0 \<and> visits E t0 cs vs)"
      unfolding P [THEN conjunct1] by (rule fsh_pre [OF walk [OF P [THEN conjunct2]]]) blast
  qed
  show ?thesis
    unfolding Walk_def
  proof (rule fsh_bind [OF lstat], rule fsh_sum)
    fix r :: "errno + fileinfo" and e
    assume "r = Inl e"
    then show "fsh ok (\<lambda>t. t = t0 \<and> (case r of Inl e \<Rightarrow> \<not> walk_reliable E
          | Inr fi \<Rightarrow> info_IsDir fi = is_dir t0 cs))
        (State_Monad.return [abs_str cs]) (\<lambda>vs t. t = t0 \<and> visits E t0 cs vs)"
      by (auto intro: fsh_return visits_unreliable)
  qed (rule fsh_pre [OF go], simp)
qed

end
