(* ===== verification/Atomic_Writer_Proofs.thy ===== *)
theory Atomic_Writer_Proofs
  imports Atomic_Writer Fs_Walk
begin

text \<open>
  Correctness of the atomic writer.  \<open>managed\<close> is the invariant of a target directory, \<open>view\<close>
  what its readers see.  A write goes through two phases: until the rename every file system
  has the invariant with the old version and shows the old view; after it, with the new
  version and the payload.  The triples of \<open>Fs_Logic\<close> carry both facts through every call,
  under any failures; when nothing fails they also give the result.
\<close>

section \<open>User-visible paths\<close>

definition user_name :: "string \<Rightarrow> bool" where
  "user_name n \<longleftrightarrow> plain_comp n \<and> \<not> prefix ''..'' n"

definition user_comps :: "fpath \<Rightarrow> bool" where
  "user_comps ks \<longleftrightarrow> ks \<noteq> [] \<and> list_all plain_comp ks \<and> user_name (hd ks)"

text \<open>The name of a version directory.\<close>

definition version_name :: "string \<Rightarrow> bool" where
  "version_name v \<longleftrightarrow>
     plain_comp v \<and> prefix ''..'' v \<and> v \<noteq> dataDirName \<and> v \<noteq> newDataDirName"

text \<open>What a reader of a path gets.\<close>

definition read_path :: "os_env \<Rightarrow> fs \<Rightarrow> string \<Rightarrow> bytes option" where
  "read_path E t p =
     (case namei E t True p of
        Inl _ \<Rightarrow> None
      | Inr q \<Rightarrow> (case fs_get t q of Some (File d _) \<Rightarrow> Some d | _ \<Rightarrow> None))"

section \<open>The invariant\<close>

text \<open>The content of a file of a version.\<close>

definition content :: "fpath \<Rightarrow> fs \<Rightarrow> string \<Rightarrow> fpath \<Rightarrow> bytes option" where
  "content B t v ks = (case fs_get t (B @ v # ks) of Some (File d _) \<Rightarrow> Some d | _ \<Rightarrow> None)"

definition view :: "fpath \<Rightarrow> string option \<Rightarrow> fs \<Rightarrow> fpath \<Rightarrow> bytes option" where
  "view B cur t ks = (case cur of None \<Rightarrow> None | Some v \<Rightarrow> content B t v ks)"

text \<open>
  The data link leads to the current version, if there is one; below the version there are no
  links; each of its top names has its link in the target directory, and every other user
  name is free or has such a link.
\<close>

definition managed :: "fpath \<Rightarrow> string option \<Rightarrow> fs \<Rightarrow> bool" where
  "managed B cur t \<longleftrightarrow>
     tree t \<and> is_dir t B \<and>
     fs_get t (B @ [dataDirName]) = map_option Link cur \<and>
     (\<forall>v. cur = Some v \<longrightarrow>
        version_name v \<and> is_dir t (B @ [v]) \<and> (\<forall>q. \<not> is_link t (B @ v # q)) \<and>
        (\<forall>n. fs_get t (B @ [v, n]) \<noteq> None \<longrightarrow> user_name n \<and> fs_get t (B @ [n]) \<noteq> None)) \<and>
     (\<forall>n. user_name n \<longrightarrow> fs_get t (B @ [n]) = None \<or>
        fs_get t (B @ [n]) = Some (Link (dataDirName @ CHR ''/'' # n)))"

lemma managedD:
  assumes "managed B cur t"
  shows "tree t" "is_dir t B" "fs_get t (B @ [dataDirName]) = map_option Link cur"
    and "cur = Some v \<Longrightarrow> version_name v" "cur = Some v \<Longrightarrow> is_dir t (B @ [v])"
    and "cur = Some v \<Longrightarrow> \<not> is_link t (B @ v # q)"
    and "cur = Some v \<Longrightarrow> fs_get t (B @ [v, n]) \<noteq> None \<Longrightarrow> user_name n"
    and "cur = Some v \<Longrightarrow> fs_get t (B @ [v, n]) \<noteq> None \<Longrightarrow> fs_get t (B @ [n]) \<noteq> None"
    and "user_name n \<Longrightarrow> fs_get t (B @ [n]) \<noteq> None \<Longrightarrow>
      fs_get t (B @ [n]) = Some (Link (dataDirName @ CHR ''/'' # n))"
  using assms unfolding managed_def by (blast | meson)+

lemma managed_user:
  "managed B cur t \<Longrightarrow> user_name n \<Longrightarrow> fs_get t (B @ [n]) = None \<or>
    fs_get t (B @ [n]) = Some (Link (dataDirName @ CHR ''/'' # n))"
  by (simp add: managed_def)

lemma dataDirName_plain [simp]: "plain_comp dataDirName" "plain_comp newDataDirName"
  "dataDirName \<noteq> newDataDirName" "newDataDirName \<noteq> dataDirName"
  by (simp_all add: plain_comp_def dataDirName_def newDataDirName_def)

lemma not_user_name [simp]: "\<not> user_name dataDirName" "\<not> user_name newDataDirName"
  by (simp_all add: user_name_def dataDirName_def newDataDirName_def)

lemma version_not_user: "version_name v \<Longrightarrow> \<not> user_name v"
  by (simp add: version_name_def user_name_def)

lemma user_name_plain: "user_name n \<Longrightarrow> plain_comp n"
  by (simp add: user_name_def)

lemma plain_path_comps: "plain_comp c \<Longrightarrow> path_comps c = [c]" "plain_comp c \<Longrightarrow> \<not> path_IsAbs c"
  by (auto simp: plain_comp_def path_IsAbs_def intro: path_comps_plain split: list.splits)

text \<open>\<^verbatim>\<open>path.Join("..data", name)\<close>.\<close>

lemma link_target:
  assumes "plain_comp n"
  shows "path_Join [dataDirName, n] = dataDirName @ CHR ''/'' # n"
    and "path_comps (dataDirName @ CHR ''/'' # n) = [dataDirName, n]"
    and "\<not> path_IsAbs (dataDirName @ s)"
proof -
  have "path_Clean (join_slash [dataDirName, n]) = join_slash [dataDirName, n]"
    by (rule path_Clean_plain) (use assms in simp_all)
  then show "path_Join [dataDirName, n] = dataDirName @ CHR ''/'' # n"
    by (simp add: path_Join_def dataDirName_def)
  show "path_comps (dataDirName @ CHR ''/'' # n) = [dataDirName, n]"
    using assms by (simp add: plain_path_comps)
  show "\<not> path_IsAbs (dataDirName @ s)" by (simp add: path_IsAbs_def dataDirName_def)
qed

section \<open>What readers see\<close>

lemma resolve_through:
  assumes "\<forall>q. prefix q ds \<longrightarrow> is_dir t (cur @ q)" "''..'' \<notin> set ds"
  shows "resolve n t f cur (ds @ c # cs) = resolve n t f (cur @ ds) (c # cs)"
  using assms
proof (induction ds arbitrary: cur)
  case (Cons d ds)
  have "is_dir t (cur @ [])" "is_dir t (cur @ [d])"
    using Cons.prems(1) [rule_format, of "[]"] Cons.prems(1) [rule_format, of "[d]"] by simp_all
  then have "resolve n t f cur ((d # ds) @ c # cs) = resolve n t f (cur @ [d]) (ds @ c # cs)"
    using Cons.prems(2) by (auto simp: resolve.simps(2) is_dir_def)
  also have "\<dots> = resolve n t f ((cur @ [d]) @ ds) (c # cs)"
    using Cons.IH [of "cur @ [d]"] Cons.prems(1) [rule_format, of "d # q" for q] Cons.prems(2) by simp
  finally show ?case by simp
qed simp

lemma dirs_to: "tree t \<Longrightarrow> is_dir t B \<Longrightarrow> prefix q B \<Longrightarrow> is_dir t q"
  by (auto simp: prefix_def is_dir_def) (use tree_prefix_dir in \<open>fastforce simp: is_dir_def\<close>)

text \<open>Below a directory without links, a path leads to itself or nowhere.\<close>

lemma resolve_below:
  assumes "tree t" "is_dir t D" "\<forall>q. \<not> is_link t (D @ q)" "''..'' \<notin> set ks"
  shows "(case resolve n t True D ks of Inl _ \<Rightarrow> None
      | Inr q \<Rightarrow> (case fs_get t q of Some (File d _) \<Rightarrow> Some d | _ \<Rightarrow> None)) =
    (case fs_get t (D @ ks) of Some (File d _) \<Rightarrow> Some d | _ \<Rightarrow> None)"
proof (cases "fs_get t (D @ ks)")
  case None
  have "q = D @ ks" if "resolve n t True D ks = Inr q" for q
    using resolve_nolink [OF that assms(4)] assms(3) by blast
  with None show ?thesis by (auto split: sum.splits)
next
  case (Some x)
  have "is_dir t (D @ q)" if "strict_prefix q ks" for q
  proof -
    from that obtain r where "ks = q @ r" "r \<noteq> []" by (auto simp: strict_prefix_def prefix_def)
    with Some tree_prefix_dir [OF assms(1), of "D @ q" r] show ?thesis by simp
  qed
  with assms(3,4) have "resolve n t True D ks = Inr (D @ ks)" by (intro resolve_dirs) auto
  then show ?thesis by simp
qed

lemma resolve_version:
  assumes "managed B (Some v) t" "user_comps (n # ks)"
  shows "(case resolve k t True B ([v, n] @ ks) of Inl _ \<Rightarrow> None
      | Inr q \<Rightarrow> (case fs_get t q of Some (File d _) \<Rightarrow> Some d | _ \<Rightarrow> None)) = content B t v (n # ks)"
proof -
  have v: "version_name v" "is_dir t (B @ [v])" "is_dir t B" using managedD(2,4,5) [OF assms(1)] by auto
  then have "v \<noteq> ''..''" by (auto simp: version_name_def plain_comp_def)
  with v have "resolve k t True B ([v, n] @ ks) = resolve k t True (B @ [v]) (n # ks)"
    by (auto simp: resolve.simps(2) [of k t True B] is_dir_def)
  moreover have "''..'' \<notin> set (n # ks)"
    using assms(2) plain_no_dotdot [of "n # ks"] by (auto simp: user_comps_def)
  ultimately show ?thesis
    using resolve_below [OF managedD(1) [OF assms(1)] v(2), of "n # ks" k] managedD(6) [OF assms(1)]
    by (simp add: content_def)
qed

lemma visible:
  assumes m: "managed B cur t" and T: "abs_path T B" and ks: "user_comps ks"
  shows "read_path E t (path_Join [T, join_slash ks]) = view B cur t ks"
proof -
  obtain n ks' where k: "ks = n # ks'" using ks by (cases ks) (auto simp: user_comps_def)
  have pl: "list_all plain_comp ks" "user_name n" using ks k by (auto simp: user_comps_def)
  then have dd: "''..'' \<notin> set ks" "n \<noteq> ''..''" using plain_no_dotdot [of ks] k by auto
  have kc: "path_comps (join_slash ks) = ks" using pl(1) by (rule plain_comps_join)
  have "path_IsAbs (path_Join [T, join_slash ks])" "path_comps (path_Join [T, join_slash ks]) = B @ ks"
    using abs_path_Join [OF T, of "join_slash ks"] kc dd by (auto simp: abs_path_def)
  then have "namei E t True (path_Join [T, join_slash ks]) = resolve 40 t True [] (B @ ks)"
    using path_IsAbs_nonempty by (auto simp: namei_def)
  also have "\<dots> = resolve 40 t True B ks"
    using resolve_through [of B t "[]" 40 True n ks'] dirs_to [OF managedD(1,2) [OF m]] T k
    by (auto simp: abs_path_def)
  finally have nm: "namei E t True (path_Join [T, join_slash ks]) = resolve 40 t True B ks" .
  have B: "is_dir t B" by (rule managedD(2) [OF m])
  show ?thesis
  proof (cases "fs_get t (B @ [n])")
    case None
    have "view B cur t ks = None"
    proof (cases cur)
      case (Some v)
      then have "fs_get t (B @ [v, n]) = None" using None managedD(8) [OF m Some] by blast
      then have "fs_get t ((B @ [v]) @ n # ks') = None"
        using tree_child [OF managedD(1) [OF m], of "B @ [v]" n ks'] by (metis append.assoc append_Cons append_Nil)
      with Some k show ?thesis by (simp add: view_def content_def)
    qed (simp add: view_def)
    with None nm B dd k show ?thesis
      by (auto simp: read_path_def resolve.simps(2) is_dir_def)
  next
    case (Some x)
    then have x: "x = Link (dataDirName @ CHR ''/'' # n)" using managedD(9) [OF m pl(2)] by auto
    have dn: "dataDirName \<noteq> ''..''" by (simp add: dataDirName_def)
    have "resolve 40 t True B ks = resolve 39 t True B ([dataDirName, n] @ ks')"
      using Some x B dd k link_target(2,3) [OF user_name_plain [OF pl(2)]]
      by (auto simp: resolve.simps(2) is_dir_def split: nat.splits)
    also have "\<dots> = (case cur of None \<Rightarrow> Inl ENOENT | Some v \<Rightarrow> resolve 38 t True B ([v, n] @ ks'))"
      using managedD(3) [OF m] B managedD(4) [OF m] dn
      by (auto simp: resolve.simps(2) [of _ t True B dataDirName] is_dir_def version_name_def
          plain_path_comps split: option.splits)
    finally have r: "resolve 40 t True B ks =
        (case cur of None \<Rightarrow> Inl ENOENT | Some v \<Rightarrow> resolve 38 t True B ([v, n] @ ks'))" .
    show ?thesis
    proof (cases cur)
      case None
      then show ?thesis using r nm by (simp add: read_path_def view_def)
    next
      case (Some v)
      then show ?thesis
        using r nm resolve_version [of B v t n ks' 38] m ks k by (simp add: read_path_def view_def)
    qed
  qed
qed

section \<open>Changes that keep the invariant\<close>

text \<open>Only paths at and below one hidden name of the target directory differ.\<close>

definition differ_below :: "fpath \<Rightarrow> fs \<Rightarrow> fs \<Rightarrow> bool" where
  "differ_below q t t' \<longleftrightarrow> (\<forall>p. \<not> prefix q p \<longrightarrow> fs_get t' p = fs_get t p)"

lemma differ_put: "prefix q p \<Longrightarrow> differ_below q t (fs_put p n t)"
  by (auto simp: differ_below_def nodes.get_put)

lemma differ_del: "prefix q p \<Longrightarrow> differ_below q t (fs_del p t)"
  by (auto simp: differ_below_def nodes.get_del)

lemma same_is_dir: "fs_get t' p = fs_get t p \<Longrightarrow> is_dir t' p = is_dir t p"
  "fs_get t' p = fs_get t p \<Longrightarrow> is_link t' p = is_link t p"
  by (simp_all add: is_dir_def is_link_def)

lemma managed_below:
  assumes m: "managed B cur t" and tr: "tree t'" and d: "differ_below (B @ [h]) t t'"
    and h: "h \<noteq> dataDirName" "\<not> user_name h" "cur \<noteq> Some h"
  shows "managed B cur t'" and "cur = Some v \<Longrightarrow> fs_get t' (B @ v # q) = fs_get t (B @ v # q)"
proof -
  have same: "fs_get t' (B @ n # q) = fs_get t (B @ n # q)" if "n \<noteq> h" for n q
    using d that by (auto simp: differ_below_def)
  have B: "fs_get t' B = fs_get t B" using d by (auto simp: differ_below_def)
  have sd: "fs_get t' (B @ [dataDirName]) = fs_get t (B @ [dataDirName])"
    and su: "user_name n \<Longrightarrow> fs_get t' (B @ [n]) = fs_get t (B @ [n])" for n
    using same [of dataDirName "[]"] same [of n "[]"] h by metis+
  have sv: "fs_get t' (B @ v # q) = fs_get t (B @ v # q)" if "cur = Some v" for v q
    using same [of v q] that h(3) by auto
  then show "cur = Some v \<Longrightarrow> fs_get t' (B @ v # q) = fs_get t (B @ v # q)" .
  show "managed B cur t'"
    unfolding managed_def
  proof (intro conjI allI impI)
    fix v assume v: "cur = Some v"
    show "version_name v" "is_dir t' (B @ [v])"
      using managedD(4,5) [OF m v] same_is_dir(1) [OF sv [OF v]] by auto
    show "\<not> is_link t' (B @ v # q)" for q
      using managedD(6) [OF m v] same_is_dir(2) [OF sv [OF v]] by auto
    fix n assume "fs_get t' (B @ [v, n]) \<noteq> None"
    then have "fs_get t (B @ [v, n]) \<noteq> None" using sv [OF v] by simp
    with managedD(7,8) [OF m v this] su show "user_name n" "fs_get t' (B @ [n]) \<noteq> None" by auto
  next
    show "fs_get t' (B @ [dataDirName]) = map_option Link cur" using sd managedD(3) [OF m] by simp
    show "is_dir t' B" using managedD(2) [OF m] same_is_dir(1) [OF B] by simp
    fix n assume "user_name n"
    then show "fs_get t' (B @ [n]) = None \<or> fs_get t' (B @ [n]) = Some (Link (dataDirName @ CHR ''/'' # n))"
      using managed_user [OF m] su by simp
  qed (rule tr)
qed

lemma user_not_version: "user_name n \<Longrightarrow> version_name v \<Longrightarrow> n \<noteq> v"
  using version_not_user by auto

lemma managed_add_link:
  assumes m: "managed B cur t" and n: "user_name n" "fs_get t (B @ [n]) = None"
  shows "managed B cur (fs_put (B @ [n]) (Link (dataDirName @ CHR ''/'' # n)) t)"
proof -
  let ?t = "fs_put (B @ [n]) (Link (dataDirName @ CHR ''/'' # n)) t"
  have tr: "tree ?t"
    by (rule tree_put_new [OF managedD(1,2) [OF m] user_name_plain [OF n(1)] n(2)])
  have v: "fs_get ?t (B @ v # q) = fs_get t (B @ v # q)" if "cur = Some v" for v q
    using user_not_version [OF n(1) managedD(4) [OF m that]] by (auto simp: nodes.get_put)
  have nd: "n \<noteq> dataDirName" using n(1) by auto
  show ?thesis
    unfolding managed_def
  proof (intro conjI allI impI)
    fix v assume "cur = Some v"
    note mv = managedD [OF m] and sv = v [OF \<open>cur = Some v\<close>]
    show "version_name v" "is_dir ?t (B @ [v])" "\<not> is_link ?t (B @ v # q)" for q
      using mv(4,5,6) [OF \<open>cur = Some v\<close>] same_is_dir [OF sv] by auto
    fix k assume "fs_get ?t (B @ [v, k]) \<noteq> None"
    then show "user_name k" "fs_get ?t (B @ [k]) \<noteq> None"
      using mv(7,8) [OF \<open>cur = Some v\<close>, of k] sv by (auto simp: nodes.get_put)
  qed (use managedD(2,3) [OF m] managed_user [OF m] tr nd in \<open>auto simp: nodes.get_put is_dir_put\<close>)
qed

lemma managed_del_link:
  assumes m: "managed B (Some v) t" and n: "user_name n" "fs_get t (B @ [v, n]) = None"
    and lf: "leaf t (B @ [n])"
  shows "managed B (Some v) (fs_del (B @ [n]) t)"
proof -
  let ?t = "fs_del (B @ [n]) t"
  have nv: "n \<noteq> v" using user_not_version [OF n(1) managedD(4) [OF m]] by simp
  have sv: "fs_get ?t (B @ v # q) = fs_get t (B @ v # q)" for q
    using nv by (auto simp: nodes.get_del)
  have tr: "tree ?t" using tree_del_leaf [OF managedD(1) [OF m]] lf by (simp add: leaf_def)
  have nd: "n \<noteq> dataDirName" using n(1) by auto
  show ?thesis
    unfolding managed_def
  proof (intro conjI allI impI)
    fix v' assume "Some v = Some v'"
    then have [simp]: "v' = v" by simp
    show "version_name v'" "is_dir ?t (B @ [v'])" "\<not> is_link ?t (B @ v' # q)" for q
      using managedD(4,5,6) [OF m] same_is_dir [OF sv] by auto
    fix k assume "fs_get ?t (B @ [v', k]) \<noteq> None"
    then have "fs_get t (B @ [v, k]) \<noteq> None" using sv by simp
    with managedD(7,8) [OF m _ this] n(2) show "user_name k" "fs_get ?t (B @ [k]) \<noteq> None"
      by (auto simp: nodes.get_del)
  qed (use managedD(2,3) [OF m] managed_user [OF m] tr nd in \<open>auto simp: nodes.get_del is_dir_del\<close>)
qed

text \<open>The rename makes a complete new version the current one.\<close>

lemma managed_switch:
  assumes m: "managed B cur t" and v: "version_name v" "is_dir t (B @ [v])"
    and vl: "\<And>q. \<not> is_link t (B @ v # q)"
    and top: "\<And>n. fs_get t (B @ [v, n]) \<noteq> None \<Longrightarrow> user_name n \<and> fs_get t (B @ [n]) \<noteq> None"
    and tmp: "is_link t (B @ [newDataDirName])"
  shows "managed B (Some v) (fs_put (B @ [dataDirName]) (Link v) (fs_del (B @ [newDataDirName]) t))"
proof -
  let ?d = "fs_del (B @ [newDataDirName]) t"
  let ?t = "fs_put (B @ [dataDirName]) (Link v) ?d"
  have nd: "\<not> is_dir t (B @ [newDataDirName])" "\<not> is_dir t (B @ [dataDirName])"
    using tmp managedD(3) [OF m] by (auto simp: is_dir_def is_link_def)
  have "tree ?d"
    by (rule tree_del_leaf [OF managedD(1) [OF m]]) (rule not_dir_leaf [OF managedD(1) [OF m] nd(1)])
  moreover have "is_dir ?d B" using managedD(2) [OF m] by (simp add: is_dir_del)
  moreover have "fs_get ?d (B @ [dataDirName]) = map_option Link cur"
    using managedD(3) [OF m] by (simp add: nodes.get_del)
  ultimately have tr: "tree ?t"
    using tree_put_new [of ?d B dataDirName "Link v"] tree_put_same [of ?d "B @ [dataDirName]"]
    by (cases cur) (auto simp: is_dir_def)
  have sv: "fs_get ?t (B @ v # q) = fs_get t (B @ v # q)" for q
    using v(1) by (auto simp: version_name_def nodes.get_put nodes.get_del)
  have su: "fs_get ?t (B @ [n]) = fs_get t (B @ [n])" if "user_name n" for n
    using that by (auto simp: nodes.get_put nodes.get_del)
  show ?thesis
    unfolding managed_def
  proof (intro conjI allI impI)
    fix v' assume "Some v = Some v'"
    then have [simp]: "v' = v" by simp
    show "version_name v'" "is_dir ?t (B @ [v'])" "\<not> is_link ?t (B @ v' # q)" for q
      using v vl same_is_dir [OF sv] by auto
    fix k assume "fs_get ?t (B @ [v', k]) \<noteq> None"
    then have "fs_get t (B @ [v, k]) \<noteq> None" using sv by simp
    with top [OF this] su show "user_name k" "fs_get ?t (B @ [k]) \<noteq> None" by auto
  qed (use managedD(2) [OF m] managed_user [OF m] tr su in \<open>auto simp: is_dir_put is_dir_del\<close>)
qed

section \<open>The two phases\<close>

text \<open>Before the rename: the invariant, and the old version as it was.\<close>

definition phaseA :: "fpath \<Rightarrow> string option \<Rightarrow> fs \<Rightarrow> fs \<Rightarrow> bool" where
  "phaseA B cur t0 t \<longleftrightarrow>
     managed B cur t \<and> (\<forall>v q. cur = Some v \<longrightarrow> fs_get t (B @ v # q) = fs_get t0 (B @ v # q))"

lemma phaseA_refl: "managed B cur t \<Longrightarrow> phaseA B cur t t"
  by (simp add: phaseA_def)

lemma phaseA_view: "phaseA B cur t0 t \<Longrightarrow> view B cur t ks = view B cur t0 ks"
  by (auto simp: phaseA_def view_def content_def split: option.splits)

lemma phaseA_below:
  assumes "phaseA B cur t0 t" "tree t'" "differ_below (B @ [h]) t t'"
    "h \<noteq> dataDirName" "\<not> user_name h" "cur \<noteq> Some h"
  shows "phaseA B cur t0 t'"
  using managed_below [OF _ assms(2-)] assms(1) unfolding phaseA_def by auto

lemma phaseA_add_link:
  assumes "phaseA B cur t0 t" "user_name n" "fs_get t (B @ [n]) = None"
  shows "phaseA B cur t0 (fs_put (B @ [n]) (Link (dataDirName @ CHR ''/'' # n)) t)"
proof -
  have m: "managed B cur t" using assms(1) by (simp add: phaseA_def)
  have "v \<noteq> n" if "cur = Some v" for v
    using user_not_version [OF assms(2) managedD(4) [OF m that]] by simp
  with assms(1) managed_add_link [OF m assms(2,3)] show ?thesis
    by (auto simp: phaseA_def nodes.get_put)
qed

section \<open>Version names\<close>

lemma version_name_timestamp: "version_name (timestamp d @ itoa k)"
proof -
  obtain x xs where x: "pad 4 (year d) = x # xs" by (cases "pad 4 (year d)") auto
  have "is_digit x" using pad_digits [of 4 "year d"] x by simp
  then have "x \<noteq> CHR ''d''" by auto
  moreover have "CHR ''/'' \<notin> set (timestamp d @ itoa k)"
    by (simp add: timestamp_def digits_no [OF pad_digits] digits_no [OF itoa_digits])
  ultimately show ?thesis
    using x by (simp add: version_name_def plain_comp_def dataDirName_def newDataDirName_def
        timestamp_def del: set_append)
qed

lemma path_Base_snoc:
  assumes "plain_comp w"
  shows "path_Base (d @ CHR ''/'' # w) = w"
proof -
  have w: "w \<noteq> []" "CHR ''/'' \<notin> set w" using assms by (auto simp: plain_comp_def)
  then obtain x ws where "rev w = x # ws" "x \<noteq> CHR ''/''"
    by (metis in_set_conv_decomp list.exhaust rev_is_Nil_conv set_rev list.set_intros(1))
  then have "dropWhile (\<lambda>c. c = CHR ''/'') (rev (d @ CHR ''/'' # w)) = rev (d @ CHR ''/'' # w)" by simp
  then show ?thesis
    using w by (simp add: path_Base_def Let_def split_slash_append2 del: rev_append)
qed

text \<open>The name \<^verbatim>\<open>MkdirTemp\<close> tries.\<close>

lemma MkdirTemp_name:
  assumes T: "abs_path T B" and w: "plain_comp (pat @ w)"
  defines "pre \<equiv> (if T \<noteq> [] \<and> last T = CHR ''/'' then T @ pat else T @ ''/'' @ pat)"
  shows "abs_path (pre @ w) (B @ [pat @ w])" "path_Base (pre @ w) = pat @ w"
proof -
  have "\<exists>d. pre = d @ CHR ''/'' # pat \<and> path_comps d = B"
  proof (cases "T \<noteq> [] \<and> last T = CHR ''/''")
    case True
    then obtain d where d: "T = d @ ''/''" by (metis append_butlast_last_id)
    then have "path_comps d = B" using T path_comps_append [of d "[]"] by (simp add: abs_path_def)
    with d True show ?thesis by (auto simp: pre_def)
  next
    case False
    then show ?thesis using T by (auto simp: pre_def abs_path_def)
  qed
  then obtain d where d: "pre = d @ CHR ''/'' # pat" "path_comps d = B" by blast
  show "path_Base (pre @ w) = pat @ w" using path_Base_snoc [OF w, of d] d(1) by simp
  have "path_IsAbs (pre @ w)"
    using T by (auto simp: pre_def abs_path_def IsAbs_append)
  moreover have "path_comps (pre @ w) = B @ [pat @ w]"
    using d plain_path_comps(1) [OF w] by simp
  ultimately show "abs_path (pre @ w) (B @ [pat @ w])"
    using T w by (auto simp: abs_path_def plain_comp_def)
qed

section \<open>A new version directory\<close>

definition preA :: "fpath \<Rightarrow> string option \<Rightarrow> fs \<Rightarrow> fs \<Rightarrow> bool" where
  "preA B cur t0 t \<longleftrightarrow> phaseA B cur t0 t \<and>
     fs_get t (B @ [newDataDirName]) = fs_get t0 (B @ [newDataDirName])"

text \<open>A path to a version directory other than the current one.\<close>

definition new_version :: "fpath \<Rightarrow> string option \<Rightarrow> string \<Rightarrow> string \<Rightarrow> bool" where
  "new_version B cur p v \<longleftrightarrow>
     abs_path p (B @ [v]) \<and> path_Base p = v \<and> version_name v \<and> cur \<noteq> Some v"

lemma preA_below:
  assumes "preA B cur t0 t" "tree t'" "differ_below (B @ [v]) t t'" "new_version B cur p v"
  shows "preA B cur t0 t'"
proof -
  have "v \<noteq> dataDirName" "v \<noteq> newDataDirName" "\<not> user_name v" "cur \<noteq> Some v"
    using assms(4) version_not_user by (auto simp: new_version_def version_name_def)
  then show ?thesis
    using assms(1,3) phaseA_below [OF _ assms(2,3)] by (auto simp: preA_def differ_below_def)
qed

lemma phaseAD:
  assumes "phaseA B cur t0 t"
  shows "managed B cur t" "tree t" "is_dir t B" "prefix q B \<Longrightarrow> is_dir t q" "no_links t f (B @ [n]) \<or> f"
proof -
  show m: "managed B cur t" using assms by (simp add: phaseA_def)
  show "tree t" "is_dir t B" using managedD(1,2) [OF m] by auto
  then show "prefix q B \<Longrightarrow> is_dir t q" using dirs_to by blast
  have "no_links t True B"
    using \<open>tree t\<close> \<open>is_dir t B\<close> dir_not_link by (intro tree_no_links) (auto simp: is_dir_def)
  then show "no_links t f (B @ [n]) \<or> f" by simp
qed

lemma phaseA_dirs: "phaseA B cur t0 t \<Longrightarrow> dirs t (B @ [n])"
  using phaseAD(2,3) [of B cur t0 t] tree_dirs [of t B] by (auto simp: is_dir_def)

definition fresh_names :: "os_env \<Rightarrow> fpath \<Rightarrow> fs \<Rightarrow> bool" where
  "fresh_names E B t \<longleftrightarrow>
     (\<forall>i j. fs_get t (B @ [timestamp (env_now E i) @ itoa (unat (env_rand E j))]) = None)"

lemma fsh_Mkdir_version:
  assumes ap: "abs_path p (B @ [v])" "path_Base p = v" and vn: "version_name v"
    and okA: "\<And>t. phaseA B cur t0 t \<Longrightarrow> ok t" and g: "g \<Longrightarrow> no_faults E"
  shows "fsh ok (\<lambda>t. preA B cur t0 t \<and> (g \<longrightarrow> fs_get t (B @ [v]) = None)) (Mkdir E p perm)
    (\<lambda>r t. preA B cur t0 t \<and> (g \<longrightarrow> r = Inr ()) \<and> (r = Inr () \<longrightarrow>
       new_version B cur p v \<and> is_dir t (B @ [v]) \<and>
       (\<forall>q. q \<noteq> [] \<longrightarrow> fs_get t (B @ v # q) = None)))"
proof (rule fsh_Mkdir [OF ap(1)], goal_cases)
  case (1 t)
  then show ?case using phaseAD(5) [of B cur t0 t False v] by (auto simp: preA_def)
next
  case (2 t m)
  have pl: "plain_comp v" using vn by (simp add: version_name_def)
  let ?t = "fs_put (B @ [v]) (Dir m) t"
  have A: "phaseA B cur t0 t" using 2(1) by (auto simp: preA_def)
  note D = phaseAD [OF A]
  have "cur \<noteq> Some v"
    using managedD(5) [OF D(1), of v] 2(3) by (auto simp: is_dir_def)
  then have nv: "new_version B cur p v"
    using ap vn by (simp add: new_version_def)
  have tr: "tree ?t" by (rule tree_put_new [OF D(2,3) pl 2(3)])
  have pA: "preA B cur t0 ?t"
    using preA_below [OF _ tr differ_put nv, of t0] 2(1) by auto
  have "fs_get t (B @ v # q) = None" if "q \<noteq> []" for q
    using tree_prefix_dir [OF D(2), of "B @ [v]" q] that 2(3)
    by (cases "fs_get t (B @ v # q)") (auto simp: is_dir_def)
  then have "\<forall>q. q \<noteq> [] \<longrightarrow> fs_get ?t (B @ v # q) = None" by (auto simp: nodes.get_put)
  moreover have "is_dir ?t (B @ [v])" by (simp add: is_dir_put)
  ultimately show ?case
    using pA nv okA unfolding preA_def by blast
next
  case (3 t e)
  then have "dirs t (B @ [v])"
    using phaseA_dirs [of B cur t0 t] unfolding preA_def by blast
  then show ?case using 3 no_faultsD [OF g] by auto
qed

lemma fsh_MkdirTemp:
  assumes T: "abs_path T B" and okA: "\<And>t. phaseA B cur t0 t \<Longrightarrow> ok t"
    and g: "g \<Longrightarrow> no_faults E"
  shows "fsh ok (\<lambda>t. preA B cur t0 t \<and> (g \<longrightarrow> fresh_names E B t)) (MkdirTemp E T (timestamp (env_now E i)))
    (\<lambda>r t. preA B cur t0 t \<and> (g \<longrightarrow> (\<exists>p. r = Inr p)) \<and>
       (\<forall>p. r = Inr p \<longrightarrow> (\<exists>v. new_version B cur p v \<and> is_dir t (B @ [v]) \<and>
          (\<forall>q. q \<noteq> [] \<longrightarrow> fs_get t (B @ v # q) = None))))"
    (is "fsh ok ?J _ ?R")
proof -
  let ?pat = "timestamp (env_now E i)"
  define pre where "pre = (if T \<noteq> [] \<and> last T = CHR ''/'' then T @ ?pat else T @ ''/'' @ ?pat)"
  have st: "fsh ok (\<lambda>t. preA B cur t0 t \<and> \<not> g) (Stat E T) (\<lambda>_ t. preA B cur t0 t \<and> \<not> g)"
  proof (rule fsh_Stat [OF T], goal_cases)
    case (1 t)
    then have "tree t" "is_dir t B" using phaseAD [of B cur t0 t] by (auto simp: preA_def)
    then show ?case using dir_not_link by (intro tree_no_links) (auto simp: is_dir_def)
  qed (use okA in \<open>auto simp: preA_def\<close>)
  have mk: "fsh ok (\<lambda>t. ?J t \<and> os_fs s = t) (Mkdir E (pre @ itoa (unat (env_rand E (os_step s)))) 0x1C0)
      (\<lambda>r t. preA B cur t0 t \<and> (g \<longrightarrow> r = Inr ()) \<and>
        (r = Inr () \<longrightarrow> ?R (Inr (pre @ itoa (unat (env_rand E (os_step s))))) t))" for s
  proof -
    let ?w = "itoa (unat (env_rand E (os_step s)))"
    have vn: "version_name (?pat @ ?w)" by (rule version_name_timestamp)
    then have pl: "plain_comp (?pat @ ?w)" by (simp add: version_name_def)
    have "abs_path (pre @ ?w) (B @ [?pat @ ?w])" "path_Base (pre @ ?w) = ?pat @ ?w"
      using MkdirTemp_name [OF T pl] by (simp_all add: pre_def)
    from fsh_Mkdir_version [OF this vn okA g]
    show ?thesis by (rule fsh_conseq) (auto simp: fresh_names_def)
  qed
  have body: "fsh ok ?J (MkdirTemp_loop E T pre (Suc n)) ?R"
    if rec: "fsh ok (\<lambda>t. preA B cur t0 t \<and> \<not> g) (MkdirTemp_loop E T pre n) ?R" for n
    unfolding MkdirTemp_loop.simps Let_def
    by (rule fsh_get, rule fsh_bind [OF mk], rule fsh_sum)
      (auto intro!: fsh_return fsh_if fsh_pre [OF rec] fsh_bind [OF fsh_pre [OF st]] split: sum.splits if_splits)
  have loop: "fsh ok ?J (MkdirTemp_loop E T pre (Suc n)) ?R" for n
  proof (induction n)
    case 0
    show ?case by (rule body) (auto intro: fsh_return)
  next
    case (Suc n)
    show ?case by (rule body, rule fsh_pre [OF Suc]) auto
  qed
  have "(10000 :: nat) = Suc 9999" by simp
  then show ?thesis
    unfolding MkdirTemp_def pre_def [symmetric] using loop [of 9999] by (simp only:)
qed

lemma new_version_names:
  assumes "new_version B cur p v"
  shows "v \<noteq> dataDirName" "v \<noteq> newDataDirName" "\<not> user_name v" "cur \<noteq> Some v" "plain_comp v"
    "abs_path p (B @ [v])" "path_Base p = v" "version_name v"
  using assms version_not_user by (auto simp: new_version_def version_name_def)

lemma phaseA_not_link: "phaseA B cur t0 t \<Longrightarrow> prefix q B \<Longrightarrow> \<not> is_link t q"
  using phaseAD(4) dir_not_link by blast

text \<open>A version directory just made: a directory with nothing in it.\<close>

definition empty_version :: "fpath \<Rightarrow> string option \<Rightarrow> fs \<Rightarrow> string \<Rightarrow> fs \<Rightarrow> bool" where
  "empty_version B cur t0 p t \<longleftrightarrow>
     preA B cur t0 t \<and> new_version B cur p (path_Base p) \<and> is_dir t (B @ [path_Base p]) \<and>
     (\<forall>q. q \<noteq> [] \<longrightarrow> fs_get t (B @ path_Base p # q) = None)"

lemma fsh_newTimestampDir:
  assumes T: "abs_path T B" and okA: "\<And>t. phaseA B cur t0 t \<Longrightarrow> ok t"
    and g: "g \<Longrightarrow> no_faults E"
  shows "fsh ok (\<lambda>t. preA B cur t0 t \<and> (g \<longrightarrow> fresh_names E B t)) (newTimestampDir E T)
    (\<lambda>r t. preA B cur t0 t \<and> (g \<longrightarrow> (\<exists>p. r = Inr p)) \<and>
       (\<forall>p. r = Inr p \<longrightarrow> empty_version B cur t0 p t))"
    (is "fsh ok ?J _ ?R")
proof -
  have mk: "fsh ok ?J (MkdirTemp E T (timestamp (env_now E i))) ?R" for i
    by (rule fsh_post [OF fsh_MkdirTemp [OF T okA g]])
      (auto simp: empty_version_def new_version_def)
  have ch: "fsh ok (empty_version B cur t0 p) (Chmod E p 0x1ED)
      (\<lambda>r t. empty_version B cur t0 p t \<and> (g \<longrightarrow> r = Inr ()))"
    if nv: "new_version B cur p (path_Base p)" for p
  proof (rule fsh_Chmod [OF new_version_names(6) [OF nv]], goal_cases)
    case (1 t)
    then have A: "phaseA B cur t0 t" "is_dir t (B @ [path_Base p])"
      by (auto simp: empty_version_def preA_def)
    then show ?case using phaseAD(5) [OF A(1), of False "path_Base p"] dir_not_link [OF A(2)] by simp
  next
    case (2 t d m m')
    then show ?case by (auto simp: empty_version_def is_dir_def)
  next
    case (3 t m m')
    let ?v = "path_Base p"
    have e: "preA B cur t0 t" "\<forall>q. q \<noteq> [] \<longrightarrow> fs_get t (B @ ?v # q) = None"
      using 3(1) by (auto simp: empty_version_def)
    then have "tree t" by (auto simp: preA_def dest: phaseAD)
    then have tr: "tree (fs_put (B @ [?v]) (Dir m') t)"
      by (rule tree_put_same [OF _ 3(2)]) simp
    from preA_below [OF e(1) tr differ_put nv] have pA: "preA B cur t0 (fs_put (B @ [?v]) (Dir m') t)"
      by simp
    with e(2) nv show ?case
      using okA by (auto simp: empty_version_def is_dir_put nodes.get_put preA_def)
  next
    case (4 t e)
    have "tree t" "is_dir t (B @ [path_Base p])" using 4(1) phaseAD(2) by (auto simp: empty_version_def preA_def)
    with 4 show ?case using no_faultsD [OF g] tree_dirs [of t "B @ [path_Base p]"] by (auto simp: is_dir_def)
  qed
  show ?thesis
    unfolding newTimestampDir_def
  proof (rule fsh_get, rule fsh_pre [OF fsh_bind [OF mk]], rule fsh_sum, goal_cases)
    case (1 s r e)
    then show ?case by (auto intro: fsh_return)
  next
    case (2 s r p)
    show ?case
    proof (rule fsh_assume [of _ "new_version B cur p (path_Base p)"])
      assume "new_version B cur p (path_Base p)"
      from fsh_bind [OF ch [OF this]] show "fsh ok (\<lambda>t. ?R r t) (do {
          c \<leftarrow> Chmod E p 0x1ED;
          State_Monad.return (case c of Inl e \<Rightarrow> Inl e | Inr _ \<Rightarrow> Inr p)
        }) ?R"
      proof (rule fsh_pre)
        fix c :: "errno + unit"
        show "fsh ok (\<lambda>t. empty_version B cur t0 p t \<and> (g \<longrightarrow> c = Inr ()))
            (State_Monad.return (case c of Inl e \<Rightarrow> Inl e | Inr _ \<Rightarrow> Inr p)) ?R"
          by (rule fsh_return) (auto simp: empty_version_def split: sum.splits)
      qed (use 2 in auto)
    qed (use 2 in \<open>auto simp: empty_version_def\<close>)
  qed simp_all
qed

section \<open>Writing the payload\<close>

definition payload_comps :: "payload \<Rightarrow> fpath set" where
  "payload_comps cp = path_comps ` fset (fmdom cp)"

definition payload_view :: "payload \<Rightarrow> fpath \<Rightarrow> bytes option" where
  "payload_view cp ks = map_option Data (fmlookup cp (join_slash ks))"

text \<open>The keys of a cleaned payload that names user-visible files.\<close>

definition user_payload :: "payload \<Rightarrow> bool" where
  "user_payload cp \<longleftrightarrow>
     (\<forall>k. k |\<in>| fmdom cp \<longrightarrow> user_comps (path_comps k) \<and> join_slash (path_comps k) = k)"

definition no_conflict :: "payload \<Rightarrow> bool" where
  "no_conflict cp \<longleftrightarrow> (\<forall>a \<in> payload_comps cp. \<forall>b \<in> payload_comps cp. \<not> strict_prefix a b)"

text \<open>
  The version directory while the payload is written: directories on the way to files of the
  payload, files of the payload, and those in \<open>D\<close> complete.
\<close>

definition writing :: "fpath \<Rightarrow> string option \<Rightarrow> fs \<Rightarrow> payload \<Rightarrow> string \<Rightarrow> fpath set \<Rightarrow> fs \<Rightarrow> bool" where
  "writing B cur t0 cp v D t \<longleftrightarrow>
     preA B cur t0 t \<and> is_dir t (B @ [v]) \<and>
     (\<forall>q. q \<noteq> [] \<longrightarrow> (case fs_get t (B @ v # q) of
        None \<Rightarrow> True
      | Some (Dir _) \<Rightarrow> (\<exists>k \<in> payload_comps cp. strict_prefix q k)
      | Some (File _ _) \<Rightarrow> q \<in> payload_comps cp
      | Some (Link _) \<Rightarrow> False)) \<and>
     D \<subseteq> payload_comps cp \<and> (\<forall>ks \<in> D. content B t v ks = payload_view cp ks)"

lemma writingD:
  assumes "writing B cur t0 cp v D t"
  shows "preA B cur t0 t" "phaseA B cur t0 t" "tree t" "is_dir t (B @ [v])" "\<not> is_link t (B @ v # q)"
    and "q \<noteq> [] \<Longrightarrow> is_dir t (B @ v # q) \<Longrightarrow> \<exists>k \<in> payload_comps cp. strict_prefix q k"
    and "q \<noteq> [] \<Longrightarrow> fs_get t (B @ v # q) = Some (File d m) \<Longrightarrow> q \<in> payload_comps cp"
    and "D \<subseteq> payload_comps cp" and "ks \<in> D \<Longrightarrow> content B t v ks = payload_view cp ks"
proof -
  show A: "preA B cur t0 t" "is_dir t (B @ [v])" "D \<subseteq> payload_comps cp" "phaseA B cur t0 t"
    and "ks \<in> D \<Longrightarrow> content B t v ks = payload_view cp ks"
    using assms by (auto simp: writing_def preA_def)
  then show "tree t" using phaseAD by blast
  have q: "case fs_get t (B @ v # q) of None \<Rightarrow> True
      | Some (Dir _) \<Rightarrow> (\<exists>k \<in> payload_comps cp. strict_prefix q k)
      | Some (File _ _) \<Rightarrow> q \<in> payload_comps cp | Some (Link _) \<Rightarrow> False" if "q \<noteq> []" for q
    using assms that unfolding writing_def by blast
  show "\<not> is_link t (B @ v # q)"
    using q [of q] dir_not_link [OF A(2)] by (cases "q = []") (auto simp: is_link_def)
  show "q \<noteq> [] \<Longrightarrow> is_dir t (B @ v # q) \<Longrightarrow> \<exists>k \<in> payload_comps cp. strict_prefix q k"
    "q \<noteq> [] \<Longrightarrow> fs_get t (B @ v # q) = Some (File d m) \<Longrightarrow> q \<in> payload_comps cp"
    using q [of q] by (auto simp: is_dir_def)
qed

lemma writing_mono: "writing B cur t0 cp v D t \<Longrightarrow> D' \<subseteq> D \<Longrightarrow> writing B cur t0 cp v D' t"
  by (auto simp: writing_def)

lemma writing_empty: "empty_version B cur t0 p t \<Longrightarrow> writing B cur t0 cp (path_Base p) {} t"
  by (auto simp: empty_version_def writing_def)

lemma payload_comps_iff:
  assumes "user_payload cp" "list_all plain_comp ks"
  shows "ks \<in> payload_comps cp \<longleftrightarrow> payload_view cp ks \<noteq> None"
proof
  assume "ks \<in> payload_comps cp"
  then obtain k where k: "k |\<in>| fmdom cp" "ks = path_comps k" by (auto simp: payload_comps_def)
  with assms(1) show "payload_view cp ks \<noteq> None"
    by (auto simp: payload_view_def user_payload_def fmlookup_dom_iff)
next
  assume "payload_view cp ks \<noteq> None"
  then have "join_slash ks |\<in>| fmdom cp" by (auto simp: payload_view_def fmlookup_dom_iff)
  then have "path_comps (join_slash ks) \<in> payload_comps cp" by (simp add: payload_comps_def)
  then show "ks \<in> payload_comps cp" using plain_comps_join [OF assms(2)] by simp
qed

text \<open>One node of the version is written.\<close>

lemma writing_put:
  assumes w: "writing B cur t0 cp v D t" and nv: "new_version B cur p v" and q: "q \<noteq> []"
    and tr: "tree (fs_put (B @ v # q) n t)"
    and n: "case n of Dir _ \<Rightarrow> (\<exists>k \<in> payload_comps cp. strict_prefix q k) \<and> q \<notin> D'
      | File d _ \<Rightarrow> q \<in> payload_comps cp \<and> (q \<in> D' \<longrightarrow> payload_view cp q = Some d) | Link _ \<Rightarrow> False"
    and D: "D' \<subseteq> insert q D"
  shows "writing B cur t0 cp v D' (fs_put (B @ v # q) n t)"
proof -
  let ?t = "fs_put (B @ v # q) n t"
  have "differ_below (B @ [v]) t ?t" by (rule differ_put) simp
  from preA_below [OF writingD(1) [OF w] tr this nv] have pA: "preA B cur t0 ?t" .
  have c: "content B ?t v ks = (if ks = q then (case n of File d _ \<Rightarrow> Some d | _ \<Rightarrow> None) else content B t v ks)" for ks
    by (simp add: content_def nodes.get_put split: fnode.splits)
  have "content B ?t v ks = payload_view cp ks" if "ks \<in> D'" for ks
    using that n D writingD(9) [OF w, of ks] by (auto simp: c split: fnode.splits)
  moreover have "D' \<subseteq> payload_comps cp"
    using D n writingD(8) [OF w] by (auto split: fnode.splits)
  moreover have "is_dir ?t (B @ [v])" using writingD(4) [OF w] q by (auto simp: is_dir_put)
  ultimately show ?thesis
    using pA w n unfolding writing_def by (auto simp: nodes.get_put split: fnode.splits)
qed

lemma base_dir:
  assumes "list_all plain_comp cs" "cs \<noteq> []"
  shows "abs_path (fst (path_Split (abs_str cs))) (butlast cs)"
proof -
  have ns: "\<forall>c \<in> set ([] # cs). CHR ''/'' \<notin> set c"
    using assms(1) by (auto simp: list_all_iff plain_comp_def)
  have "abs_str cs = join_slash ([] # cs)"
    using assms(2) by (cases cs) (auto simp: abs_str_def)
  then have sp: "split_slash (abs_str cs) = ([] # butlast cs) @ [last cs]"
    using split_join [OF _ ns] assms(2) by simp
  have "filter (\<lambda>c. c \<noteq> [] \<and> c \<noteq> ''.'') (butlast cs) = butlast cs"
    using assms(1) by (auto simp: filter_id_conv list_all_iff plain_comp_def dest: in_set_butlastD)
  with path_Split_parts(2) [OF sp] have pc: "path_comps (fst (path_Split (abs_str cs))) = butlast cs" by simp
  have "length (last cs) \<le> length (join_slash cs)"
    using assms(2) by (induction cs rule: join_slash.induct) auto
  then have "path_IsAbs (fst (path_Split (abs_str cs)))"
    using sp by (simp add: path_Split_def Let_def abs_str_def path_IsAbs_def Suc_diff_le)
  with pc show ?thesis
    using plain_no_dotdot [OF assms(1)] by (auto simp: abs_path_def dest: in_set_butlastD)
qed

lemma prefix_butlast_strict: "q \<noteq> [] \<Longrightarrow> ks \<noteq> [] \<Longrightarrow> prefix q (butlast ks) \<Longrightarrow> strict_prefix q ks"
  by (metis append_butlast_last_id prefix_order.le_less_trans prefix_snoc strict_prefixI' strict_prefix_snoc_iff
      strict_prefix_def)

text \<open>A key of the payload, in the new version.\<close>

lemma payload_key:
  assumes "user_payload cp" "k |\<in>| fmdom cp"
  shows "path_comps k \<noteq> []" "list_all plain_comp (path_comps k)" "user_name (hd (path_comps k))"
    "path_comps k \<in> payload_comps cp"
    "payload_view cp (path_comps k) = Some (Data (the (fmlookup cp k)))"
    "join_slash (path_comps k) = k"
  using assms by (auto simp: user_payload_def user_comps_def payload_comps_def payload_view_def fmlookup_dom_iff)

lemma version_dir_prefix:
  assumes "prefix q (B @ v # butlast ks)" "ks \<noteq> []"
  shows "prefix q B \<or> q = B @ [v] \<or> (\<exists>q'. q = B @ v # q' \<and> q' \<noteq> [] \<and> strict_prefix q' ks)"
proof -
  from assms(1) consider "prefix q B" | r where "q = B @ r" "prefix r (v # butlast ks)"
    unfolding prefix_append by blast
  then show ?thesis
  proof cases
    case (2 r)
    show ?thesis
    proof (cases r)
      case (Cons a q')
      with 2 have "a = v" "prefix q' (butlast ks)" by auto
      with 2 Cons prefix_butlast_strict [of q' ks] assms(2) show ?thesis by (cases "q' = []") auto
    qed (use 2 in simp)
  qed simp
qed

text \<open>A directory made below the new version keeps what holds while the version is written.\<close>

lemma writing_mkdir:
  assumes w: "writing B cur t0 cp v D t" and nv: "new_version B cur p v" and up: "user_payload cp"
    and k: "k |\<in>| fmdom cp" and q': "q' \<noteq> []" "strict_prefix q' (path_comps k)"
    and dirs: "dirs t (B @ v # q')" and new: "fs_get t (B @ v # q') = None"
  shows "writing B cur t0 cp v D (fs_put (B @ v # q') (Dir m) t)"
proof -
  note pk = payload_key [OF up k]
  have qs: "B @ v # q' = (B @ v # butlast q') @ [last q']" using q' by simp
  have pre: "prefix q' (path_comps k)" using q'(2) by (simp add: strict_prefix_def)
  then have pl: "list_all plain_comp q'"
    using pk(2) unfolding list_all_iff by (meson set_mono_prefix subset_iff)
  then have "plain_comp (last q')" using q'(1) by (simp add: list_all_iff)
  then have tr: "tree (fs_put (B @ v # q') (Dir m) t)"
    using tree_put_new [OF writingD(3) [OF w], of "B @ v # butlast q'" "last q'" "Dir m"] dirs new qs
    by (metis dirs_snoc)
  have "q' \<notin> D"
  proof
    assume D: "q' \<in> D"
    from payload_comps_iff [OF up pl] writingD(8,9) [OF w] D
    have "content B t v q' \<noteq> None" by auto
    with new show False by (simp add: content_def)
  qed
  with writing_put [OF w nv q'(1) tr, of D] pk(4) q'(2) show ?thesis by auto
qed

lemma fsh_MkdirAll_payload:
  assumes nv: "new_version B cur p v" and up: "user_payload cp" and k: "k |\<in>| fmdom cp"
    and okA: "\<And>t. phaseA B cur t0 t \<Longrightarrow> ok t"
    and g: "g \<Longrightarrow> no_faults E \<and> no_conflict cp"
    and path: "abs_path d (B @ v # butlast (path_comps k))"
  shows "fsh ok (writing B cur t0 cp v D) (MkdirAll E d mode)
    (\<lambda>r t. writing B cur t0 cp v D t \<and> (r = Inr () \<longrightarrow> is_dir t (B @ v # butlast (path_comps k))) \<and>
      (g \<longrightarrow> r = Inr ()))"
proof (rule fsh_MkdirAll [where cs = "B @ v # butlast (path_comps k)", OF _ _ _ _ _ _ path], goal_cases)
  note pk = payload_key [OF up k]
  have split: "prefix q B \<or> q = B @ [v] \<or> (\<exists>q'. q = B @ v # q' \<and> q' \<noteq> [] \<and> strict_prefix q' (path_comps k))"
    if "prefix q (B @ v # butlast (path_comps k))" for q
    using version_dir_prefix [OF that pk(1)] .
  {
    case (1 t q)
    then show ?case
      using split [of q] phaseA_not_link [OF writingD(2)] writingD(5) [of B cur t0 cp v D t] by (metis append_Nil2)
  next
    case (2 t)
    then show ?case using writingD(2,3) okA by blast
  next
    case (3 t q m)
    note w = 3(1)
    have ndir: "\<not> is_dir t q" using 3(4) by (simp add: is_dir_def)
    then obtain q' where q': "q = B @ v # q'" "q' \<noteq> []" "strict_prefix q' (path_comps k)"
      using split [OF 3(2)] phaseAD(4) [OF writingD(2) [OF w]] writingD(4) [OF w] by blast
    with writing_mkdir [OF w nv up k q'(2,3)] 3(3,4) show ?case by simp
  next
    case (4 t q)
    note w = 4(2)
    from split [OF 4(3)] show ?case
    proof (elim disjE exE conjE)
      fix q' assume q': "q = B @ v # q'" "q' \<noteq> []" "strict_prefix q' (path_comps k)"
      have "q' \<notin> payload_comps cp" using g [OF 4(1)] q'(3) pk(4) by (auto simp: no_conflict_def)
      then have "\<nexists>d m. fs_get t q = Some (File d m)" using writingD(7) [OF w q'(2)] q'(1) by blast
      moreover have "\<not> is_link t q" using writingD(5) [OF w] q'(1) by simp
      ultimately show ?thesis using 4(4) by (auto simp: is_dir_def is_link_def) (metis fnode.exhaust)
    qed (use phaseAD(4) [OF writingD(2) [OF w]] writingD(4) [OF w] in auto)
  next
    case (5 t)
    then show ?case using phaseAD(4) [OF writingD(2), of B cur t0 cp v D t "[]"] by simp
  }
qed (use g in auto)

lemma writing_no_links:
  assumes "writing B cur t0 cp v D t" "ks \<noteq> []" "list_all plain_comp ks"
  shows "no_links t f (B @ v # ks)"
proof -
  have "\<not> is_link t q" if "prefix q (B @ v # ks)" for q
  proof -
    from that consider "prefix q B" | r where "q = B @ v # r"
      unfolding prefix_append prefix_Cons by (metis append_Nil2 prefix_order.refl)
    then show ?thesis
      using phaseA_not_link [OF writingD(2) [OF assms(1)]] writingD(5) [OF assms(1)] by cases auto
  qed
  then show ?thesis unfolding no_links_def strict_prefix_def by blast
qed

lemma fsh_WriteFile_payload:
  assumes nv: "new_version B cur p v" and up: "user_payload cp" and k: "k |\<in>| fmdom cp"
    and okA: "\<And>t. phaseA B cur t0 t \<Longrightarrow> ok t"
    and g: "g \<Longrightarrow> no_faults E \<and> no_conflict cp"
    and path: "abs_path f (B @ v # path_comps k)"
  defines "ks \<equiv> path_comps k"
  shows "fsh ok (\<lambda>t. writing B cur t0 cp v D t \<and> is_dir t (B @ v # butlast ks))
    (WriteFile E f (Data (the (fmlookup cp k))) mode)
    (\<lambda>r t. writing B cur t0 cp v {} t \<and> (r = Inr () \<longrightarrow> writing B cur t0 cp v (insert ks D) t) \<and>
      (g \<longrightarrow> r = Inr ()))"
proof (rule fsh_WriteFile [OF path, where Q = "\<lambda>t. writing B cur t0 cp v (D - {ks}) t \<and>
      (\<exists>d m. fs_get t (B @ v # ks) = Some (File d m))"], goal_cases)
  note pk = payload_key [OF up k, folded ks_def]
  have snoc: "B @ v # ks = (B @ v # butlast ks) @ [last ks]" using pk(1) by simp
  have pl: "plain_comp (last ks)" using pk(1,2) by (auto simp: list_all_iff)
  have tree_new: "tree (fs_put (B @ v # ks) (File d m) t)"
    if "tree t" "is_dir t (B @ v # butlast ks)" "fs_get t (B @ v # ks) = None" for t d m
    using tree_put_new [OF that(1,2) pl, of "File d m"] that(3) snoc by metis
  have tree_old: "tree (fs_put (B @ v # ks) (File d m) t)"
    if "tree t" "fs_get t (B @ v # ks) = Some (File d0 m0)" for t d m d0 m0
    by (rule tree_put_same [OF that]) (use that(2) in \<open>simp add: is_dir_def\<close>)
  {
    case (1 t)
    then show ?case using writing_no_links pk(1,2) unfolding ks_def by blast
  next
    case (2 t m)
    then have w: "writing B cur t0 cp v D t" by simp
    have "tree (fs_put (B @ v # ks) (File [] m) t)"
      using 2 tree_new tree_old writingD(3) [OF w] unfolding ks_def by blast
    from writing_put [OF w nv pk(1) this, of "D - {ks}"] pk(4)
    have "writing B cur t0 cp v (D - {ks}) (fs_put (B @ v # ks) (File [] m) t)" by auto
    then show ?case using okA writingD(2) unfolding ks_def by (metis nodes.get_put_same)
  next
    case (3 t d0 m)
    have w3: "writing B cur t0 cp v (D - {ks}) t" using 3(1) by simp
    have "tree (fs_put (B @ v # ks) (File (Data (the (fmlookup cp k))) m) t)"
      using tree_old [OF writingD(3) [OF w3]] 3(2) unfolding ks_def by blast
    from writing_put [OF w3 nv pk(1) this, of "insert ks D"] pk(4,5)
    have w: "writing B cur t0 cp v (insert ks D) (fs_put (B @ v # ks) (File (Data (the (fmlookup cp k))) m) t)"
      by auto
    then show ?case
      using okA [OF writingD(2) [OF w]] writing_mono [OF w, of "{}"] unfolding ks_def by simp
  next
    case (4 t e)
    then have w: "writing B cur t0 cp v D t" by simp
    have "\<not> g"
    proof
      assume g': g
      have "\<not> is_dir t (B @ v # ks)"
        using writingD(6) [OF w pk(1)] pk(4) g [OF g'] by (auto simp: no_conflict_def)
      moreover have "dirs t (B @ v # ks)"
        unfolding snoc dirs_snoc using tree_dirs [OF writingD(3) [OF w]] 4(1) by (auto simp: is_dir_def)
      ultimately show False using 4(2) no_faultsD g [OF g'] unfolding ks_def by auto
    qed
    then show ?case using writing_mono [OF w, of "{}"] by simp
  next
    case (5 t e)
    then have "\<not> g" using g no_faultsD unfolding ks_def by fastforce
    with 5 show ?case using writing_mono [of B cur t0 cp v "D - {ks}" t "{}"] by simp
  }
qed

lemma fsh_Chmod_payload:
  assumes nv: "new_version B cur p v" and up: "user_payload cp" and k: "k |\<in>| fmdom cp"
    and okA: "\<And>t. phaseA B cur t0 t \<Longrightarrow> ok t"
    and path: "abs_path f (B @ v # path_comps k)"
  shows "fsh ok (writing B cur t0 cp v D) (Chmod E f mode) (\<lambda>_. writing B cur t0 cp v D)"
proof (rule fsh_Chmod [OF path], goal_cases)
  note pk = payload_key [OF up k]
  {
    case (1 t)
    then show ?case using writing_no_links pk(1,2) by blast
  next
    case (2 t d m m')
    have tr: "tree (fs_put (B @ v # path_comps k) (File d m') t)"
      by (rule tree_put_same [OF writingD(3) [OF 2(1)] 2(2)]) (use 2(2) in \<open>simp add: is_dir_def\<close>)
    have "payload_view cp (path_comps k) = Some d" if "path_comps k \<in> D"
      using writingD(9) [OF 2(1) that] 2(2) by (simp add: content_def)
    with writing_put [OF 2(1) nv pk(1) tr, of D] pk(4)
    have "writing B cur t0 cp v D (fs_put (B @ v # path_comps k) (File d m') t)" by auto
    then show ?case using okA writingD(2) by blast
  next
    case (3 t m m')
    have tr: "tree (fs_put (B @ v # path_comps k) (Dir m') t)"
      by (rule tree_put_same [OF writingD(3) [OF 3(1)] 3(2)]) simp
    have "\<exists>k' \<in> payload_comps cp. strict_prefix (path_comps k) k'"
      using writingD(6) [OF 3(1) pk(1)] 3(2) by (auto simp: is_dir_def)
    moreover have "path_comps k \<notin> D"
      using writingD(9) [OF 3(1), of "path_comps k"] pk(5) 3(2) by (auto simp: content_def)
    ultimately have "writing B cur t0 cp v D (fs_put (B @ v # path_comps k) (Dir m') t)"
      using writing_put [OF 3(1) nv pk(1) tr, of D] by auto
    then show ?case using okA writingD(2) by blast
  }
qed

lemma fsh_writePayloadToDir:
  assumes nv: "new_version B cur p v" and up: "user_payload cp"
    and okA: "\<And>t. phaseA B cur t0 t \<Longrightarrow> ok t"
    and g: "g \<Longrightarrow> no_faults E \<and> no_conflict cp"
  shows "set keys \<subseteq> fset (fmdom cp) \<Longrightarrow>
    fsh ok (writing B cur t0 cp v D) (writePayloadToDir_loop E cp p keys)
      (\<lambda>r t. writing B cur t0 cp v {} t \<and>
        (r = Inr () \<longrightarrow> writing B cur t0 cp v (D \<union> path_comps ` set keys) t) \<and> (g \<longrightarrow> r = Inr ()))"
proof (induction keys arbitrary: D)
  case Nil
  then show ?case using writing_mono by (auto intro!: fsh_return)
next
  case (Cons k keys)
  have k: "k |\<in>| fmdom cp" using Cons.prems by simp
  note pk = payload_key [OF up k]
  have full: "path_Join [p, k] = abs_str (B @ v # path_comps k)"
    using path_Join_abs_str [OF new_version_names(6) [OF nv] plain_no_dotdot [OF pk(2)]] by simp
  show ?case
  proof (rule fsh_assume [of _ "list_all plain_comp (B @ v # path_comps k)"])
    fix t assume w: "writing B cur t0 cp v D t"
    have "list_all plain_comp B"
      using tree_plain [OF writingD(3) [OF w]] phaseAD(3) [OF writingD(2) [OF w]] by (auto simp: is_dir_def)
    with pk(2) new_version_names(5) [OF nv] show "list_all plain_comp (B @ v # path_comps k)" by simp
  next
    assume pl: "list_all plain_comp (B @ v # path_comps k)"
    have b: "butlast (B @ v # path_comps k) = B @ v # butlast (path_comps k)"
      using pk(1) by (simp add: butlast_append)
    have base: "abs_path (fst (path_Split (path_Join [p, k]))) (B @ v # butlast (path_comps k))"
      unfolding full using base_dir [OF pl] b by simp
    have fp: "abs_path (path_Join [p, k]) (B @ v # path_comps k)"
      unfolding full by (rule abs_str_path [OF pl])
    have mkdir: "fsh ok (writing B cur t0 cp v D)
        (MkdirAll E (fst (path_Split (path_Join [p, k]))) 0x1FF)
        (\<lambda>r t. writing B cur t0 cp v D t \<and>
          (r = Inr () \<longrightarrow> is_dir t (B @ v # butlast (path_comps k))) \<and> (g \<longrightarrow> r = Inr ()))"
      by (rule fsh_MkdirAll_payload [OF nv up k _ _ base]) (use okA g in auto)
    have wr: "fsh ok (\<lambda>t. writing B cur t0 cp v D t \<and> is_dir t (B @ v # butlast (path_comps k)))
        (WriteFile E (path_Join [p, k]) (Data (the (fmlookup cp k))) (Mode (the (fmlookup cp k))))
        (\<lambda>r t. writing B cur t0 cp v {} t \<and>
          (r = Inr () \<longrightarrow> writing B cur t0 cp v (insert (path_comps k) D) t) \<and> (g \<longrightarrow> r = Inr ()))"
      by (rule fsh_WriteFile_payload [OF nv up k _ _ fp]) (use okA g in auto)
    have chmod: "fsh ok (writing B cur t0 cp v (insert (path_comps k) D))
        (Chmod E (path_Join [p, k]) (Mode (the (fmlookup cp k))))
        (\<lambda>_. writing B cur t0 cp v (insert (path_comps k) D))"
      by (rule fsh_Chmod_payload [OF nv up k _ fp]) (use okA in auto)
    have rest: "fsh ok (writing B cur t0 cp v (insert (path_comps k) D)) (writePayloadToDir_loop E cp p keys)
      (\<lambda>r t. writing B cur t0 cp v {} t \<and>
        (r = Inr () \<longrightarrow> writing B cur t0 cp v (D \<union> path_comps ` set (k # keys)) t) \<and> (g \<longrightarrow> r = Inr ()))"
      using Cons.IH [of "insert (path_comps k) D"] Cons.prems by simp
    show "fsh ok (writing B cur t0 cp v D) (writePayloadToDir_loop E cp p (k # keys))
      (\<lambda>r t. writing B cur t0 cp v {} t \<and>
        (r = Inr () \<longrightarrow> writing B cur t0 cp v (D \<union> path_comps ` set (k # keys)) t) \<and> (g \<longrightarrow> r = Inr ()))"
      unfolding writePayloadToDir_loop.simps Let_def
    proof (rule fsh_bind [OF mkdir], rule fsh_sum, goal_cases)
      case (1 r e)
      then show ?case using writing_mono by (auto intro!: fsh_return)
    next
      case (2 r u)
      show ?case
      proof (rule fsh_pre [OF fsh_bind [OF wr]], rule fsh_sum, goal_cases)
        case (1 r e)
        then show ?case by (auto intro!: fsh_return)
      next
        case (2 r u)
        then show ?case by (intro fsh_pre [OF fsh_bind [OF chmod rest]]) auto
      qed (use 2 in auto)
    qed
  qed
qed

end
