(* ===== verification/Atomic_Writer_Correct.thy ===== *)
theory Atomic_Writer_Correct
  imports Atomic_Writer_Proofs
begin

text \<open>
  The second half of the atomic writer's correctness: the links, the rename, the clean-up, the
  decision whether to write, and the properties of \<open>Write\<close>.
\<close>

section \<open>The links\<close>

lemma takeWhile_join: "c \<noteq> [] \<Longrightarrow> CHR ''/'' \<notin> set c \<Longrightarrow> takeWhile (\<lambda>x. x \<noteq> CHR ''/'') (join_slash (c # cs)) = c"
proof -
  assume "CHR ''/'' \<notin> set c"
  then have c: "x \<in> set c \<Longrightarrow> x \<noteq> CHR ''/''" for x by auto
  show ?thesis
    using takeWhile_append2 [of c "\<lambda>x. x \<noteq> CHR ''/''", OF c] takeWhile_append2 [of c "\<lambda>x. x \<noteq> CHR ''/''" "[]", OF c]
    by (cases cs) simp_all
qed

lemma linkname:
  assumes "user_payload cp" "k |\<in>| fmdom cp"
  shows "takeWhile (\<lambda>x. x \<noteq> CHR ''/'') k = hd (path_comps k)"
proof -
  note pk = payload_key [OF assms]
  obtain c cs where c: "path_comps k = c # cs" using pk(1) by (cases "path_comps k") auto
  then have "k = join_slash (c # cs)" using pk(6) by simp
  moreover have "c \<noteq> []" "CHR ''/'' \<notin> set c" using pk(2) c by (auto simp: plain_comp_def)
  ultimately show ?thesis using takeWhile_join [of c cs] c by simp
qed

lemma abs_path_child: "abs_path T B \<Longrightarrow> plain_comp n \<Longrightarrow> abs_path (path_Join [T, n]) (B @ [n])"
  using abs_path_Join [of T B n] plain_path_comps(1) [of n] by (auto simp: plain_comp_def)

definition linked :: "fpath \<Rightarrow> string option \<Rightarrow> fs \<Rightarrow> payload \<Rightarrow> string \<Rightarrow> fpath set \<Rightarrow> fs \<Rightarrow> bool" where
  "linked B cur t0 cp v L t \<longleftrightarrow>
     writing B cur t0 cp v (payload_comps cp) t \<and> (\<forall>ks \<in> L. fs_get t (B @ [hd ks]) \<noteq> None)"

lemma writing_add_link:
  assumes w: "writing B cur t0 cp v D t" and nv: "new_version B cur p v"
    and n: "user_name n" "fs_get t (B @ [n]) = None"
  shows "writing B cur t0 cp v D (fs_put (B @ [n]) (Link (dataDirName @ CHR ''/'' # n)) t)"
proof -
  let ?t = "fs_put (B @ [n]) (Link (dataDirName @ CHR ''/'' # n)) t"
  have ne: "n \<noteq> v" "n \<noteq> newDataDirName"
    using n(1) new_version_names(3) [OF nv] by auto
  have "preA B cur t0 ?t"
    using writingD(1) [OF w] phaseA_add_link [OF writingD(2) [OF w] n] ne
    by (auto simp: preA_def nodes.get_put)
  moreover have same: "fs_get ?t (B @ v # q) = fs_get t (B @ v # q)" for q
    using ne by (auto simp: nodes.get_put)
  moreover have "is_dir ?t (B @ [v])" using writingD(4) [OF w] same_is_dir(1) [OF same] by simp
  ultimately show ?thesis
    using w unfolding writing_def by (simp add: content_def)
qed

text \<open>One name the user sees: what reading its link tells, and the link when it is made.\<close>

lemma fsh_Readlink_user:
  assumes path: "abs_path f (B @ [n])" and okA: "\<And>t. phaseA B cur t0 t \<Longrightarrow> ok t"
    and nrl: "\<And>i. env_fault E i SYS_readlink = None"
  shows "fsh ok (linked B cur t0 cp v L) (Readlink E f)
    (\<lambda>r t. linked B cur t0 cp v L t \<and> (r = Inl ENOENT \<longleftrightarrow> fs_get t (B @ [n]) = None))"
proof (rule fsh_Readlink [OF path], goal_cases)
  case (1 t)
  then show ?case using phaseAD(5) [OF writingD(2), of B cur t0 cp v _ t False] by (auto simp: linked_def)
next
  case (2 t)
  then show ?case using okA writingD(2) unfolding linked_def by blast
next
  case (4 t e)
  then have "dirs t (B @ [n])" using phaseA_dirs [OF writingD(2)] unfolding linked_def by blast
  with 4 nrl show ?case by auto
qed auto

lemma fsh_Symlink_user:
  assumes path: "abs_path f (B @ [hd ks])" and nv: "new_version B cur p v" and un: "user_name (hd ks)"
    and okA: "\<And>t. phaseA B cur t0 t \<Longrightarrow> ok t" and g: "g \<Longrightarrow> no_faults E"
  shows "fsh ok (\<lambda>t. linked B cur t0 cp v L t \<and> fs_get t (B @ [hd ks]) = None)
    (Symlink E (path_Join [dataDirName, hd ks]) f)
    (\<lambda>r t. writing B cur t0 cp v (payload_comps cp) t \<and>
      (r = Inr () \<longrightarrow> linked B cur t0 cp v (insert ks L) t) \<and> (g \<longrightarrow> r = Inr ()))"
  unfolding link_target(1) [OF user_name_plain [OF un]]
proof (rule fsh_Symlink [OF path], goal_cases)
  case 1
  show ?case by simp
next
  case (2 t)
  then show ?case using phaseAD(5) [OF writingD(2), of B cur t0 cp v _ t False] by (auto simp: linked_def)
next
  case (3 t)
  then have w: "writing B cur t0 cp v (payload_comps cp) t" by (simp add: linked_def)
  from writing_add_link [OF w nv un 3(3)]
  have "writing B cur t0 cp v (payload_comps cp) (fs_put (B @ [hd ks]) (Link (dataDirName @ CHR ''/'' # hd ks)) t)" .
  moreover from this have "ok (fs_put (B @ [hd ks]) (Link (dataDirName @ CHR ''/'' # hd ks)) t)"
    using okA writingD(2) by blast
  ultimately show ?case using 3(1) by (auto simp: linked_def nodes.get_put)
next
  case (4 t e)
  then have "dirs t (B @ [hd ks])" using phaseA_dirs [OF writingD(2)] unfolding linked_def by blast
  with 4 no_faultsD [OF g] show ?case by (auto simp: linked_def)
qed

lemma fsh_createUserVisibleFiles:
  assumes T: "abs_path T B" and nv: "new_version B cur p v" and up: "user_payload cp"
    and okA: "\<And>t. phaseA B cur t0 t \<Longrightarrow> ok t"
    and nrl: "\<And>i. env_fault E i SYS_readlink = None" and g: "g \<Longrightarrow> no_faults E"
  shows "set keys \<subseteq> fset (fmdom cp) \<Longrightarrow>
    fsh ok (linked B cur t0 cp v L) (createUserVisibleFiles_loop E T keys)
      (\<lambda>r t. writing B cur t0 cp v (payload_comps cp) t \<and>
        (r = Inr () \<longrightarrow> linked B cur t0 cp v (L \<union> path_comps ` set keys) t) \<and> (g \<longrightarrow> r = Inr ()))"
proof (induction keys arbitrary: L)
  case Nil
  then show ?case by (auto intro!: fsh_return simp: linked_def)
next
  case (Cons k keys)
  have k: "k |\<in>| fmdom cp" using Cons.prems by simp
  note pk = payload_key [OF up k]
  let ?n = "hd (path_comps k)"
  note path = abs_path_child [OF T user_name_plain [OF pk(3)]]
  have readlink: "fsh ok (linked B cur t0 cp v L) (Readlink E (path_Join [T, ?n]))
      (\<lambda>r t. linked B cur t0 cp v L t \<and> (r = Inl ENOENT \<longleftrightarrow> fs_get t (B @ [?n]) = None))"
    by (rule fsh_Readlink_user [OF path okA nrl])
  have symlink: "fsh ok (\<lambda>t. linked B cur t0 cp v L t \<and> fs_get t (B @ [?n]) = None)
      (Symlink E (path_Join [dataDirName, ?n]) (path_Join [T, ?n]))
      (\<lambda>r t. writing B cur t0 cp v (payload_comps cp) t \<and>
        (r = Inr () \<longrightarrow> linked B cur t0 cp v (insert (path_comps k) L) t) \<and> (g \<longrightarrow> r = Inr ()))"
    by (rule fsh_Symlink_user [OF path nv pk(3) okA g])
  have rest: "fsh ok (linked B cur t0 cp v (insert (path_comps k) L)) (createUserVisibleFiles_loop E T keys)
      (\<lambda>r t. writing B cur t0 cp v (payload_comps cp) t \<and>
        (r = Inr () \<longrightarrow> linked B cur t0 cp v (L \<union> path_comps ` set (k # keys)) t) \<and> (g \<longrightarrow> r = Inr ()))"
    using Cons.IH [of "insert (path_comps k) L"] Cons.prems by simp
  show ?case
    unfolding createUserVisibleFiles_loop.simps Let_def linkname [OF up k]
  proof (rule fsh_bind [OF readlink], rule fsh_if, goal_cases)
    case (1 r)
    show ?case
    proof (rule fsh_pre [OF fsh_bind [OF symlink]], rule fsh_sum, goal_cases)
      case (1 r e)
      then show ?case by (auto intro!: fsh_return)
    next
      case (2 r u)
      show ?case by (rule fsh_conseq [OF rest]) (use 2 in auto)
    qed (use 1 in auto)
  next
    case (2 r)
    then show ?case by (intro fsh_pre [OF rest]) (auto simp: linked_def)
  qed
qed

section \<open>The rename\<close>

text \<open>The new version is complete and its links are there; the data link still leads to the old one.\<close>

definition ready :: "fpath \<Rightarrow> string option \<Rightarrow> fs \<Rightarrow> payload \<Rightarrow> string \<Rightarrow> fs \<Rightarrow> bool" where
  "ready B cur t0 cp v t \<longleftrightarrow>
     phaseA B cur t0 t \<and> is_dir t (B @ [v]) \<and> (\<forall>q. \<not> is_link t (B @ v # q)) \<and>
     (\<forall>n. fs_get t (B @ [v, n]) \<noteq> None \<longrightarrow>
        n \<in> hd ` payload_comps cp \<and> user_name n \<and> fs_get t (B @ [n]) \<noteq> None) \<and>
     (\<forall>ks. user_comps ks \<longrightarrow> content B t v ks = payload_view cp ks)"

text \<open>After the rename: the invariant with the new version, which holds the payload.\<close>

definition phaseB :: "fpath \<Rightarrow> payload \<Rightarrow> string \<Rightarrow> fs \<Rightarrow> bool" where
  "phaseB B cp v t \<longleftrightarrow>
     managed B (Some v) t \<and> (\<forall>n. fs_get t (B @ [v, n]) \<noteq> None \<longrightarrow> n \<in> hd ` payload_comps cp) \<and>
     (\<forall>ks. user_comps ks \<longrightarrow> content B t v ks = payload_view cp ks)"

lemma linked_ready:
  assumes l: "linked B cur t0 cp v (payload_comps cp) t" and up: "user_payload cp"
  shows "ready B cur t0 cp v t"
proof -
  let ?K = "payload_comps cp"
  have w: "writing B cur t0 cp v ?K t" and links: "\<forall>ks \<in> ?K. fs_get t (B @ [hd ks]) \<noteq> None"
    using l by (auto simp: linked_def)
  have K: "user_comps ks" if "ks \<in> ?K" for ks
    using that up by (auto simp: payload_comps_def user_payload_def)
  have top: "n \<in> hd ` ?K" if ex: "fs_get t (B @ [v, n]) \<noteq> None" for n
  proof -
    obtain x where x: "fs_get t (B @ v # [n]) = Some x"
      using ex by (cases "fs_get t (B @ v # [n])") auto
    show ?thesis
    proof (cases x)
      case (File d m)
      with writingD(7) [OF w, of "[n]" d m] x have "[n] \<in> ?K" by simp
      then show ?thesis by (metis image_eqI list.sel(1))
    next
      case (Dir m)
      with writingD(6) [OF w, of "[n]"] x obtain k where "k \<in> ?K" "strict_prefix [n] k"
        by (auto simp: is_dir_def)
      then have "hd k = n" by (cases k) (auto simp: strict_prefix_def)
      with \<open>k \<in> ?K\<close> show ?thesis by blast
    next
      case (Link s)
      with writingD(5) [OF w, of "[n]"] x show ?thesis by (simp add: is_link_def)
    qed
  qed
  have cont: "content B t v ks = payload_view cp ks" if ks: "user_comps ks" for ks
  proof (cases "ks \<in> ?K")
    case True
    then show ?thesis by (rule writingD(9) [OF w])
  next
    case False
    have "ks \<noteq> []" using ks by (simp add: user_comps_def)
    then have "content B t v ks = None"
      using False writingD(7) [OF w] by (auto simp: content_def split: option.splits fnode.splits)
    moreover have "payload_view cp ks = None"
      using False payload_comps_iff [OF up] ks by (auto simp: user_comps_def)
    ultimately show ?thesis by simp
  qed
  have "user_name n \<and> fs_get t (B @ [n]) \<noteq> None" if "n \<in> hd ` ?K" for n
    using that K links by (auto simp: user_comps_def)
  with top cont show ?thesis
    using writingD(2,4,5) [OF w] unfolding ready_def by blast
qed

lemma ready_tmp:
  assumes r: "ready B cur t0 cp v t" and nv: "new_version B cur p v"
    and none: "fs_get t (B @ [newDataDirName]) = None"
  shows "ready B cur t0 cp v (fs_put (B @ [newDataDirName]) (Link v) t)"
proof -
  let ?t = "fs_put (B @ [newDataDirName]) (Link v) t"
  have A: "phaseA B cur t0 t" using r by (simp add: ready_def)
  have cur: "cur \<noteq> Some newDataDirName"
    using managedD(4) [OF phaseAD(1) [OF A]] by (auto simp: version_name_def)
  have "tree ?t" by (rule tree_put_new [OF phaseAD(2,3) [OF A] _ none]) simp
  then have A': "phaseA B cur t0 ?t"
    by (rule phaseA_below [OF A _ differ_put, where h = newDataDirName]) (use cur in simp_all)
  have same: "fs_get ?t (B @ v # q) = fs_get t (B @ v # q)" for q
    using new_version_names(2) [OF nv] by (auto simp: nodes.get_put)
  show ?thesis
    using r A' same_is_dir [OF same] same unfolding ready_def
    by (auto simp: content_def nodes.get_put)
qed

lemma ready_phaseB:
  assumes r: "ready B cur t0 cp v t" and nv: "new_version B cur p v"
    and tmp: "fs_get t (B @ [newDataDirName]) = Some (Link v)"
  shows "phaseB B cp v (fs_put (B @ [dataDirName]) (Link v) (fs_del (B @ [newDataDirName]) t))"
proof -
  let ?t = "fs_put (B @ [dataDirName]) (Link v) (fs_del (B @ [newDataDirName]) t)"
  have m: "managed B cur t" using r by (simp add: ready_def phaseA_def)
  have "managed B (Some v) ?t"
    by (rule managed_switch [OF m new_version_names(8) [OF nv]])
      (use r tmp in \<open>auto simp: ready_def is_link_def\<close>)
  moreover have "fs_get ?t (B @ v # q) = fs_get t (B @ v # q)" for q
    using new_version_names(1,2) [OF nv] by (auto simp: nodes.get_put nodes.get_del)
  ultimately show ?thesis using r by (auto simp: phaseB_def ready_def content_def)
qed

lemma version_del:
  assumes A: "phaseA B cur t0 t" and h: "h \<noteq> dataDirName" "\<not> user_name h" "cur \<noteq> Some h"
    and q: "prefix (B @ [h]) q" "leaf t q"
  shows "phaseA B cur t0 (fs_del q t)"
proof (rule phaseA_below [OF A _ differ_del [OF q(1)] h])
  show "tree (fs_del q t)"
    by (rule tree_del_leaf [OF phaseAD(2) [OF A]]) (use q(2) in \<open>simp add: leaf_def\<close>)
qed

lemma cur_not_tmp: "phaseA B cur t0 t \<Longrightarrow> cur \<noteq> Some newDataDirName"
  using managedD(4) [OF phaseAD(1), of B cur t0 t] by (auto simp: version_name_def)

text \<open>The old version's entries, which still have a link each.\<close>

definition kept_links :: "fpath \<Rightarrow> string option \<Rightarrow> fs \<Rightarrow> fs \<Rightarrow> bool" where
  "kept_links B cur t0 t \<longleftrightarrow>
     (\<forall>vo n. cur = Some vo \<and> fs_get t0 (B @ [vo, n]) \<noteq> None \<longrightarrow> fs_get t (B @ [n]) \<noteq> None)"

text \<open>The switch took place, or nothing visible happened.\<close>

definition switched ::
  "fpath \<Rightarrow> string option \<Rightarrow> fs \<Rightarrow> payload \<Rightarrow> string \<Rightarrow> errno + unit \<Rightarrow> fs \<Rightarrow> bool" where
  "switched B cur t0 cp v r t \<longleftrightarrow>
     (r = Inr () \<longrightarrow> phaseB B cp v t \<and> kept_links B cur t0 t) \<and> (r \<noteq> Inr () \<longrightarrow> phaseA B cur t0 t)"

lemma fsh_Remove_tmp:
  assumes T: "abs_path T B" and okA: "\<And>t. phaseA B cur t0 t \<Longrightarrow> ok t"
  shows "fsh ok (phaseA B cur t0) (Remove E (path_Join [T, newDataDirName])) (\<lambda>_. phaseA B cur t0)"
proof (rule fsh_Remove [OF abs_path_child [OF T dataDirName_plain(2)]], goal_cases)
  case (1 t)
  then show ?case using phaseAD(5) [of B cur t0 t False] by simp
next
  case (3 t)
  have "phaseA B cur t0 (fs_del (B @ [newDataDirName]) t)"
    by (rule version_del [OF 3(1), of newDataDirName]) (use 3 cur_not_tmp in auto)
  then show ?case using okA by blast
qed (use phaseAD okA in auto)

lemma fsh_RemoveAll_version:
  assumes nv: "new_version B cur p v" and okA: "\<And>t. phaseA B cur t0 t \<Longrightarrow> ok t"
  shows "fsh ok (phaseA B cur t0) (RemoveAll E p) (\<lambda>_. phaseA B cur t0)"
proof (rule fsh_RemoveAll [OF new_version_names(6) [OF nv]], goal_cases)
  case (1 t)
  then show ?case using phaseAD(5) [of B cur t0 t False] by simp
next
  case (3 t q)
  then show ?case using version_del new_version_names(1,3,4) [OF nv] by blast
qed (use phaseAD(2) okA in auto)

lemma fsh_Symlink_tmp:
  assumes T: "abs_path T B" and nv: "new_version B cur p v" and okA: "\<And>t. phaseA B cur t0 t \<Longrightarrow> ok t"
    and g: "g \<Longrightarrow> no_faults E \<and> fs_get t0 (B @ [newDataDirName]) = None"
  shows "fsh ok (\<lambda>t. ready B cur t0 cp v t \<and> fs_get t (B @ [newDataDirName]) = fs_get t0 (B @ [newDataDirName]))
    (Symlink E v (path_Join [T, newDataDirName]))
    (\<lambda>r t. (r = Inr () \<longrightarrow> ready B cur t0 cp v t \<and> fs_get t (B @ [newDataDirName]) = Some (Link v) \<and>
        fs_get t0 (B @ [newDataDirName]) = None) \<and>
      (r \<noteq> Inr () \<longrightarrow> phaseA B cur t0 t) \<and> (g \<longrightarrow> r = Inr ()))"
proof (rule fsh_Symlink [OF abs_path_child [OF T dataDirName_plain(2)]], goal_cases)
  case 1
  then show ?case using new_version_names(5) [OF nv] by (simp add: plain_comp_def)
next
  case (2 t)
  then show ?case using phaseAD(5) [of B cur t0 t False] by (simp add: ready_def)
next
  case (3 t)
  have r: "ready B cur t0 cp v (fs_put (B @ [newDataDirName]) (Link v) t)"
    by (rule ready_tmp [OF _ nv 3(3)]) (use 3 in simp)
  then have "ok (fs_put (B @ [newDataDirName]) (Link v) t)" using okA by (simp add: ready_def)
  with r 3 show ?case by simp
next
  case (4 t e)
  then have A: "phaseA B cur t0 t" by (simp add: ready_def)
  have "\<not> g" using 4 phaseA_dirs [OF A] g no_faultsD by fastforce
  with A show ?case by simp
qed

lemma ready_kept_links:
  assumes "ready B cur t0 cp v t"
  shows "kept_links B cur t0 (fs_put (B @ [dataDirName]) (Link v) (fs_del (B @ [newDataDirName]) t))"
  unfolding kept_links_def
proof (intro allI impI)
  fix vo n assume vo: "cur = Some vo \<and> fs_get t0 (B @ [vo, n]) \<noteq> None"
  have A: "phaseA B cur t0 t" using assms by (simp add: ready_def)
  then have "fs_get t (B @ [vo, n]) \<noteq> None" using vo unfolding phaseA_def by metis
  with managedD(7,8) [OF phaseAD(1) [OF A]] vo have "user_name n" "fs_get t (B @ [n]) \<noteq> None" by auto
  then show "fs_get (fs_put (B @ [dataDirName]) (Link v) (fs_del (B @ [newDataDirName]) t)) (B @ [n]) \<noteq> None"
    by (auto simp: nodes.get_put nodes.get_del)
qed

lemma fsh_Rename_data:
  assumes T: "abs_path T B" and nv: "new_version B cur p v"
    and okA: "\<And>t. phaseA B cur t0 t \<Longrightarrow> ok t" and okB: "\<And>t. phaseB B cp v t \<Longrightarrow> ok t"
    and g: "g \<Longrightarrow> no_faults E"
  shows "fsh ok (\<lambda>t. ready B cur t0 cp v t \<and> fs_get t (B @ [newDataDirName]) = Some (Link v))
    (Rename E (path_Join [T, newDataDirName]) (path_Join [T, dataDirName]))
    (\<lambda>r t. switched B cur t0 cp v r t \<and> (g \<longrightarrow> r = Inr ()))"
proof (rule fsh_Rename_link [OF abs_path_child [OF T dataDirName_plain(2)]
      abs_path_child [OF T dataDirName_plain(1)]], goal_cases)
  case 1
  show ?case by simp
next
  case (2 t)
  then show ?case using okA by (simp add: ready_def)
next
  case (3 t)
  then show ?case using phaseAD(5) [of B cur t0 t False] by (simp add: ready_def)
next
  case (4 t)
  then show ?case
    using managedD(3) [OF phaseAD(1), of B cur t0 t] by (auto simp: ready_def is_link_def is_dir_def)
next
  case (5 t n)
  then have [simp]: "n = Link v" by simp
  have "phaseB B cp v (fs_put (B @ [dataDirName]) (Link v) (fs_del (B @ [newDataDirName]) t))"
    by (rule ready_phaseB [OF _ nv]) (use 5 in auto)
  with ready_kept_links [of B cur t0 cp v t] 5 okB show ?case by (simp add: switched_def)
next
  case (6 t e)
  then have A: "phaseA B cur t0 t" by (simp add: ready_def)
  have "\<not> g" using 6 phaseA_dirs [OF A] g no_faultsD by fastforce
  with A show ?case by (simp add: switched_def)
qed

text \<open>The rename, and what is undone when it fails.\<close>

lemma fsh_rename_or_undo:
  assumes T: "abs_path T B" and nv: "new_version B cur p v"
    and okA: "\<And>t. phaseA B cur t0 t \<Longrightarrow> ok t" and okB: "\<And>t. phaseB B cp v t \<Longrightarrow> ok t"
    and g: "g \<Longrightarrow> no_faults E"
  shows "fsh ok (\<lambda>t. ready B cur t0 cp v t \<and> fs_get t (B @ [newDataDirName]) = Some (Link v))
    (do {
      r \<leftarrow> Rename E (path_Join [T, newDataDirName]) (path_Join [T, dataDirName]);
      case r of
        Inl e \<Rightarrow> do {
          _ \<leftarrow> Remove E (path_Join [T, newDataDirName]);
          _ \<leftarrow> RemoveAll E p;
          State_Monad.return (Inl e)
        }
      | Inr _ \<Rightarrow> State_Monad.return (Inr ())
    }) (\<lambda>r t. switched B cur t0 cp v r t \<and> (g \<longrightarrow> r = Inr ()))"
proof -
  have ren: "fsh ok (\<lambda>t. ready B cur t0 cp v t \<and> fs_get t (B @ [newDataDirName]) = Some (Link v))
      (Rename E (path_Join [T, newDataDirName]) (path_Join [T, dataDirName]))
      (\<lambda>r t. switched B cur t0 cp v r t \<and> (g \<longrightarrow> r = Inr ()))"
    by (rule fsh_Rename_data [OF T nv okA okB g])
  have rmtmp: "fsh ok (phaseA B cur t0) (Remove E (path_Join [T, newDataDirName])) (\<lambda>_. phaseA B cur t0)"
    by (rule fsh_Remove_tmp [OF T okA])
  have rmv: "fsh ok (phaseA B cur t0) (RemoveAll E p) (\<lambda>_. phaseA B cur t0)"
    by (rule fsh_RemoveAll_version [OF nv okA])
  show ?thesis
  proof (rule fsh_bind [OF ren], rule fsh_sum, goal_cases)
    case (1 r e)
    have undo: "fsh ok (phaseA B cur t0) (do {
        _ \<leftarrow> Remove E (path_Join [T, newDataDirName]);
        _ \<leftarrow> RemoveAll E p;
        State_Monad.return (Inl e)
      }) (\<lambda>r t. r = Inl e \<and> phaseA B cur t0 t)"
      by (intro fsh_bind [OF rmtmp] fsh_bind [OF rmv] fsh_return) simp
    show ?case
    proof (rule fsh_assume [of _ "\<not> g"])
      assume "\<not> g"
      with 1 show "fsh ok (\<lambda>t. switched B cur t0 cp v r t \<and> (g \<longrightarrow> r = Inr ())) (do {
          _ \<leftarrow> Remove E (path_Join [T, newDataDirName]);
          _ \<leftarrow> RemoveAll E p;
          State_Monad.return (Inl e)
        }) (\<lambda>r t. switched B cur t0 cp v r t \<and> (g \<longrightarrow> r = Inr ()))"
        by (intro fsh_conseq [OF undo]) (auto simp: switched_def)
    qed (use 1 in auto)
  next
    case (2 r u)
    then show ?case by (auto intro!: fsh_return)
  qed
qed

lemma fsh_swapDataDir:
  assumes T: "abs_path T B" and nv: "new_version B cur p v"
    and okA: "\<And>t. phaseA B cur t0 t \<Longrightarrow> ok t" and okB: "\<And>t. phaseB B cp v t \<Longrightarrow> ok t"
    and os: "env_GOOS E \<noteq> ''windows''"
    and g: "g \<Longrightarrow> no_faults E \<and> fs_get t0 (B @ [newDataDirName]) = None"
  shows "fsh ok (\<lambda>t. ready B cur t0 cp v t \<and> fs_get t (B @ [newDataDirName]) = fs_get t0 (B @ [newDataDirName]))
    (swapDataDir E T p)
    (\<lambda>r t. switched B cur t0 cp v r t \<and> (r = Inr () \<longrightarrow> fs_get t0 (B @ [newDataDirName]) = None) \<and>
      (g \<longrightarrow> r = Inr ()))"
    (is "fsh ok ?J _ ?R")
proof -
  let ?tmp = "B @ [newDataDirName]"
  let ?Q = "\<lambda>r t. (r = Inr () \<longrightarrow> ready B cur t0 cp v t \<and> fs_get t ?tmp = Some (Link v) \<and>
      fs_get t0 ?tmp = None) \<and> (r \<noteq> Inr () \<longrightarrow> phaseA B cur t0 t) \<and> (g \<longrightarrow> r = Inr ())"
  have sym: "fsh ok ?J (Symlink E v (path_Join [T, newDataDirName])) ?Q"
    by (rule fsh_Symlink_tmp [OF T nv okA g])
  have rmv: "fsh ok (phaseA B cur t0) (RemoveAll E p) (\<lambda>_. phaseA B cur t0)"
    by (rule fsh_RemoveAll_version [OF nv okA])
  show ?thesis
    unfolding swapDataDir_def Let_def new_version_names(7) [OF nv] renameDataDir_def if_not_P [OF os]
  proof (rule fsh_bind [OF sym], rule fsh_sum, goal_cases)
    case (1 r e)
    show ?case
    proof (rule fsh_assume [of _ "\<not> g"])
      assume "\<not> g"
      then show "fsh ok (?Q r) (do { _ \<leftarrow> RemoveAll E p; State_Monad.return (Inl e) }) ?R"
        by (intro fsh_pre [OF fsh_bind [OF rmv fsh_return]]) (use 1 in \<open>auto simp: switched_def\<close>)
    qed (use 1 in auto)
  next
    case (2 r u)
    have gf: "g \<Longrightarrow> no_faults E" using g by simp
    show ?case
    proof (rule fsh_assume)
      show "fs_get t0 ?tmp = None" if "?Q r t" for t using that 2 by simp
    qed (rule fsh_conseq [OF fsh_rename_or_undo [OF T nv okA okB gf]], use 2 in auto)
  qed
qed

section \<open>The clean-up\<close>

lemma contains_char: "contains s [c] \<longleftrightarrow> c \<in> set s"
  by (induction s) (auto simp: Cons_prefix_Cons)

lemma phaseBD:
  assumes "phaseB B cp v t"
  shows "managed B (Some v) t" "tree t" "is_dir t B" "dirs t (B @ [n])" "no_links t False (B @ [n])"
proof -
  show m: "managed B (Some v) t" using assms by (simp add: phaseB_def)
  from phaseA_refl [OF this] have A: "phaseA B (Some v) t t" .
  show "tree t" "is_dir t B" "dirs t (B @ [n])" "no_links t False (B @ [n])"
    using phaseAD(2,3) [OF A] phaseA_dirs [OF A] phaseAD(5) [OF A, of False n] by simp_all
qed

text \<open>A name that may be removed: a user name that is not a top name of the payload.\<close>

definition removable :: "payload \<Rightarrow> string \<Rightarrow> bool" where
  "removable cp p \<longleftrightarrow> (CHR ''/'' \<notin> set p \<longrightarrow> user_name p \<and> p \<notin> hd ` payload_comps cp)"

lemma phaseB_del:
  assumes b: "phaseB B cp v t" and p: "user_name n" "n \<notin> hd ` payload_comps cp" and lf: "leaf t (B @ [n])"
  shows "phaseB B cp v (fs_del (B @ [n]) t)"
proof -
  have "fs_get t (B @ [v, n]) = None" using b p(2) unfolding phaseB_def by blast
  from managed_del_link [OF phaseBD(1) [OF b] p(1) this lf]
  have m: "managed B (Some v) (fs_del (B @ [n]) t)" .
  have "n \<noteq> v" using user_not_version [OF p(1) managedD(4) [OF phaseBD(1) [OF b]]] by simp
  then have "fs_get (fs_del (B @ [n]) t) (B @ v # q) = fs_get t (B @ v # q)" for q
    by (auto simp: nodes.get_del)
  with b m show ?thesis by (simp add: phaseB_def content_def)
qed

lemma fsh_Remove_user:
  assumes path: "abs_path f (B @ [n])" and un: "user_name n" "n \<notin> hd ` payload_comps cp"
    and okB: "\<And>t. phaseB B cp v t \<Longrightarrow> ok t" and g: "g \<Longrightarrow> no_faults E" and ps: "g \<Longrightarrow> n \<notin> set ps"
  shows "fsh ok (\<lambda>t. phaseB B cp v t \<and> (g \<longrightarrow> fs_get t (B @ [n]) \<noteq> None \<and>
      (\<forall>p \<in> set ps. CHR ''/'' \<notin> set p \<longrightarrow> fs_get t (B @ [p]) \<noteq> None)))
    (Remove E f)
    (\<lambda>r t. phaseB B cp v t \<and> (g \<longrightarrow> r = Inr () \<and>
      (\<forall>p \<in> set ps. CHR ''/'' \<notin> set p \<longrightarrow> fs_get t (B @ [p]) \<noteq> None)))"
proof (rule fsh_Remove [OF path], goal_cases)
  case (1 t)
  then show ?case using phaseBD(5) by blast
next
  case (2 t)
  then show ?case using phaseBD(2) by blast
next
  case (3 t)
  then have "phaseB B cp v (fs_del (B @ [n]) t)" using phaseB_del [OF _ un] by blast
  then show ?case using 3 okB ps by (auto simp: nodes.get_del)
next
  case (4 t e)
  have "\<not> g"
  proof
    assume g': g
    with 4 have ex: "fs_get t (B @ [n]) \<noteq> None" by simp
    have b: "phaseB B cp v t" using 4 by simp
    have "\<not> is_dir t (B @ [n])"
      using managed_user [OF phaseBD(1) [OF b] un(1)] by (auto simp: is_dir_def)
    then have "leaf t (B @ [n])"
      using ex not_dir_leaf [OF phaseBD(2) [OF b], of "B @ [n]"] by (simp add: leaf_def)
    with 4 no_faultsD [OF g [OF g']] show False by simp
  qed
  then show ?case using 4 by simp
qed

lemma fsh_removeUserVisiblePaths:
  assumes T: "abs_path T B" and okB: "\<And>t. phaseB B cp v t \<Longrightarrow> ok t"
    and g: "g \<Longrightarrow> no_faults E"
  shows "(\<And>p. p \<in> set ps \<Longrightarrow> removable cp p) \<Longrightarrow> (g \<Longrightarrow> distinct ps) \<Longrightarrow>
    fsh ok (\<lambda>t. phaseB B cp v t \<and>
        (g \<longrightarrow> (\<forall>p \<in> set ps. CHR ''/'' \<notin> set p \<longrightarrow> fs_get t (B @ [p]) \<noteq> None)))
      (removeUserVisiblePaths_loop E T ps lasterr)
      (\<lambda>r t. phaseB B cp v t \<and> (g \<longrightarrow> r = lasterr))"
proof (induction ps arbitrary: lasterr)
  case Nil
  then show ?case by (auto intro!: fsh_return)
next
  case (Cons p ps)
  have rest: "fsh ok (\<lambda>t. phaseB B cp v t \<and>
        (g \<longrightarrow> (\<forall>p \<in> set ps. CHR ''/'' \<notin> set p \<longrightarrow> fs_get t (B @ [p]) \<noteq> None)))
      (removeUserVisiblePaths_loop E T ps l)
      (\<lambda>r t. phaseB B cp v t \<and> (g \<longrightarrow> r = l))" for l
    using Cons.IH Cons.prems by simp
  show ?case
    unfolding removeUserVisiblePaths_loop.simps
  proof (rule fsh_if, goal_cases)
    case 1
    show ?case by (rule fsh_pre [OF rest]) auto
  next
    case 2
    then have slash: "CHR ''/'' \<notin> set p" by (simp add: contains_char)
    with Cons.prems(1) [of p] have pn: "user_name p" "p \<notin> hd ` payload_comps cp"
      by (auto simp: removable_def)
    have "g \<Longrightarrow> p \<notin> set ps" using Cons.prems(2) by simp
    from fsh_Remove_user [OF abs_path_child [OF T user_name_plain [OF pn(1)]] pn okB g this]
    have rm: "fsh ok (\<lambda>t. phaseB B cp v t \<and>
        (g \<longrightarrow> (\<forall>p \<in> set (p # ps). CHR ''/'' \<notin> set p \<longrightarrow> fs_get t (B @ [p]) \<noteq> None)))
      (Remove E (path_Join [T, p]))
      (\<lambda>r t. phaseB B cp v t \<and> (g \<longrightarrow> r = Inr () \<and>
        (\<forall>p \<in> set ps. CHR ''/'' \<notin> set p \<longrightarrow> fs_get t (B @ [p]) \<noteq> None)))"
      by (rule fsh_pre) (use slash in auto)
    show ?case
    proof (rule fsh_bind [OF rm], goal_cases)
      case (1 r)
      show ?case
      proof (rule fsh_assume)
        show "g \<longrightarrow> r = Inr ()"
          if "phaseB B cp v t \<and> (g \<longrightarrow> r = Inr () \<and>
            (\<forall>p \<in> set ps. CHR ''/'' \<notin> set p \<longrightarrow> fs_get t (B @ [p]) \<noteq> None))" for t
          using that by blast
      qed (rule fsh_conseq [OF rest], auto)
    qed
  qed
qed

lemma fsh_remove_old:
  assumes T: "abs_path T B" and okB: "\<And>t. phaseB B cp v t \<Longrightarrow> ok t" and g: "g \<Longrightarrow> no_faults E"
    and old: "version_name vo" "vo \<noteq> v"
  shows "fsh ok (phaseB B cp v) (RemoveAll E (path_Join [T, vo]))
    (\<lambda>r t. phaseB B cp v t \<and> (g \<longrightarrow> r = Inr ()))"
proof -
  have pl: "plain_comp vo" using old(1) by (simp add: version_name_def)
  note path = abs_path_child [OF T pl]
  have del: "phaseB B cp v (fs_del q t)" if "phaseB B cp v t" "prefix (B @ [vo]) q" "leaf t q" for t q
  proof -
    have tr: "tree (fs_del q t)"
      by (rule tree_del_leaf [OF phaseBD(2) [OF that(1)]]) (use that(3) in \<open>simp add: leaf_def\<close>)
    note mb = managed_below [OF phaseBD(1) [OF that(1)] tr differ_del [OF that(2)]]
    have "managed B (Some v) (fs_del q t)"
      using mb(1) old version_not_user by (auto simp: version_name_def)
    moreover have "fs_get (fs_del q t) (B @ v # r) = fs_get t (B @ v # r)" for r
      using mb(2) old version_not_user by (auto simp: version_name_def)
    ultimately show ?thesis using that(1) by (simp add: phaseB_def content_def)
  qed
  show ?thesis
  proof (cases g)
    case False
    have "fsh ok (phaseB B cp v) (RemoveAll E (path_Join [T, vo])) (\<lambda>_. phaseB B cp v)"
    proof (rule fsh_RemoveAll [OF path], goal_cases)
      case (1 t)
      then show ?case by (rule phaseBD(5))
    next
      case (2 t)
      then show ?case using phaseBD(2) okB by blast
    next
      case (3 t q)
      then show ?case using del by blast
    qed
    with False show ?thesis by simp
  next
    case True
    have "fsh ok (phaseB B cp v) (RemoveAll E (path_Join [T, vo])) (\<lambda>r t. phaseB B cp v t \<and> r = Inr ())"
    proof (rule fsh_RemoveAll_ok [OF g [OF True] path], goal_cases)
      case 2
      have "path_Join [T, vo] = abs_str (B @ [vo])"
        using path_Join_abs_str [OF T, of vo] plain_path_comps(1) [OF pl] plain_no_dotdot [of "[vo]"] pl
        by simp
      then have "path_Join [T, vo] = join_slash ([] # B @ [vo])" by (cases B) (auto simp: abs_str_def)
      then have "path_Join [T, vo] = join_slash ([] # B) @ CHR ''/'' # vo"
        using join_slash_snoc [of "[] # B" vo] by simp
      then show ?case using pl by (simp add: split_slash_append2 plain_comp_def)
    next
      case (3 t)
      then show ?case using phaseBD(4,5) by blast
    next
      case (4 t)
      then show ?case using phaseBD(2) okB by blast
    next
      case (5 t q)
      then show ?case using del by blast
    qed simp
    with True show ?thesis by simp
  qed
qed

section \<open>Writing a new version\<close>

text \<open>The iteration orders of the run-time list each element once.\<close>

definition range_ok :: "range_order \<Rightarrow> bool" where
  "range_ok rng \<longleftrightarrow> (\<forall>i S. distinct (rng i S) \<and> set (rng i S) = fset S)"

lemma range_okD: "range_ok rng \<Longrightarrow> distinct (rng i S)" "range_ok rng \<Longrightarrow> set (rng i S) = fset S"
  by (simp_all add: range_ok_def)

text \<open>
  The outcome of a write: the old version or the payload, and the payload if it reports
  success.
\<close>

definition outcome ::
  "fpath \<Rightarrow> string option \<Rightarrow> fs \<Rightarrow> payload \<Rightarrow> errno + unit \<Rightarrow> fs \<Rightarrow> bool" where
  "outcome B cur t0 cp r t \<longleftrightarrow>
     (phaseA B cur t0 t \<or> (\<exists>v. phaseB B cp v t) \<and> fs_get t0 (B @ [newDataDirName]) = None) \<and>
     (r = Inr () \<longrightarrow> (\<exists>v. phaseB B cp v t) \<and> fs_get t0 (B @ [newDataDirName]) = None)"

lemma outcome_old: "phaseA B cur t0 t \<Longrightarrow> outcome B cur t0 cp (Inl e) t"
  by (simp add: outcome_def)

lemma outcome_new: "phaseB B cp v t \<Longrightarrow> fs_get t0 (B @ [newDataDirName]) = None \<Longrightarrow> outcome B cur t0 cp r t"
  by (auto simp: outcome_def)

lemma range_keys:
  assumes "range_ok rng"
  shows "set (rng i (fmdom cp)) = fset (fmdom cp)" "path_comps ` set (rng i (fmdom cp)) = payload_comps cp"
  using range_okD(2) [OF assms] by (simp_all add: payload_comps_def)

text \<open>After the switch: the old links and the old version go.\<close>

lemma fsh_removeOld:
  assumes T: "abs_path T B" and rng: "range_ok rng"
    and okB: "\<And>t. phaseB B cp v t \<Longrightarrow> ok t"
    and R: "\<And>p. p |\<in>| R \<Longrightarrow> removable cp p"
    and oldR: "\<And>p. p |\<in>| R \<Longrightarrow> CHR ''/'' \<notin> set p \<Longrightarrow>
      \<exists>vo. cur = Some vo \<and> fs_get t0 (B @ [vo, p]) \<noteq> None"
    and old: "old = (case cur of None \<Rightarrow> [] | Some vo \<Rightarrow> vo)" "\<And>vo. cur = Some vo \<Longrightarrow> version_name vo"
    and g: "g \<Longrightarrow> no_faults E"
    and nv: "new_version B cur p v" and none: "fs_get t0 (B @ [newDataDirName]) = None"
  shows "fsh ok (\<lambda>t. phaseB B cp v t \<and> kept_links B cur t0 t)
    (do {
      r \<leftarrow> removeUserVisiblePaths E rng T R;
      case r of
        Inl e \<Rightarrow> State_Monad.return (Inl e)
      | Inr _ \<Rightarrow>
          if length old > 0 then RemoveAll E (path_Join [T, old]) else State_Monad.return (Inr ())
    }) (\<lambda>r t. outcome B cur t0 cp r t \<and> (g \<longrightarrow> r = Inr ()))"
    (is "fsh ok _ _ ?R")
proof -
  have rm: "fsh ok (\<lambda>t. phaseB B cp v t \<and> kept_links B cur t0 t) (removeUserVisiblePaths E rng T R)
      (\<lambda>r t. phaseB B cp v t \<and> (g \<longrightarrow> r = Inr ()))"
    unfolding removeUserVisiblePaths_def
  proof (rule fsh_pre [OF fsh_removeUserVisiblePaths [OF T okB g]], goal_cases)
    case (5 t)
    have "fs_get t (B @ [p]) \<noteq> None" if "p |\<in>| R" "CHR ''/'' \<notin> set p" for p
      using oldR [OF that] 5 unfolding kept_links_def by blast
    then show ?case using 5 range_okD(2) [OF rng] by simp
  qed (use R range_okD [OF rng] in auto)
  have rmold: "fsh ok (phaseB B cp v) (RemoveAll E (path_Join [T, old])) ?R" if "length old > 0"
  proof -
    from that old obtain vo where vo: "cur = Some vo" "old = vo" "version_name vo"
      by (cases cur) auto
    have "vo \<noteq> v" using new_version_names(4) [OF nv] vo(1) by auto
    from fsh_remove_old [OF T okB g vo(3) this]
    show ?thesis unfolding vo(2) by (rule fsh_post) (use outcome_new [OF _ none] in auto)
  qed
  show ?thesis
  proof (rule fsh_bind [OF rm], rule fsh_sum, goal_cases)
    case (1 r e)
    then show ?case using outcome_new [OF _ none] by (auto intro!: fsh_return)
  next
    case (2 r u)
    show ?case
    proof (rule fsh_if)
      assume "length old > 0"
      then show "fsh ok (\<lambda>t. phaseB B cp v t \<and> (g \<longrightarrow> r = Inr ())) (RemoveAll E (path_Join [T, old])) ?R"
        by (intro fsh_pre [OF rmold]) auto
    qed (use outcome_new [OF _ none] in \<open>auto intro!: fsh_return\<close>)
  qed
qed

text \<open>Before the switch: the payload is written and its links are made.\<close>

lemma fsh_createLinks:
  assumes T: "abs_path T B" and rng: "range_ok rng" and up: "user_payload cp"
    and okA: "\<And>t. phaseA B cur t0 t \<Longrightarrow> ok t" and nrl: "\<And>i. env_fault E i SYS_readlink = None"
    and g: "g \<Longrightarrow> no_faults E" and nv: "new_version B cur p v"
  shows "fsh ok (writing B cur t0 cp v (payload_comps cp)) (createUserVisibleFiles E rng T cp)
    (\<lambda>r t. writing B cur t0 cp v (payload_comps cp) t \<and>
      (r = Inr () \<longrightarrow> ready B cur t0 cp v t \<and>
         fs_get t (B @ [newDataDirName]) = fs_get t0 (B @ [newDataDirName])) \<and> (g \<longrightarrow> r = Inr ()))"
proof -
  note keys = range_keys [OF rng, of _ cp]
  have cu: "fsh ok (linked B cur t0 cp v {}) (createUserVisibleFiles_loop E T (rng 5 (fmdom cp)))
      (\<lambda>r t. writing B cur t0 cp v (payload_comps cp) t \<and>
        (r = Inr () \<longrightarrow> linked B cur t0 cp v ({} \<union> path_comps ` set (rng 5 (fmdom cp))) t) \<and>
        (g \<longrightarrow> r = Inr ()))"
    by (rule fsh_createUserVisibleFiles [OF T nv up _ nrl g]) (use okA keys in auto)
  show ?thesis
    unfolding createUserVisibleFiles_def
  proof (rule fsh_conseq [OF cu])
    fix r :: "errno + unit" and t
    assume *: "writing B cur t0 cp v (payload_comps cp) t \<and>
        (r = Inr () \<longrightarrow> linked B cur t0 cp v ({} \<union> path_comps ` set (rng 5 (fmdom cp))) t) \<and> (g \<longrightarrow> r = Inr ())"
    then have "preA B cur t0 t" using writingD(1) by blast
    with * show "writing B cur t0 cp v (payload_comps cp) t \<and>
        (r = Inr () \<longrightarrow> ready B cur t0 cp v t \<and>
           fs_get t (B @ [newDataDirName]) = fs_get t0 (B @ [newDataDirName])) \<and> (g \<longrightarrow> r = Inr ())"
      unfolding keys(2) Un_empty_left using linked_ready [OF _ up] by (auto simp: preA_def)
  qed (simp add: linked_def)
qed

text \<open>Everything after the new directory has been made.\<close>

lemma fsh_fillVersion:
  assumes T: "abs_path T B" and rng: "range_ok rng" and up: "user_payload cp"
    and okA: "\<And>t. phaseA B cur t0 t \<Longrightarrow> ok t" and okB: "\<And>v t. phaseB B cp v t \<Longrightarrow> ok t"
    and os: "env_GOOS E \<noteq> ''windows''" and nrl: "\<And>i. env_fault E i SYS_readlink = None"
    and R: "\<And>p. p |\<in>| R \<Longrightarrow> removable cp p"
    and oldR: "\<And>p. p |\<in>| R \<Longrightarrow> CHR ''/'' \<notin> set p \<Longrightarrow>
      \<exists>vo. cur = Some vo \<and> fs_get t0 (B @ [vo, p]) \<noteq> None"
    and old: "old = (case cur of None \<Rightarrow> [] | Some vo \<Rightarrow> vo)" "\<And>vo. cur = Some vo \<Longrightarrow> version_name vo"
    and g: "g \<Longrightarrow> no_faults E \<and> no_conflict cp \<and> fs_get t0 (B @ [newDataDirName]) = None"
    and nv: "new_version B cur p v" and v: "v = path_Base p"
  shows "fsh ok (empty_version B cur t0 p) (do {
      r \<leftarrow> writePayloadToDir E rng cp p;
      case r of
        Inl e \<Rightarrow> State_Monad.return (Inl e)
      | Inr _ \<Rightarrow> do {
          r \<leftarrow> createUserVisibleFiles E rng T cp;
          case r of
            Inl e \<Rightarrow> State_Monad.return (Inl e)
          | Inr _ \<Rightarrow> do {
              r \<leftarrow> swapDataDir E T p;
              case r of
                Inl e \<Rightarrow> State_Monad.return (Inl e)
              | Inr _ \<Rightarrow> do {
                  r \<leftarrow> removeUserVisiblePaths E rng T R;
                  case r of
                    Inl e \<Rightarrow> State_Monad.return (Inl e)
                  | Inr _ \<Rightarrow>
                      if length old > 0 then RemoveAll E (path_Join [T, old])
                      else State_Monad.return (Inr ())
                }
            }
        }
    }) (\<lambda>r t. outcome B cur t0 cp r t \<and> (g \<longrightarrow> r = Inr ()))"
    (is "fsh ok _ _ ?R")
proof -
  have gf: "g \<Longrightarrow> no_faults E" and gc: "g \<Longrightarrow> no_faults E \<and> no_conflict cp"
    and gt: "g \<Longrightarrow> no_faults E \<and> fs_get t0 (B @ [newDataDirName]) = None" using g by auto
  let ?S = "\<lambda>r t. switched B cur t0 cp v r t \<and> (r = Inr () \<longrightarrow> fs_get t0 (B @ [newDataDirName]) = None) \<and>
    (g \<longrightarrow> r = Inr ())"
  have wr: "fsh ok (empty_version B cur t0 p) (writePayloadToDir E rng cp p)
      (\<lambda>r t. writing B cur t0 cp v {} t \<and>
        (r = Inr () \<longrightarrow> writing B cur t0 cp v (payload_comps cp) t) \<and> (g \<longrightarrow> r = Inr ()))"
    unfolding writePayloadToDir_def
    by (rule fsh_conseq [OF fsh_writePayloadToDir [OF nv up _ gc, where D = "{}"]])
      (use okA range_keys [OF rng, of _ cp] writing_empty v in auto)
  have ln: "fsh ok (writing B cur t0 cp v (payload_comps cp)) (createUserVisibleFiles E rng T cp)
      (\<lambda>r t. writing B cur t0 cp v (payload_comps cp) t \<and>
        (r = Inr () \<longrightarrow> ready B cur t0 cp v t \<and>
           fs_get t (B @ [newDataDirName]) = fs_get t0 (B @ [newDataDirName])) \<and> (g \<longrightarrow> r = Inr ()))"
    by (rule fsh_createLinks [OF T rng up okA nrl gf nv])
  have sw: "fsh ok (\<lambda>t. ready B cur t0 cp v t \<and>
        fs_get t (B @ [newDataDirName]) = fs_get t0 (B @ [newDataDirName])) (swapDataDir E T p) ?S"
    by (rule fsh_swapDataDir [OF T nv okA okB os gt])
  show ?thesis
  proof (rule fsh_bind [OF wr], rule fsh_sum, goal_cases)
    case (2 r u)
    show ?case
    proof (rule fsh_pre [OF fsh_bind [OF ln]], rule fsh_sum, goal_cases)
      case (2 r u)
      show ?case
      proof (rule fsh_pre [OF fsh_bind [OF sw]], rule fsh_sum, goal_cases)
        case (2 r u)
        show ?case
        proof (rule fsh_assume)
          show "fs_get t0 (B @ [newDataDirName]) = None" if "?S r t" for t using that 2 by simp
        qed (rule fsh_pre [OF fsh_removeOld [OF T rng okB R oldR old gf nv]], use 2 in \<open>auto simp: switched_def\<close>)
      qed (use 2 outcome_old in \<open>auto intro!: fsh_return simp: switched_def\<close>)
    qed (use 2 outcome_old writingD(2) in \<open>auto intro!: fsh_return\<close>)
  qed (use outcome_old writingD(2) in \<open>auto intro!: fsh_return\<close>)
qed

lemma fsh_writeNewVersion:
  assumes T: "abs_path T B" and rng: "range_ok rng" and up: "user_payload cp"
    and okA: "\<And>t. phaseA B cur t0 t \<Longrightarrow> ok t" and okB: "\<And>v t. phaseB B cp v t \<Longrightarrow> ok t"
    and os: "env_GOOS E \<noteq> ''windows''" and nrl: "\<And>i. env_fault E i SYS_readlink = None"
    and R: "\<And>p. p |\<in>| R \<Longrightarrow> removable cp p"
    and oldR: "\<And>p. p |\<in>| R \<Longrightarrow> CHR ''/'' \<notin> set p \<Longrightarrow>
      \<exists>vo. cur = Some vo \<and> fs_get t0 (B @ [vo, p]) \<noteq> None"
    and old: "old = (case cur of None \<Rightarrow> [] | Some vo \<Rightarrow> vo)" "\<And>vo. cur = Some vo \<Longrightarrow> version_name vo"
    and g: "g \<Longrightarrow> no_faults E \<and> no_conflict cp \<and> fresh_names E B t0 \<and>
      fs_get t0 (B @ [newDataDirName]) = None"
  shows "fsh ok (\<lambda>t. t = t0 \<and> phaseA B cur t0 t) (writeNewVersion E rng T cp old R)
    (\<lambda>r t. outcome B cur t0 cp r t \<and> (g \<longrightarrow> r = Inr ()))"
proof -
  have gc: "g \<Longrightarrow> no_faults E \<and> no_conflict cp \<and> fs_get t0 (B @ [newDataDirName]) = None" using g by simp
  let ?Q = "\<lambda>r t. preA B cur t0 t \<and> (g \<longrightarrow> (\<exists>p. r = Inr p)) \<and> (\<forall>p. r = Inr p \<longrightarrow> empty_version B cur t0 p t)"
  have mk: "fsh ok (\<lambda>t. t = t0 \<and> phaseA B cur t0 t) (newTimestampDir E T) ?Q"
    by (rule fsh_pre [OF fsh_newTimestampDir [OF T]]) (use okA g in \<open>auto simp: preA_def\<close>)
  show ?thesis
    unfolding writeNewVersion_def
  proof (rule fsh_bind [OF mk], rule fsh_sum, goal_cases)
    case (2 r p)
    show ?case
    proof (rule fsh_assume)
      show "new_version B cur p (path_Base p)" if "?Q r t" for t using that 2 by (auto simp: empty_version_def)
    qed (rule fsh_pre [OF fsh_fillVersion [OF T rng up okA okB os nrl R oldR old gc _ refl]], use 2 in auto)
  qed (use outcome_old in \<open>auto intro!: fsh_return simp: preA_def\<close>)
qed

section \<open>Which paths go\<close>

lemma subPaths_join:
  assumes "list_all plain_comp ks"
  shows "set (subPaths (join_slash ks)) = join_slash ` {p. p \<noteq> [] \<and> prefix p ks}"
  using assms
proof (induction ks rule: rev_induct)
  case Nil
  then show ?case by (simp add: subPaths.simps)
next
  case (snoc c ks)
  then have c: "c \<noteq> []" "CHR ''/'' \<notin> set c" by (simp_all add: plain_comp_def)
  have ne: "join_slash (ks @ [c]) \<noteq> []"
    using c(1) by (cases "ks = []") (simp_all add: join_slash_snoc)
  have "trim_suffix (fst (path_Split (join_slash (ks @ [c])))) ''/'' = join_slash ks"
  proof (cases "ks = []")
    case True
    then show ?thesis using c by (simp add: path_Split_def trim_suffix_def)
  next
    case False
    then have "fst (path_Split (join_slash (ks @ [c]))) = join_slash ks @ ''/''"
      using c by (simp add: join_slash_snoc path_Split_def split_slash_append2)
    then show ?thesis by simp
  qed
  then have "set (subPaths (join_slash (ks @ [c]))) =
      insert (join_slash (ks @ [c])) (set (subPaths (join_slash ks)))"
    using ne by (subst subPaths.simps) simp
  also have "\<dots> = join_slash ` {p. p \<noteq> [] \<and> prefix p (ks @ [c])}"
    using snoc by (auto simp: prefix_snoc)
  finally show ?case .
qed

lemma relativePath_abs:
  assumes "S \<noteq> []"
  shows "relativePath (abs_str S) (abs_str (S @ ks)) = join_slash ks"
proof (cases "ks = []")
  case True
  then show ?thesis using trim_prefix_append [of "abs_str S" "[]"] by (simp add: relativePath_def trim_prefix_def)
next
  case False
  then show ?thesis
    using assms trim_prefix_append [of "''/''" "join_slash ks"]
    by (simp add: relativePath_def abs_str_append)
qed

lemma join_slash_single: "list_all plain_comp ks \<Longrightarrow> ks \<noteq> [] \<Longrightarrow> CHR ''/'' \<notin> set (join_slash ks) \<Longrightarrow> \<exists>n. ks = [n]"
  by (cases ks rule: join_slash.cases) auto

lemma join_slash_inject:
  "list_all plain_comp a \<Longrightarrow> list_all plain_comp b \<Longrightarrow> join_slash a = join_slash b \<longleftrightarrow> a = b"
  by (metis plain_comps_join)

lemma join_slash_nonempty: "list_all plain_comp ks \<Longrightarrow> join_slash ks = [] \<longleftrightarrow> ks = []"
  using join_slash_inject [of ks "[]"] by simp

text \<open>The paths the code removes, from the version's tree.\<close>

definition stale_paths :: "os_env \<Rightarrow> fpath \<Rightarrow> payload \<Rightarrow> string \<Rightarrow> fs \<Rightarrow> string fset \<Rightarrow> bool" where
  "stale_paths E B cp vo t R \<longleftrightarrow>
     (\<forall>p. p |\<in>| R \<longrightarrow> removable cp p \<and> (CHR ''/'' \<notin> set p \<longrightarrow> fs_get t (B @ [vo, p]) \<noteq> None)) \<and>
     (walk_reliable E \<and> R = {||} \<longrightarrow>
        (\<forall>ks. ks \<noteq> [] \<and> fs_get t (B @ vo # ks) \<noteq> None \<longrightarrow> (\<exists>k \<in> payload_comps cp. prefix ks k)))"

lemma newPaths_set:
  assumes "user_payload cp" "set keys = fset (fmdom cp)"
  shows "fset (fset_of_list (concat (map subPaths keys))) =
    join_slash ` {p. p \<noteq> [] \<and> (\<exists>k \<in> payload_comps cp. prefix p k)}"
proof -
  have "set (subPaths k) = join_slash ` {p. p \<noteq> [] \<and> prefix p (path_comps k)}" if "k \<in> fset (fmdom cp)" for k
    using subPaths_join [OF payload_key(2) [OF assms(1) that]] payload_key(6) [OF assms(1) that] by simp
  then show ?thesis
    using assms(2) by (auto simp: fset_of_list.rep_eq payload_comps_def)
qed

lemma visits_stale:
  assumes m: "managed B (Some vo) t" and up: "user_payload cp" and keys: "set keys = fset (fmdom cp)"
    and vis: "visits E t (B @ [vo]) vs"
  shows "stale_paths E B cp vo t
    (fset_of_list (filter (\<lambda>p. p \<noteq> []) (map (relativePath (abs_str (B @ [vo]))) vs)) |-|
     fset_of_list (concat (map subPaths keys)))" (is "stale_paths E B cp vo t ?R")
proof -
  let ?new = "join_slash ` {p. p \<noteq> [] \<and> (\<exists>k \<in> payload_comps cp. prefix p k)}"
  have rel: "relativePath (abs_str (B @ [vo])) (abs_str ((B @ [vo]) @ ks)) = join_slash ks" for ks
    by (rule relativePath_abs) simp
  have tr: "tree t" by (rule managedD(1) [OF m])
  have pl: "list_all plain_comp ks" if "fs_get t (B @ vo # ks) \<noteq> None" for ks
    using tree_plain [OF tr that] by simp
  have R: "p |\<in>| ?R \<longleftrightarrow> p \<noteq> [] \<and> p \<in> relativePath (abs_str (B @ [vo])) ` set vs \<and> p \<notin> ?new" for p
    using newPaths_set [OF up keys] by (auto simp: fset_of_list.rep_eq)
  have 1: "removable cp p \<and> (CHR ''/'' \<notin> set p \<longrightarrow> fs_get t (B @ [vo, p]) \<noteq> None)" if p: "p |\<in>| ?R" for p
  proof -
    from p obtain v where v: "v \<in> set vs" "p = relativePath (abs_str (B @ [vo])) v" "p \<noteq> []" "p \<notin> ?new"
      unfolding R by blast
    from vis v(1) obtain ks where ks: "v = abs_str ((B @ [vo]) @ ks)" "ks = [] \<or> fs_get t ((B @ [vo]) @ ks) \<noteq> None"
      unfolding visits_def by blast
    have pk: "p = join_slash ks" using v(2) ks(1) rel by simp
    then have "ks \<noteq> []" using v(3) by auto
    with ks(2) have ex: "fs_get t (B @ vo # ks) \<noteq> None" by simp
    show ?thesis
    proof (cases "CHR ''/'' \<in> set p")
      case False
      with join_slash_single [OF pl [OF ex] \<open>ks \<noteq> []\<close>] pk obtain n where n: "ks = [n]" by auto
      with pk have [simp]: "p = n" by simp
      have "user_name n" using managedD(7) [OF m, of vo n] ex n by simp
      moreover have "n \<notin> hd ` payload_comps cp"
      proof
        assume "n \<in> hd ` payload_comps cp"
        then obtain k where k: "k \<in> payload_comps cp" "n = hd k" by blast
        with up have "k \<noteq> []" by (auto simp: payload_comps_def user_payload_def user_comps_def)
        with k(2) have "prefix [n] k" by (cases k) auto
        with k(1) have "join_slash [n] \<in> ?new" by blast
        with v(4) show False by simp
      qed
      ultimately show ?thesis using ex n by (simp add: removable_def)
    qed (simp add: removable_def)
  qed
  have 2: "\<exists>k \<in> payload_comps cp. prefix ks k"
    if rel': "walk_reliable E" and empty: "?R = {||}" and ks: "ks \<noteq> []" "fs_get t (B @ vo # ks) \<noteq> None" for ks
  proof -
    have "abs_str ((B @ [vo]) @ ks) \<in> set vs" using vis rel' ks(2) unfolding visits_def by simp
    then have "join_slash ks \<in> relativePath (abs_str (B @ [vo])) ` set vs" using rel by (metis image_eqI)
    moreover have "join_slash ks \<noteq> []" using join_slash_nonempty [OF pl [OF ks(2)]] ks(1) by simp
    moreover have "join_slash ks |\<notin>| ?R" by (simp only: empty fempty_iff not_False_eq_True)
    ultimately have "join_slash ks \<in> ?new" unfolding R by blast
    then obtain p k where p: "join_slash ks = join_slash p" "k \<in> payload_comps cp" "prefix p k" by blast
    have "list_all plain_comp k" using p(2) up by (auto simp: payload_comps_def user_payload_def user_comps_def)
    then have "list_all plain_comp p" using p(3) by (auto simp: prefix_def)
    with p(1) pl [OF ks(2)] have "ks = p" by (simp add: join_slash_inject)
    with p(2,3) show ?thesis by blast
  qed
  from 1 2 show ?thesis unfolding stale_paths_def by blast
qed

lemma fsh_pathsToRemove:
  assumes T: "abs_path T B" and m: "managed B (Some vo) t1" and up: "user_payload cp"
    and rng: "range_ok rng" and ok: "ok t1"
  shows "fsh ok (\<lambda>t. t = t1) (pathsToRemove E rng cp (path_Join [T, vo]))
    (\<lambda>R t. t = t1 \<and> stale_paths E B cp vo t1 R)"
proof -
  have pl: "plain_comp vo" using managedD(4) [OF m] by (simp add: version_name_def)
  have path: "path_Join [T, vo] = abs_str (B @ [vo])"
    using path_Join_abs_str [OF T, of vo] plain_path_comps(1) [OF pl] plain_no_dotdot [of "[vo]"] pl by simp
  have "fs_get t1 (B @ [vo]) \<noteq> None" using managedD(5) [OF m] by (auto simp: is_dir_def)
  note walk = fsh_Walk [where ok = ok, OF managedD(1) [OF m] ok this, of E]
  show ?thesis
    unfolding pathsToRemove_def path Let_def
    by (rule fsh_bind [OF walk], rule fsh_return)
      (use visits_stale [OF m up range_okD(2) [OF rng]] in blast)
qed

section \<open>Is a write needed?\<close>

text \<open>The old version holds no node of another kind where the payload has a file.\<close>

definition compatible :: "fpath \<Rightarrow> payload \<Rightarrow> string option \<Rightarrow> fs \<Rightarrow> bool" where
  "compatible B cp cur t \<longleftrightarrow>
     (\<forall>vo k. cur = Some vo \<and> k \<in> payload_comps cp \<longrightarrow>
        \<not> blocked t (B @ vo # k) \<and> \<not> is_dir t (B @ vo # k))"

lemma managed_no_links:
  assumes "managed B (Some vo) t"
  shows "no_links t f (B @ vo # ks)"
proof -
  have "\<not> is_link t q" if "prefix q (B @ vo # ks)" for q
  proof -
    from that consider "prefix q B" | r where "q = B @ vo # r"
      unfolding prefix_append prefix_Cons by (metis append_Nil2 prefix_order.refl)
    then show ?thesis
      using dirs_to [OF managedD(1,2) [OF assms]] dir_not_link managedD(6) [OF assms] by cases auto
  qed
  then show ?thesis unfolding no_links_def strict_prefix_def by blast
qed

lemma fsh_shouldWriteFile:
  assumes m: "managed B (Some vo) t1" and path: "abs_path p (B @ vo # ks)" and ok: "ok t1"
    and g: "g \<Longrightarrow> no_faults E \<and> \<not> blocked t1 (B @ vo # ks) \<and> \<not> is_dir t1 (B @ vo # ks)"
  shows "fsh ok (\<lambda>t. t = t1) (shouldWriteFile E p d)
    (\<lambda>r t. t = t1 \<and> (r = Inr False \<longrightarrow> content B t1 vo ks = Some d) \<and> (g \<longrightarrow> (\<exists>b. r = Inr b)))"
proof -
  let ?ex = "fs_get t1 (B @ vo # ks) \<noteq> None"
  have nl: "no_links t1 f (B @ vo # ks)" for f by (rule managed_no_links [OF m])
  have tr: "tree t1" by (rule managedD(1) [OF m])
  have regular: "\<exists>d m. fs_get t1 (B @ vo # ks) = Some (File d m)" if ?ex "g"
  proof (cases "the (fs_get t1 (B @ vo # ks))")
    case (Link l)
    then show ?thesis using that managedD(6) [OF m, of vo ks] by (auto simp: is_link_def)
  qed (use that g in \<open>auto simp: is_dir_def\<close>)
  have lst: "fsh ok (\<lambda>t. t = t1) (Lstat E p) (\<lambda>r t. t = t1 \<and> (g \<and> r \<noteq> Inl ENOENT \<longrightarrow> ?ex))"
    by (rule fsh_Lstat [OF path]) (use nl ok g in \<open>auto simp: no_faults_def\<close>)
  have rd: "fsh ok (\<lambda>t. t = t1 \<and> (g \<longrightarrow> ?ex)) (ReadFile E p)
      (\<lambda>r t. t = t1 \<and> (g \<longrightarrow> ?ex) \<and> (\<forall>c. r = Inr c \<longrightarrow> content B t1 vo ks = Some c) \<and>
        (g \<longrightarrow> (\<exists>c. r = Inr c)))"
  proof (rule fsh_ReadFile [OF path], goal_cases)
    case (4 t e)
    have "\<not> g"
    proof
      assume "g"
      with 4(1) have ?ex by blast
      moreover have "\<not> (\<exists>i k. env_fault E i k = Some e)" using g [OF \<open>g\<close>] by (simp add: no_faults_def)
      ultimately show False using regular [OF \<open>?ex\<close> \<open>g\<close>] tree_dirs [OF tr \<open>?ex\<close>] 4 by blast
    qed
    with 4 show ?case by simp
  qed (use nl ok in \<open>auto simp: content_def\<close>)
  show ?thesis
    unfolding shouldWriteFile_def
  proof (rule fsh_bind [OF lst], rule fsh_if, goal_cases)
    case (1 r)
    then show ?case by (auto intro!: fsh_return)
  next
    case (2 r)
    show ?case
    proof (rule fsh_pre [OF fsh_bind [OF rd]], rule fsh_sum, goal_cases)
      case (1 r e)
      then show ?case by (auto intro!: fsh_return)
    next
      case (2 r c)
      then show ?case by (auto intro!: fsh_return)
    qed (use 2 in auto)
  qed
qed

lemma fsh_shouldWritePayload:
  assumes m: "managed B (Some vo) t1" and path: "abs_path p (B @ [vo])" and ok: "ok t1"
    and up: "user_payload cp" and rng: "range_ok rng"
    and g: "g \<Longrightarrow> no_faults E \<and> compatible B cp (Some vo) t1"
  shows "fsh ok (\<lambda>t. t = t1) (shouldWritePayload E rng cp p)
    (\<lambda>r t. t = t1 \<and>
       (r = Inr False \<longrightarrow> (\<forall>ks \<in> payload_comps cp. content B t1 vo ks = payload_view cp ks)) \<and>
       (g \<longrightarrow> (\<exists>b. r = Inr b)))"
proof -
  have loop: "fsh ok (\<lambda>t. t = t1) (shouldWritePayload_loop E cp p keys)
    (\<lambda>r t. t = t1 \<and>
       (r = Inr False \<longrightarrow> (\<forall>k \<in> set keys. content B t1 vo (path_comps k) = payload_view cp (path_comps k))) \<and>
       (g \<longrightarrow> (\<exists>b. r = Inr b)))" if "set keys \<subseteq> fset (fmdom cp)" for keys
    using that
  proof (induction keys)
    case (Cons k keys)
    then have k: "k |\<in>| fmdom cp" by simp
    note K = payload_key [OF up k]
    have "abs_path (path_Join [p, k]) (B @ vo # path_comps k)"
      using abs_path_Join [OF path, of k] plain_no_dotdot [OF K(2)] by simp
    from fsh_shouldWriteFile [where ok = ok, OF m this ok, of g E "Data (the (fmlookup cp k))"]
    have f: "fsh ok (\<lambda>t. t = t1) (shouldWriteFile E (path_Join [p, k]) (Data (the (fmlookup cp k))))
      (\<lambda>r t. t = t1 \<and> (r = Inr False \<longrightarrow> content B t1 vo (path_comps k) = payload_view cp (path_comps k)) \<and>
        (g \<longrightarrow> (\<exists>b. r = Inr b)))"
      using g K(4,5) by (auto simp: compatible_def)
    let ?J = "\<lambda>r t. t = t1 \<and>
      (r = Inr False \<longrightarrow> content B t1 vo (path_comps k) = payload_view cp (path_comps k)) \<and>
      (g \<longrightarrow> (\<exists>b. r = Inr b))"
    let ?R = "\<lambda>r t. t = t1 \<and> (r = Inr False \<longrightarrow>
        (\<forall>k \<in> set (k # keys). content B t1 vo (path_comps k) = payload_view cp (path_comps k))) \<and>
      (g \<longrightarrow> (\<exists>b. r = Inr b))"
    show ?case
      unfolding shouldWritePayload_loop.simps
    proof (rule fsh_bind [OF f], rule fsh_sum, goal_cases)
      case (1 r e)
      then show ?case by (auto intro!: fsh_return)
    next
      case (2 r b)
      show ?case
      proof (rule fsh_if)
        assume "b"
        with 2 show "fsh ok (?J r) (State_Monad.return (Inr True)) ?R" by (auto intro!: fsh_return)
      next
        assume nb: "\<not> b"
        with 2 have fb: "r = Inr False" by simp
        show "fsh ok (?J r) (shouldWritePayload_loop E cp p keys) ?R"
        proof (rule fsh_assume [where P = "content B t1 vo (path_comps k) = payload_view cp (path_comps k)"])
          assume "content B t1 vo (path_comps k) = payload_view cp (path_comps k)"
          then show "fsh ok (?J r) (shouldWritePayload_loop E cp p keys) ?R"
            by (intro fsh_conseq [OF Cons.IH]) (use Cons.prems in auto)
        qed (use fb in blast)
      qed
    qed
  qed (auto intro: fsh_return)
  show ?thesis
    unfolding shouldWritePayload_def
    by (rule fsh_post [OF loop]) (use range_okD(2) [OF rng] in \<open>auto simp: payload_comps_def\<close>)
qed

section \<open>The write as a whole\<close>

text \<open>
  A reader sees the old version or the payload.  After a success the files of the payload are
  there, and nothing else if the walk could be relied upon; with a temporary data link left
  behind nothing was written.
\<close>

definition projected :: "os_env \<Rightarrow> fpath \<Rightarrow> payload \<Rightarrow> fs \<Rightarrow> bool" where
  "projected E B cp t \<longleftrightarrow>
     (\<exists>v. managed B (Some v) t \<and>
       (\<forall>ks \<in> payload_comps cp. view B (Some v) t ks = payload_view cp ks) \<and>
       (walk_reliable E \<longrightarrow> (\<forall>ks. user_comps ks \<longrightarrow> view B (Some v) t ks = payload_view cp ks)))"

lemma phaseB_projected: "user_payload cp \<Longrightarrow> phaseB B cp v t \<Longrightarrow> projected E B cp t"
  unfolding projected_def phaseB_def
  by (rule exI [of _ v]) (auto simp: view_def payload_comps_def user_payload_def)

lemma kept_projected:
  assumes m: "managed B (Some vo) t" and up: "user_payload cp"
    and same: "\<forall>ks \<in> payload_comps cp. content B t vo ks = payload_view cp ks"
    and stale: "stale_paths E B cp vo t {||}"
  shows "projected E B cp t"
  unfolding projected_def
proof (intro exI conjI impI allI ballI)
  fix ks assume rel: "walk_reliable E" and ks: "user_comps ks"
  then have pl: "list_all plain_comp ks" "ks \<noteq> []" by (auto simp: user_comps_def)
  show "view B (Some vo) t ks = payload_view cp ks"
  proof (cases "ks \<in> payload_comps cp")
    case True
    with same show ?thesis by (simp add: view_def)
  next
    case False
    have "content B t vo ks = None"
    proof (rule ccontr)
      assume "content B t vo ks \<noteq> None"
      then obtain d md where f: "fs_get t (B @ vo # ks) = Some (File d md)"
        by (auto simp: content_def split: option.splits fnode.splits)
      with stale rel pl(2) obtain k where k: "k \<in> payload_comps cp" "prefix ks k"
        unfolding stale_paths_def by blast
      with False obtain c r where r: "k = (ks @ [c]) @ r"
        by (metis append.assoc append_Cons append_Nil append_Nil2 neq_Nil_conv prefix_def)
      have "list_all plain_comp k" using k(1) up by (auto simp: payload_comps_def user_payload_def user_comps_def)
      with k(1) payload_comps_iff [OF up] same have "content B t vo k \<noteq> None" by simp
      then have "fs_get t ((B @ vo # ks) @ c # r) \<noteq> None"
        using r by (cases "fs_get t (B @ vo # ks @ c # r)") (auto simp: content_def)
      then have "is_dir t (B @ vo # ks)"
        using tree_child [OF managedD(1) [OF m]] treeD [OF managedD(1) [OF m]] by blast
      with f show False by (simp add: is_dir_def)
    qed
    with False payload_comps_iff [OF up pl(1)] show ?thesis by (simp add: view_def)
  qed
qed (use m same in \<open>auto simp: view_def\<close>)

definition write_outcome ::
  "os_env \<Rightarrow> fpath \<Rightarrow> string option \<Rightarrow> fs \<Rightarrow> payload \<Rightarrow> errno + unit \<Rightarrow> fs \<Rightarrow> bool" where
  "write_outcome E B cur t0 cp r t \<longleftrightarrow>
     (phaseA B cur t0 t \<or> (\<exists>v. phaseB B cp v t) \<and> fs_get t0 (B @ [newDataDirName]) = None) \<and>
     (r = Inr () \<longrightarrow> projected E B cp t \<and> (fs_get t0 (B @ [newDataDirName]) = None \<or> t = t0))"

lemma outcome_write: "user_payload cp \<Longrightarrow> outcome B cur t0 cp r t \<Longrightarrow> write_outcome E B cur t0 cp r t"
  unfolding outcome_def write_outcome_def using phaseB_projected by blast

lemma fsh_bind_value:
  assumes "fsh ok J m (\<lambda>r t. t = t0 \<and> r = x)" "fsh ok (\<lambda>t. t = t0) (f x) R"
  shows "fsh ok J (State_Monad.bind m f) R"
proof (rule fsh_bind [OF assms(1)])
  show "fsh ok (\<lambda>t. t = t0 \<and> y = x) (f y) R" for y
  proof (rule fsh_assume [where P = "y = x"])
    assume "y = x"
    with assms(2) show "fsh ok (\<lambda>t. t = t0 \<and> y = x) (f y) R" by simp
  qed simp
qed

text \<open>The data link names the old version.\<close>

lemma fsh_Readlink_data:
  assumes T: "abs_path T B" and m: "managed B cur t0" and ok0: "ok t0"
    and nrl: "\<And>i. env_fault E i SYS_readlink = None"
  shows "fsh ok (\<lambda>t. t = t0) (Readlink E (path_Join [T, dataDirName]))
    (\<lambda>r t. t = t0 \<and> r = (case cur of None \<Rightarrow> Inl ENOENT | Some vo \<Rightarrow> Inr vo))"
proof (rule fsh_Readlink [OF abs_path_child [OF T dataDirName_plain(1)]], goal_cases)
  case (1 t)
  have B: "is_dir t0 q" if "prefix q B" for q by (rule dirs_to [OF managedD(1,2) [OF m] that])
  then show ?case
    using 1 dir_not_link unfolding no_links_def strict_prefix_snoc_iff by (auto simp: strict_prefix_def)
next
  case (4 t e)
  have "dirs t0 (B @ [dataDirName])" by (rule phaseA_dirs [OF phaseA_refl [OF m]])
  with 4 show ?case using managedD(3) [OF m] nrl by (auto simp: is_link_def split: option.splits)
qed (use ok0 managedD(3) [OF m] in \<open>auto split: option.splits\<close>)

text \<open>The decision: a payload that is there already is not written.\<close>

lemma fsh_writeUnlessSame:
  assumes path: "abs_path p (B @ [vo])" and rng: "range_ok rng" and up: "user_payload cp"
    and mv: "managed B (Some vo) t0" and ok0: "ok t0"
    and g: "g \<Longrightarrow> no_faults E \<and> compatible B cp (Some vo) t0"
    and R: "stale_paths E B cp vo t0 R"
    and new: "fsh ok (\<lambda>t. t = t0) n (\<lambda>r t. write_outcome E B (Some vo) t0 cp r t \<and> (g \<longrightarrow> r = Inr ()))"
  shows "fsh ok (\<lambda>t. t = t0) (do {
      should \<leftarrow> shouldWritePayload E rng cp p;
      case should of
        Inl e \<Rightarrow> State_Monad.return (Inl e)
      | Inr b \<Rightarrow> if \<not> b \<and> R = {||} then State_Monad.return (Inr ()) else n
    }) (\<lambda>r t. write_outcome E B (Some vo) t0 cp r t \<and> (g \<longrightarrow> r = Inr ()))"
proof -
  have should: "fsh ok (\<lambda>t. t = t0) (shouldWritePayload E rng cp p)
    (\<lambda>r t. t = t0 \<and>
      (r = Inr False \<longrightarrow> (\<forall>ks \<in> payload_comps cp. content B t0 vo ks = payload_view cp ks)) \<and>
      (g \<longrightarrow> (\<exists>b. r = Inr b)))"
    by (rule fsh_shouldWritePayload) (use mv path ok0 up rng g in auto)
  show ?thesis
  proof (rule fsh_bind [OF should], rule fsh_sum, goal_cases)
    case (1 r e)
    then show ?case using phaseA_refl [OF mv] by (auto intro!: fsh_return simp: write_outcome_def)
  next
    case (2 r b)
    show ?case
    proof (rule fsh_if, goal_cases)
      case 1
      with 2 show ?case using phaseA_refl [OF mv] kept_projected [OF mv up] R
        by (auto intro!: fsh_return simp: write_outcome_def)
    qed (rule fsh_pre [OF new], simp)
  qed
qed

lemma fsh_writeCleanPayload:
  assumes T: "abs_path T B" and rng: "range_ok rng" and up: "user_payload cp"
    and m: "managed B cur t0"
    and okA: "\<And>t. phaseA B cur t0 t \<Longrightarrow> ok t" and okB: "\<And>v t. phaseB B cp v t \<Longrightarrow> ok t"
    and os: "env_GOOS E \<noteq> ''windows''" and nrl: "\<And>i. env_fault E i SYS_readlink = None"
    and g: "g \<Longrightarrow> no_faults E \<and> no_conflict cp \<and> fresh_names E B t0 \<and>
      fs_get t0 (B @ [newDataDirName]) = None \<and> compatible B cp cur t0"
  shows "fsh ok (\<lambda>t. t = t0) (writeCleanPayload E rng T cp)
    (\<lambda>r t. write_outcome E B cur t0 cp r t \<and> (g \<longrightarrow> r = Inr ()))"
    (is "fsh ok _ _ ?R")
proof -
  have ok0: "ok t0" by (rule okA [OF phaseA_refl [OF m]])
  have g': "g \<Longrightarrow> no_faults E \<and> no_conflict cp \<and> fresh_names E B t0 \<and> fs_get t0 (B @ [newDataDirName]) = None"
    using g by simp
  have new: "fsh ok (\<lambda>t. t = t0) (writeNewVersion E rng T cp (case cur of None \<Rightarrow> [] | Some vo \<Rightarrow> vo) R) ?R"
    if "\<And>p. p |\<in>| R \<Longrightarrow> removable cp p"
      "\<And>p. p |\<in>| R \<Longrightarrow> CHR ''/'' \<notin> set p \<Longrightarrow> \<exists>vo. cur = Some vo \<and> fs_get t0 (B @ [vo, p]) \<noteq> None" for R
    by (rule fsh_conseq [OF fsh_writeNewVersion [where ok = ok and cp = cp, OF T rng up okA okB os nrl that refl managedD(4) [OF m] g']])
      (use phaseA_refl [OF m] outcome_write [OF up] in auto)
  note rl = fsh_Readlink_data [where ok = ok, OF T m ok0 nrl]
  show ?thesis
  proof (cases cur)
    case None
    with rl have rl': "fsh ok (\<lambda>t. t = t0) (Readlink E (path_Join [T, dataDirName]))
      (\<lambda>r t. t = t0 \<and> r = Inl ENOENT)" by simp
    have "fsh ok (\<lambda>t. t = t0) (writeNewVersion E rng T cp [] {||}) ?R" using new [of "{||}"] None by simp
    then show ?thesis unfolding writeCleanPayload_def by (intro fsh_bind_value [OF rl']) (simp add: IsNotExist_def)
  next
    case (Some vo)
    with rl have rl': "fsh ok (\<lambda>t. t = t0) (Readlink E (path_Join [T, dataDirName]))
      (\<lambda>r t. t = t0 \<and> r = Inr vo)" by simp
    from Some m have mv: "managed B (Some vo) t0" by simp
    have vo: "version_name vo" "vo \<noteq> []" using managedD(4) [OF mv] by (auto simp: version_name_def)
    then have path: "abs_path (path_Join [T, vo]) (B @ [vo])"
      by (intro abs_path_child [OF T]) (simp add: version_name_def)
    have gs: "g \<Longrightarrow> no_faults E \<and> compatible B cp (Some vo) t0" using g Some by simp
    have rest: "fsh ok (\<lambda>t. t = t0) (do {
        toRemove \<leftarrow> pathsToRemove E rng cp (path_Join [T, vo]);
        should \<leftarrow> shouldWritePayload E rng cp (path_Join [T, vo]);
        case should of
          Inl e \<Rightarrow> State_Monad.return (Inl e)
        | Inr b \<Rightarrow>
            if \<not> b \<and> toRemove = {||} then State_Monad.return (Inr ())
            else writeNewVersion E rng T cp vo toRemove
      }) ?R"
    proof (rule fsh_bind [OF fsh_pathsToRemove [where ok = ok, OF T mv up rng ok0]], rule fsh_assume)
      fix R t assume "t = t0 \<and> stale_paths E B cp vo t0 R"
      then show "stale_paths E B cp vo t0 R" by simp
    next
      fix R assume R: "stale_paths E B cp vo t0 R"
      have n: "fsh ok (\<lambda>t. t = t0) (writeNewVersion E rng T cp vo R)
          (\<lambda>r t. write_outcome E B (Some vo) t0 cp r t \<and> (g \<longrightarrow> r = Inr ()))"
        using new [of R] R Some unfolding stale_paths_def by simp
      show "fsh ok (\<lambda>t. t = t0 \<and> stale_paths E B cp vo t0 R) (do {
          should \<leftarrow> shouldWritePayload E rng cp (path_Join [T, vo]);
          case should of
            Inl e \<Rightarrow> State_Monad.return (Inl e)
          | Inr b \<Rightarrow>
              if \<not> b \<and> R = {||} then State_Monad.return (Inr ())
              else writeNewVersion E rng T cp vo R
        }) ?R"
        unfolding Some by (rule fsh_pre [OF fsh_writeUnlessSame [OF path rng up mv ok0 gs R n]]) simp_all
    qed
    from rest vo(2) show ?thesis
      unfolding writeCleanPayload_def by (intro fsh_bind_value [OF rl']) (simp add: Let_def)
  qed
qed

end
