(* ===== verification/Atomic_Writer_Spec.thy ===== *)
theory Atomic_Writer_Spec
  imports Atomic_Writer_Correct
begin

text \<open>
  What the atomic writer promises, over \<^verbatim>\<open>validatePath\<close>, \<^verbatim>\<open>validatePayload\<close> and \<^verbatim>\<open>Write\<close> of
  \<^verbatim>\<open>atomic_writer.go\<close>: payload keys stay in the target directory, an invalid payload touches
  nothing, a reader sees the old version or the payload at every moment and a success projects
  the payload, whatever calls fail other than the reading of links, and without failures a write
  succeeds.  A failure to read a link is what the writer does not survive: it reports success
  without making the file visible.  A temporary link that an interrupted write left behind makes
  every later write that is needed fail.
\<close>

lemma range_ok_sorted: "range_ok (\<lambda>_ S. sorted_list_of_fset S)"
  by (simp add: range_ok_def sorted_list_of_fset.rep_eq)

section \<open>Validation\<close>

lemma validate_items_None:
  "validate_items p items = None \<longleftrightarrow> list_all (\<lambda>i. i \<noteq> ''..'' \<and> length i \<le> maxFileNameLength) items"
  by (induction items) auto

text \<open>\<^verbatim>\<open>validatePath\<close> accepts exactly the relative paths within the two length limits that have no \<^verbatim>\<open>..\<close> component and whose first component does not start with \<^verbatim>\<open>..\<close>.\<close>

theorem validatePath_accepts:
  "validatePath k = None \<longleftrightarrow>
     k \<noteq> [] \<and> \<not> path_IsAbs k \<and> length k \<le> maxPathLength \<and>
     list_all (\<lambda>i. i \<noteq> ''..'' \<and> length i \<le> maxFileNameLength) (split_slash k) \<and>
     \<not> prefix ''..'' (hd (split_slash k))"
proof -
  have "length c \<le> 2 \<and> prefix ''..'' c \<longleftrightarrow> c = ''..''" for c :: string
    by (auto simp: prefix_def)
  then have dd: "prefix ''..'' c \<longleftrightarrow> (prefix ''..'' c \<and> length c > 2) \<or> c = ''..''" for c :: string
    by (metis not_less)
  have "hd (split_slash k) \<in> set (split_slash k)" using split_slash_nonempty by (rule hd_in_set)
  then have "list_all (\<lambda>i. i \<noteq> ''..'' \<and> length i \<le> maxFileNameLength) (split_slash k) \<Longrightarrow>
      hd (split_slash k) \<noteq> ''..''" by (auto simp: list_all_iff)
  moreover have "validatePath k = None \<longleftrightarrow> k \<noteq> [] \<and> \<not> path_IsAbs k \<and> length k \<le> maxPathLength \<and>
      validate_items k (split_slash k) = None \<and>
      \<not> (prefix ''..'' (hd (split_slash k)) \<and> length (hd (split_slash k)) > 2)"
    by (cases "validate_items k (split_slash k)") (auto simp: validatePath_def)
  ultimately show ?thesis
    unfolding validate_items_None using dd [of "hd (split_slash k)"] by blast
qed

lemma validatePath_comps: "validatePath k = None \<Longrightarrow> ''..'' \<notin> set (path_comps k)"
  by (auto simp: validatePath_def Let_def dotdot_path_comps validate_items_None list_all_iff
      split: if_splits option.splits)

lemma validatePath_rel: "validatePath k = None \<Longrightarrow> \<not> path_IsAbs k"
  by (auto simp: validatePath_def split: if_splits)

text \<open>C35: A key that \<^verbatim>\<open>validatePath\<close> accepts, cleaned and joined to the target directory, stays inside it: the components of the result are those of the directory followed by those of the key, none of them \<^verbatim>\<open>..\<close>.\<close>

theorem validatePath_stays_inside:
  assumes "validatePath k = None" "abs_path T B"
  shows "abs_path (path_Join [T, path_Clean k]) (B @ path_comps k)"
proof -
  have "''..'' \<notin> set (path_comps k)" by (rule validatePath_comps [OF assms(1)])
  then show ?thesis
    using abs_path_Join [OF assms(2), of "path_Clean k"] path_comps_Clean by simp
qed

theorem validatePath_stays_inside_witness:
  "abs_path (path_Join [''/certs'', path_Clean ''ca//./key.pem'']) ([''certs''] @ path_comps ''ca//./key.pem'')"
  by (rule validatePath_stays_inside)
    (code_simp, simp add: abs_path_def path_IsAbs_def path_comps_def)

text \<open>The check that a key does not start with \<^verbatim>\<open>..\<close> looks at the key before it is cleaned: \<^verbatim>\<open>./..data\<close> is accepted, and its cleaned form is the writer's own data link.\<close>

theorem validatePath_accepts_data_link:
  "validatePath ''./..data'' = None \<and> path_Clean ''./..data'' = dataDirName"
  by code_simp

section \<open>Cleaning the payload\<close>

lemma path_Clean_rel:
  assumes "\<not> path_IsAbs k" "''..'' \<notin> set (path_comps k)" "path_comps k \<noteq> []"
  shows "path_Clean k = join_slash (path_comps k)"
proof -
  have "clean_comps False [] (split_slash k) = path_comps k"
    using assms(2) by (simp add: dotdot_path_comps clean_comps_plain path_comps_def)
  moreover have "k \<noteq> []" using assms(3) by auto
  ultimately show ?thesis using assms by (simp add: path_Clean_def)
qed

lemma validatePayload_loop_Inr:
  "validatePayload_loop p ks acc = Inr cp \<Longrightarrow>
    list_all (\<lambda>k. validatePath k = None) ks \<and>
    (\<forall>x. fmlookup cp x = fmlookup acc x \<and> x \<notin> path_Clean ` set ks \<or>
      (\<exists>k \<in> set ks. x = path_Clean k \<and> fmlookup cp x = Some (the (fmlookup p k))))"
proof (induction ks arbitrary: acc)
  case (Cons k ks)
  then have v: "validatePath k = None"
    and *: "validatePayload_loop p ks (fmupd (path_Clean k) (the (fmlookup p k)) acc) = Inr cp"
    by (auto split: option.splits)
  show ?case
  proof (intro conjI allI)
    show "list_all (\<lambda>k. validatePath k = None) (k # ks)" using v Cons.IH [OF *] by simp
    fix x
    have "fmlookup cp x = fmlookup (fmupd (path_Clean k) (the (fmlookup p k)) acc) x \<and> x \<notin> path_Clean ` set ks \<or>
      (\<exists>k \<in> set ks. x = path_Clean k \<and> fmlookup cp x = Some (the (fmlookup p k)))"
      using Cons.IH [OF *] by blast
    then show "fmlookup cp x = fmlookup acc x \<and> x \<notin> path_Clean ` set (k # ks) \<or>
      (\<exists>k \<in> set (k # ks). x = path_Clean k \<and> fmlookup cp x = Some (the (fmlookup p k)))"
      by (cases "x = path_Clean k") auto
  qed
qed simp

lemma validatePayload_Inr:
  assumes "validatePayload rng p = Inr cp" "range_ok rng"
  shows "k |\<in>| fmdom p \<Longrightarrow> validatePath k = None"
    and "x |\<in>| fmdom cp \<Longrightarrow> \<exists>k. k |\<in>| fmdom p \<and> x = path_Clean k \<and> fmlookup cp x = fmlookup p k"
    and "k |\<in>| fmdom p \<Longrightarrow> path_Clean k |\<in>| fmdom cp"
proof -
  note * = validatePayload_loop_Inr [OF assms(1) [unfolded validatePayload_def], unfolded range_okD(2) [OF assms(2)]]
  show "k |\<in>| fmdom p \<Longrightarrow> validatePath k = None"
    using * range_okD(2) [OF assms(2)] by (auto simp: list_all_iff)
  have l: "fmlookup cp x = None \<and> x \<notin> path_Clean ` fset (fmdom p) \<or>
      (\<exists>k \<in> fset (fmdom p). x = path_Clean k \<and> fmlookup cp x = Some (the (fmlookup p k)))" for x
    using * by simp
  show "x |\<in>| fmdom cp \<Longrightarrow> \<exists>k. k |\<in>| fmdom p \<and> x = path_Clean k \<and> fmlookup cp x = fmlookup p k"
    using l [of x] by (fastforce simp: fmlookup_dom_iff)
  show "k |\<in>| fmdom p \<Longrightarrow> path_Clean k |\<in>| fmdom cp"
    using l [of "path_Clean k"] by (auto simp: fmlookup_dom_iff)
qed

lemma validatePayload_valid:
  assumes "\<And>k. k |\<in>| fmdom p \<Longrightarrow> validatePath k = None" "range_ok rng"
  shows "\<exists>cp. validatePayload rng p = Inr cp"
proof -
  have "\<exists>cp. validatePayload_loop p ks acc = Inr cp" if "\<forall>k \<in> set ks. validatePath k = None" for ks acc
    using that by (induction ks arbitrary: acc) auto
  then show ?thesis using assms range_okD(2) [OF assms(2)] by (simp add: validatePayload_def)
qed

lemma payload_comps_clean:
  assumes "validatePayload rng p = Inr cp" "range_ok rng"
  shows "payload_comps cp = path_comps ` fset (fmdom p)"
proof -
  have "fset (fmdom cp) = path_Clean ` fset (fmdom p)"
    using validatePayload_Inr(2,3) [OF assms] by blast
  moreover have "path_comps (path_Clean k) = path_comps k" if "k |\<in>| fmdom p" for k
    by (rule path_comps_Clean [OF validatePath_comps [OF validatePayload_Inr(1) [OF assms that]]])
  ultimately show ?thesis by (simp add: payload_comps_def image_image)
qed

text \<open>Every key names a user-visible file.\<close>

definition visible_keys :: "payload \<Rightarrow> bool" where
  "visible_keys p \<longleftrightarrow> list_all (\<lambda>k. user_comps (path_comps k)) (sorted_list_of_fset (fmdom p))"

lemma visible_keys_iff: "visible_keys p \<longleftrightarrow> (\<forall>k. k |\<in>| fmdom p \<longrightarrow> user_comps (path_comps k))"
  by (auto simp: visible_keys_def list_all_iff)

lemma clean_user_payload:
  assumes "validatePayload rng p = Inr cp" "range_ok rng" "visible_keys p"
  shows "user_payload cp"
  unfolding user_payload_def
proof (intro allI impI)
  fix x assume "x |\<in>| fmdom cp"
  then obtain k where k: "k |\<in>| fmdom p" "x = path_Clean k"
    using validatePayload_Inr(2) [OF assms(1,2)] by blast
  then have v: "validatePath k = None" and u: "user_comps (path_comps k)"
    using validatePayload_Inr(1) [OF assms(1,2)] assms(3) by (auto simp: visible_keys_iff)
  then have "x = join_slash (path_comps k)"
    using k path_Clean_rel validatePath_rel validatePath_comps by (auto simp: user_comps_def)
  moreover have "path_comps x = path_comps k"
    using k(2) path_comps_Clean validatePath_comps [OF v] by simp
  ultimately show "user_comps (path_comps x) \<and> join_slash (path_comps x) = x" using u by simp
qed

text \<open>A payload with an invalid key is refused, and nothing is read or written.\<close>

theorem Write_refuses_invalid:
  assumes "range_ok rng" "k |\<in>| fmdom p" "validatePath k = Some e"
  shows "\<exists>e'. run_state (Write E rng T p) s = (Inl (InvalidPath e'), s)"
proof -
  have inv: "\<exists>e'. x = InvalidPath e'" if "validatePayload_loop p ks acc = Inl x" for ks acc x
    using that by (induction ks arbitrary: acc) (auto split: option.splits)
  obtain x where "validatePayload rng p = Inl x"
    using validatePayload_Inr(1) [OF _ assms(1,2)] assms(3) by (cases "validatePayload rng p") auto
  with inv show ?thesis by (fastforce simp: Write_def validatePayload_def)
qed

theorem Write_refuses_invalid_witness:
  "\<forall>E T s. \<exists>e'. run_state (Write E (\<lambda>_ S. sorted_list_of_fset S) T
     (fmap_of_list [(''tls/../../key'', \<lparr>Data = [0x78], Mode = 0x180\<rparr>)])) s = (Inl (InvalidPath e'), s)"
proof (intro allI, rule Write_refuses_invalid)
  show "range_ok (\<lambda>_ S. sorted_list_of_fset S)" by (rule range_ok_sorted)
  show "validatePath ''tls/../../key'' = Some ''invalid path: must not contain '..': tls/../../key''"
    by code_simp
qed simp

section \<open>Writing\<close>

text \<open>
  A call of \<^verbatim>\<open>Write\<close>: the target directory is one the writer manages (a new one, or as an
  earlier write left it), the payload's keys name user-visible files, the run-time's orders
  list what they range over, and the system is not Windows.
\<close>

definition write_call ::
  "os_env \<Rightarrow> range_order \<Rightarrow> string \<Rightarrow> fpath \<Rightarrow> string option \<Rightarrow> payload \<Rightarrow> os \<Rightarrow> bool" where
  "write_call E rng T B cur p s \<longleftrightarrow>
     abs_path T B \<and> range_ok rng \<and> managed B cur (os_fs s) \<and> os_hist s = [] \<and> visible_keys p \<and>
     env_GOOS E \<noteq> ''windows''"

text \<open>
  Links can be read: the system call reports that there is no link where there is none, but no
  other error (no I/O error, no permission denied).  The properties that need this say so; that
  they do need it is shown in theory \<open>Readlink_Faults\<close>.
\<close>

definition readlink_works :: "os_env \<Rightarrow> bool" where
  "readlink_works E \<longleftrightarrow> (\<forall>i. env_fault E i SYS_readlink = None)"

lemma readlink_worksD: "readlink_works E \<Longrightarrow> env_fault E i SYS_readlink = None"
  by (simp add: readlink_works_def)

lemma no_faults_readlink: "no_faults E \<Longrightarrow> readlink_works E"
  by (simp add: no_faults_def readlink_works_def)

lemma Write_outcome:
  assumes call: "write_call E rng T B cur p s" and rl: "readlink_works E"
    and g: "\<And>cp. g \<Longrightarrow> validatePayload rng p = Inr cp \<Longrightarrow> no_faults E \<and> no_conflict cp \<and>
      fresh_names E B (os_fs s) \<and> fs_get (os_fs s) (B @ [newDataDirName]) = None \<and>
      compatible B cp cur (os_fs s)"
    and run: "run_state (Write E rng T p) s = (r, s')"
    and clean: "validatePayload rng p = Inr cp"
  shows "user_payload cp" "write_outcome E B cur (os_fs s) cp (case r of Inl _ \<Rightarrow> Inl EIO | Inr u \<Rightarrow> Inr u) (os_fs s')"
    and "h \<in> set (os_hist s') \<Longrightarrow> phaseA B cur (os_fs s) h \<or> (\<exists>v. phaseB B cp v h)"
    and "g \<Longrightarrow> r = Inr ()"
proof -
  let ?ok = "\<lambda>h. phaseA B cur (os_fs s) h \<or> (\<exists>v. phaseB B cp v h)"
  note c = call [unfolded write_call_def]
  show up: "user_payload cp" using clean_user_payload [OF clean] c by blast
  obtain r0 where r0: "run_state (writeCleanPayload E rng T cp) s = (r0, s')"
    and r: "r = (case r0 of Inl e \<Rightarrow> Inl (OsError e) | Inr u \<Rightarrow> Inr u)"
    using run clean by (auto simp: Write_def os_result_def split: prod.splits)
  have w: "fsh ?ok (\<lambda>t. t = os_fs s) (writeCleanPayload E rng T cp)
      (\<lambda>r t. write_outcome E B cur (os_fs s) cp r t \<and> (g \<longrightarrow> r = Inr ()))"
  proof (rule fsh_writeCleanPayload)
    show "abs_path T B" "range_ok rng" "managed B cur (os_fs s)" "env_GOOS E \<noteq> ''windows''"
      "env_fault E i SYS_readlink = None" for i using c rl by (simp_all add: readlink_works_def)
  qed (rule up, blast, blast, use g clean in simp)
  have h0: "\<forall>h \<in> set (os_hist s). ?ok h" using c by simp
  have out: "write_outcome E B cur (os_fs s) cp r0 (os_fs s')" "g \<longrightarrow> r0 = Inr ()"
    and hist: "\<forall>h \<in> set (os_hist s'). ?ok h"
    using fshD [OF w _ h0 r0] by simp_all
  from out r show "write_outcome E B cur (os_fs s) cp (case r of Inl _ \<Rightarrow> Inl EIO | Inr u \<Rightarrow> Inr u) (os_fs s')"
    by (cases r0) (auto simp: write_outcome_def)
  from hist show "h \<in> set (os_hist s') \<Longrightarrow> ?ok h" by blast
  from out(2) r show "g \<Longrightarrow> r = Inr ()" by simp
qed

lemma Write_invalid:
  "run_state (Write E rng T p) s = (r, s') \<Longrightarrow> validatePayload rng p = Inl e \<Longrightarrow> r = Inl e \<and> s' = s"
  by (auto simp: Write_def)

text \<open>What a reader of the target directory sees: for each user-visible path, a file or nothing.\<close>

definition shows_same :: "os_env \<Rightarrow> string \<Rightarrow> fs \<Rightarrow> fs \<Rightarrow> bool" where
  "shows_same E T t t' \<longleftrightarrow>
     (\<forall>ks. user_comps ks \<longrightarrow> read_path E t' (path_Join [T, join_slash ks]) = read_path E t (path_Join [T, join_slash ks]))"

definition shows_payload :: "os_env \<Rightarrow> string \<Rightarrow> payload \<Rightarrow> fs \<Rightarrow> bool" where
  "shows_payload E T cp t \<longleftrightarrow>
     (\<forall>ks. user_comps ks \<longrightarrow> read_path E t (path_Join [T, join_slash ks]) = payload_view cp ks)"

lemma phaseA_same:
  assumes "abs_path T B" "managed B cur t0" "phaseA B cur t0 t"
  shows "shows_same E T t0 t"
  using visible [OF assms(2,1), of _ E] visible [OF _ assms(1), of cur t _ E] assms(3) phaseA_view [OF assms(3)]
  by (simp add: shows_same_def phaseA_def)

lemma phaseB_shows:
  assumes "abs_path T B" "phaseB B cp v t"
  shows "shows_payload E T cp t"
  using visible [OF _ assms(1), of "Some v" t _ E] assms(2)
  by (simp add: shows_payload_def phaseB_def view_def)

text \<open>C4: As long as links can be read, and whatever other system calls fail, at every moment of a write a reader of the user-visible paths sees either exactly what was there before or exactly the payload, never a mixture; the same holds of the file system the write leaves.\<close>

theorem Write_atomic:
  assumes "write_call E rng T B cur p s" "readlink_works E" "run_state (Write E rng T p) s = (r, s')"
    and "h \<in> set (os_fs s' # os_hist s')"
  shows "shows_same E T (os_fs s) h \<or> (\<exists>cp. validatePayload rng p = Inr cp \<and> shows_payload E T cp h)"
proof (cases "validatePayload rng p")
  case (Inl e)
  with assms Write_invalid [OF assms(3)] show ?thesis
    by (auto simp: write_call_def shows_same_def)
next
  case (Inr cp)
  have TB: "abs_path T B" and m: "managed B cur (os_fs s)" using assms(1) by (auto simp: write_call_def)
  note out = Write_outcome [where g = False, OF assms(1,2) _ assms(3) Inr, simplified]
  have "phaseA B cur (os_fs s) h \<or> (\<exists>v. phaseB B cp v h)"
    using out(2,3) assms(4) by (auto simp: write_outcome_def)
  with phaseA_same [OF TB m] phaseB_shows [OF TB] Inr show ?thesis by blast
qed

text \<open>C21: As long as links can be read, and whatever other calls fail, a write leaves a directory that the writer manages: the next write's premise holds again.\<close>

theorem Write_keeps_managed:
  assumes "write_call E rng T B cur p s" "readlink_works E" "run_state (Write E rng T p) s = (r, s')"
  shows "\<exists>cur'. managed B cur' (os_fs s')"
proof (cases "validatePayload rng p")
  case (Inl e)
  with assms Write_invalid [OF assms(3)] show ?thesis by (auto simp: write_call_def)
next
  case (Inr cp)
  note out = Write_outcome [where g = False, OF assms(1,2) _ assms(3) Inr, simplified]
  show ?thesis using out(2) by (auto simp: write_outcome_def phaseA_def phaseB_def)
qed

lemma Write_projected:
  assumes "write_call E rng T B cur p s" "readlink_works E" "run_state (Write E rng T p) s = (Inr (), s')"
    and "validatePayload rng p = Inr cp"
  shows "(\<forall>k d. fmlookup cp k = Some d \<longrightarrow> read_path E (os_fs s') (path_Join [T, k]) = Some (Data d)) \<and>
     (walk_reliable E \<longrightarrow> shows_payload E T cp (os_fs s'))"
proof -
  have TB: "abs_path T B" using assms(1) by (auto simp: write_call_def)
  note out = Write_outcome [where g = False, OF assms(1,2) _ assms(3,4), simplified]
  from out(2) obtain v where v: "managed B (Some v) (os_fs s')"
    "\<forall>ks \<in> payload_comps cp. view B (Some v) (os_fs s') ks = payload_view cp ks"
    "walk_reliable E \<longrightarrow> (\<forall>ks. user_comps ks \<longrightarrow> view B (Some v) (os_fs s') ks = payload_view cp ks)"
    by (auto simp: write_outcome_def projected_def)
  note vis = visible [OF v(1) TB, of _ E]
  have "read_path E (os_fs s') (path_Join [T, k]) = Some (Data d)" if "fmlookup cp k = Some d" for k d
  proof -
    have k: "k |\<in>| fmdom cp" using that by (simp add: fmlookup_dom_iff)
    note K = payload_key [OF out(1) k]
    have "user_comps (path_comps k)" using K(1,2,3) by (simp add: user_comps_def)
    from vis [OF this] show ?thesis using K that v(2) by simp
  qed
  with v(3) vis show ?thesis by (auto simp: shows_payload_def)
qed

text \<open>C20: As long as links can be read, and whatever other calls fail, a write that reports success leaves every file of the payload under the target directory with its content and, unless the walk of the old version failed, no other user-visible file.\<close>

theorem Write_success_projects:
  assumes "write_call E rng T B cur p s" "readlink_works E" "run_state (Write E rng T p) s = (Inr (), s')"
  shows "\<exists>cp. validatePayload rng p = Inr cp \<and>
     (\<forall>k d. fmlookup cp k = Some d \<longrightarrow> read_path E (os_fs s') (path_Join [T, k]) = Some (Data d)) \<and>
     (walk_reliable E \<longrightarrow> shows_payload E T cp (os_fs s'))"
proof (cases "validatePayload rng p")
  case (Inl e)
  with Write_invalid [OF assms(3)] show ?thesis by simp
next
  case (Inr cp)
  with Write_projected [OF assms Inr] show ?thesis by blast
qed

text \<open>
  A write with nothing in its way: no call fails, no key of the payload is below another, the
  names the run-time picks for the new directory are free, no temporary link is left over, and
  the current version has no directory where the payload has a file, nor the reverse.
\<close>

definition unobstructed :: "os_env \<Rightarrow> fpath \<Rightarrow> string option \<Rightarrow> payload \<Rightarrow> fs \<Rightarrow> bool" where
  "unobstructed E B cur cp t \<longleftrightarrow>
     no_faults E \<and> no_conflict cp \<and> fresh_names E B t \<and>
     fs_get t (B @ [newDataDirName]) = None \<and> compatible B cp cur t"

lemma Write_ok:
  assumes "write_call E rng T B cur p s" "run_state (Write E rng T p) s = (r, s')"
    and "validatePayload rng p = Inr cp" "unobstructed E B cur cp (os_fs s)"
  shows "r = Inr ()"
  by (rule Write_outcome(4) [where g = True, OF assms(1) _ _ assms(2,3)])
    (use assms(3,4) in \<open>auto simp: unobstructed_def no_faults_readlink\<close>)

text \<open>C22: A write of a valid payload with nothing in its way succeeds, and afterwards a reader sees exactly the payload.\<close>

theorem Write_succeeds:
  assumes "write_call E rng T B cur p s" "run_state (Write E rng T p) s = (r, s')"
    and "validatePayload rng p = Inr cp" "unobstructed E B cur cp (os_fs s)"
  shows "r = Inr () \<and> shows_payload E T cp (os_fs s')"
proof -
  have r: "r = Inr ()" by (rule Write_ok [OF assms])
  have rel: "walk_reliable E" using assms(4) by (simp add: unobstructed_def walk_reliable_def no_faults_def)
  have "readlink_works E" using assms(4) by (simp add: unobstructed_def no_faults_readlink)
  note out = Write_outcome [where g = False, OF assms(1) this _ assms(2,3), simplified]
  have TB: "abs_path T B" using assms(1) by (auto simp: write_call_def)
  from out(2) r rel obtain v where v: "managed B (Some v) (os_fs s')"
    "\<forall>ks. user_comps ks \<longrightarrow> view B (Some v) (os_fs s') ks = payload_view cp ks"
    by (auto simp: write_outcome_def projected_def)
  from visible [OF v(1) TB, of _ E] v(2) have "shows_payload E T cp (os_fs s')"
    by (simp add: shows_payload_def)
  with r show ?thesis by simp
qed

text \<open>
  C23: A temporary data link that an interrupted write left behind is never cleared.  While it is
  there, and links can be read, every write of a valid payload with anything to change fails and
  leaves what readers see as it was, whatever other calls do: a write of a file that a reader does
  not see with that content and, unless the walk of the old version fails, a write that only has
  files to remove.
\<close>

theorem Write_blocked_by_stale_link:
  assumes "write_call E rng T B cur p s" "readlink_works E" "run_state (Write E rng T p) s = (r, s')"
    and "fs_get (os_fs s) (B @ [newDataDirName]) \<noteq> None"
    and "validatePayload rng p = Inr cp"
    and "(\<exists>k d. fmlookup cp k = Some d \<and> read_path E (os_fs s) (path_Join [T, k]) \<noteq> Some (Data d)) \<or>
      walk_reliable E \<and> \<not> shows_payload E T cp (os_fs s)"
  shows "(\<exists>e. r = Inl e) \<and> shows_same E T (os_fs s) (os_fs s')"
proof -
  have TB: "abs_path T B" and m: "managed B cur (os_fs s)" using assms(1) by (auto simp: write_call_def)
  note out = Write_outcome [where g = False, OF assms(1,2) _ assms(3,5), simplified]
  from out(2) assms(4) have "phaseA B cur (os_fs s) (os_fs s')" by (auto simp: write_outcome_def)
  then have same: "shows_same E T (os_fs s) (os_fs s')" by (rule phaseA_same [OF TB m])
  have "r \<noteq> Inr ()"
  proof
    assume r: "r = Inr ()"
    with out(2) assms(4) have s': "os_fs s' = os_fs s" by (auto simp: write_outcome_def)
    from Write_projected [OF assms(1-3) [unfolded r] assms(5)]
    have "\<forall>k d. fmlookup cp k = Some d \<longrightarrow> read_path E (os_fs s) (path_Join [T, k]) = Some (Data d)"
      "walk_reliable E \<longrightarrow> shows_payload E T cp (os_fs s)" unfolding s' by blast+
    with assms(6) show False by blast
  qed
  with same show ?thesis by (cases r) auto
qed

section \<open>The loop over the paths above a file\<close>

lemma trim_Split_join:
  assumes "us \<noteq> []" "\<forall>w \<in> set (us @ [w]). CHR ''/'' \<notin> set w"
  shows "trim_suffix (fst (path_Split (join_slash (us @ [w])))) ''/'' = join_slash us"
proof -
  have "split_slash (join_slash (us @ [w])) = us @ [w]" by (rule split_join) (use assms in auto)
  then have "fst (path_Split (join_slash (us @ [w]))) = join_slash us @ ''/''"
    using assms(1) by (simp add: path_Split_def join_slash_snoc)
  then show ?thesis by simp
qed

lemma subPaths_rounds:
  "\<forall>w \<in> set ws. CHR ''/'' \<notin> set w \<Longrightarrow> length (subPaths (join_slash ws)) \<le> length ws"
proof (induction ws rule: rev_induct)
  case Nil
  then show ?case by (simp add: subPaths.simps)
next
  case (snoc w us)
  show ?case
  proof (cases "us = []")
    case True
    then have "trim_suffix (fst (path_Split (join_slash (us @ [w])))) ''/'' = []"
      using snoc.prems by (simp add: path_Split_def trim_suffix_def)
    then show ?thesis by (subst subPaths.simps) (simp add: subPaths.simps)
  next
    case False
    then have "trim_suffix (fst (path_Split (join_slash (us @ [w])))) ''/'' = join_slash us"
      by (rule trim_Split_join) (use snoc.prems in simp)
    then show ?thesis using snoc by (subst subPaths.simps) simp
  qed
qed

lemma split_slash_count: "length (split_slash s) = Suc (count_list s (CHR ''/''))"
  by (induction s) (auto split: list.split)

text \<open>C37: The inner loop of \<^verbatim>\<open>pathsToRemove\<close> ends for every string, after at most one round more than the string has slashes; for the path of a payload it lists the path and every directory above it, and nothing else.\<close>

theorem subPaths_terminates:
  "length (subPaths s) \<le> Suc (count_list s (CHR ''/'')) \<and>
   (list_all plain_comp ks \<longrightarrow> set (subPaths (join_slash ks)) = join_slash ` {p. p \<noteq> [] \<and> prefix p ks})"
  using subPaths_rounds [of "split_slash s"] split_slash_no_slash [of _ s] subPaths_join [of ks]
  by (simp add: split_slash_count)

theorem subPaths_terminates_witness:
  "length (subPaths ''tls/ca.pem'') \<le> 2 \<and> ''tls'' \<in> set (subPaths ''tls/ca.pem'')"
proof -
  have p: "list_all plain_comp [''tls'', ''ca.pem'']" "join_slash [''tls'', ''ca.pem''] = ''tls/ca.pem''"
    by (simp_all add: plain_comp_def)
  have "''tls'' \<in> join_slash ` {p. p \<noteq> [] \<and> prefix p [''tls'', ''ca.pem'']}"
    by (rule image_eqI [where x = "[''tls'']"]) simp_all
  then show ?thesis using subPaths_terminates [of "''tls/ca.pem''" "[''tls'', ''ca.pem'']"] p by simp
qed

section \<open>Concrete writes\<close>

text \<open>A new target directory \<^verbatim>\<open>/certs\<close>, and the same with a temporary link left over.\<close>

definition certs_dir :: fs where
  "certs_dir = [([], Dir 0x1ED), ([''certs''], Dir 0x1ED)]"

definition certs_dir_stale :: fs where
  "certs_dir_stale = ([''certs'', newDataDirName], Link ''..2024_01_02_03_04_05.7'') # certs_dir"

definition calm_env :: os_env where
  "calm_env = \<lparr>env_fault = (\<lambda>_ _. None),
     env_now = (\<lambda>_. \<lparr>year = 2024, month = 1, day = 2, hour = 3, minute = 4, second = 5\<rparr>),
     env_rand = (\<lambda>i. word_of_nat i), env_umask = 0x12, env_cwd = [], env_GOOS = ''linux''\<rparr>"

definition sorted_range :: range_order where
  "sorted_range = (\<lambda>_ S. sorted_list_of_fset S)"

definition cert_payload :: payload where
  "cert_payload = fmap_of_list
     [(''tls/ca.pem'', \<lparr>Data = [1, 2], Mode = 0x1B6\<rparr>), (''./key.pem'', \<lparr>Data = [3], Mode = 0x180\<rparr>)]"

definition in_state :: "fs \<Rightarrow> os" where
  "in_state t = \<lparr>os_fs = t, os_hist = [], os_step = 0\<rparr>"

lemma certs_get:
  "fs_get certs_dir p = (if p = [] \<or> p = [''certs''] then Some (Dir 0x1ED) else None)"
  "fs_get certs_dir_stale p =
     (if p = [''certs'', newDataDirName] then Some (Link ''..2024_01_02_03_04_05.7'') else fs_get certs_dir p)"
  by (auto simp: certs_dir_def certs_dir_stale_def fs_get_def)

lemma managed_fresh: "managed [''certs''] None certs_dir" "managed [''certs''] None certs_dir_stale"
proof -
  have pl: "plain_comp ''certs''" by (simp add: plain_comp_def)
  have nn: "newDataDirName \<noteq> dataDirName" by (simp add: newDataDirName_def dataDirName_def)
  have t: "tree certs_dir"
    using pl unfolding tree_def is_dir_def by (simp add: certs_get append_eq_Cons_conv)
  moreover from this have "tree certs_dir_stale"
    unfolding tree_def is_dir_def by (auto simp: certs_get append_eq_Cons_conv split: if_splits)
  ultimately show "managed [''certs''] None certs_dir" "managed [''certs''] None certs_dir_stale"
    using nn not_user_name(2) unfolding managed_def is_dir_def by (auto simp: certs_get)
qed

definition flaky_env :: os_env where
  "flaky_env = calm_env\<lparr>env_fault := (\<lambda>i k. if k = SYS_rename then Some EIO else None)\<rparr>"

lemma cert_keys: "fset (fmdom cert_payload) = {''tls/ca.pem'', ''./key.pem''}"
  by (simp add: cert_payload_def fmap_of_list.rep_eq fmdom.rep_eq)

lemma cert_comps:
  "path_comps ''tls/ca.pem'' = [''tls'', ''ca.pem'']" "path_comps ''./key.pem'' = [''key.pem'']"
  "user_comps [''tls'', ''ca.pem'']" "user_comps [''key.pem'']"
  by code_simp+

lemma sorted_range_ok: "range_ok sorted_range"
  unfolding sorted_range_def by (rule range_ok_sorted)

lemma certs_path: "abs_path ''/certs'' [''certs'']"
  by (simp add: abs_path_def path_IsAbs_def path_comps_def)

lemma cert_call:
  assumes "managed [''certs''] None t" "E = calm_env \<or> E = flaky_env"
  shows "write_call E sorted_range ''/certs'' [''certs''] None cert_payload (in_state t)"
proof -
  have "visible_keys cert_payload"
    unfolding visible_keys_iff using cert_keys cert_comps by auto
  with assms sorted_range_ok certs_path show ?thesis
    by (auto simp: write_call_def in_state_def calm_env_def flaky_env_def)
qed

lemma cert_readlink: "readlink_works calm_env" "readlink_works flaky_env"
  by (simp_all add: readlink_works_def calm_env_def flaky_env_def)

lemma cert_clean: "\<exists>cp. validatePayload sorted_range cert_payload = Inr cp"
proof (rule validatePayload_valid [OF _ sorted_range_ok])
  have "validatePath ''tls/ca.pem'' = None" "validatePath ''./key.pem'' = None" by code_simp+
  then show "validatePath k = None" if "k |\<in>| fmdom cert_payload" for k using that cert_keys by auto
qed

lemma cert_unobstructed:
  assumes "validatePayload sorted_range cert_payload = Inr cp"
  shows "unobstructed calm_env [''certs''] None cp certs_dir"
proof -
  have "payload_comps cp = {[''tls'', ''ca.pem''], [''key.pem'']}"
    using payload_comps_clean [OF assms sorted_range_ok] cert_keys cert_comps by simp
  then have "no_conflict cp" by (simp add: no_conflict_def strict_prefix_def)
  then show ?thesis
    by (simp add: unobstructed_def no_faults_def calm_env_def fresh_names_def certs_get compatible_def)
qed

abbreviation cert_write :: "os_env \<Rightarrow> fs \<Rightarrow> (write_error + unit) \<times> os" where
  "cert_write E t \<equiv> run_state (Write E sorted_range ''/certs'' cert_payload) (in_state t)"

text \<open>Every rename fails: what a reader sees at the end is the old version or the payload.\<close>

theorem Write_atomic_witness:
  "shows_same flaky_env ''/certs'' certs_dir (os_fs (snd (cert_write flaky_env certs_dir))) \<or>
   (\<exists>cp. validatePayload sorted_range cert_payload = Inr cp \<and>
      shows_payload flaky_env ''/certs'' cp (os_fs (snd (cert_write flaky_env certs_dir))))"
  using Write_atomic [OF cert_call [OF managed_fresh(1), of flaky_env] cert_readlink(2) prod.collapse [symmetric], of _]
  by (simp add: in_state_def)

theorem Write_keeps_managed_witness:
  "\<exists>cur'. managed [''certs''] cur' (os_fs (snd (cert_write flaky_env certs_dir)))"
  by (rule Write_keeps_managed [OF cert_call [OF managed_fresh(1)] cert_readlink(2) prod.collapse [symmetric]]) simp

theorem Write_success_projects_witness:
  "\<exists>cp. validatePayload sorted_range cert_payload = Inr cp \<and>
     shows_payload calm_env ''/certs'' cp (os_fs (snd (cert_write calm_env certs_dir)))"
proof -
  note call = cert_call [OF managed_fresh(1) disjI1, OF refl]
  obtain cp where cp: "validatePayload sorted_range cert_payload = Inr cp" using cert_clean by blast
  have "fst (cert_write calm_env certs_dir) = Inr ()"
    by (rule Write_ok [OF call prod.collapse [symmetric] cp]) (simp add: in_state_def cert_unobstructed [OF cp])
  then have "cert_write calm_env certs_dir = (Inr (), snd (cert_write calm_env certs_dir))"
    by (metis prod.collapse)
  from Write_success_projects [OF call cert_readlink(1) this] show ?thesis
    by (auto simp: walk_reliable_def calm_env_def)
qed

theorem Write_succeeds_witness:
  "\<exists>cp. validatePayload sorted_range cert_payload = Inr cp \<and>
     fst (cert_write calm_env certs_dir) = Inr () \<and>
     shows_payload calm_env ''/certs'' cp (os_fs (snd (cert_write calm_env certs_dir)))"
proof -
  obtain cp where cp: "validatePayload sorted_range cert_payload = Inr cp" using cert_clean by blast
  from Write_succeeds [OF cert_call [OF managed_fresh(1) disjI1, OF refl] prod.collapse [symmetric] cp]
  show ?thesis using cp cert_unobstructed [OF cp] by (auto simp: in_state_def)
qed

theorem Write_blocked_by_stale_link_witness:
  "\<exists>e. fst (cert_write calm_env certs_dir_stale) = Inl e"
proof -
  obtain cp where cp: "validatePayload sorted_range cert_payload = Inr cp" using cert_clean by blast
  have k: "path_Clean ''./key.pem'' = join_slash [''key.pem'']" by code_simp
  have "path_Clean ''./key.pem'' |\<in>| fmdom cp"
    by (rule validatePayload_Inr(3) [OF cp sorted_range_ok]) (simp add: cert_keys)
  then obtain d where d: "fmlookup cp (join_slash [''key.pem'']) = Some d"
    unfolding k by (auto simp: fmlookup_dom_iff)
  have "read_path calm_env certs_dir_stale (path_Join [''/certs'', join_slash [''key.pem'']]) = None"
    using visible [OF managed_fresh(2) certs_path cert_comps(4)] by (simp add: view_def)
  then have "\<exists>k d. fmlookup cp k = Some d \<and> read_path calm_env certs_dir_stale (path_Join [''/certs'', k]) \<noteq> Some (Data d)"
    using d by fastforce
  with Write_blocked_by_stale_link [OF cert_call [OF managed_fresh(2) disjI1, OF refl] cert_readlink(1) prod.collapse [symmetric] _ cp]
  show ?thesis by (simp add: in_state_def certs_get)
qed

end
