(* ===== verification/Webhook_Util.thy ===== *)
theory Webhook_Util
  imports Raven_Prelude
begin

text \<open>
  The settings of the webhook (\<^verbatim>\<open>webhook/util/util.go\<close>), read from the process environment,
  which is a function from names to values (a name that is not set has the empty value).
\<close>

type_synonym getenv = "string \<Rightarrow> string"

section \<open>strconv.ParseInt\<close>

text \<open>\<^verbatim>\<open>strconv.ParseInt(s, 10, 32)\<close>; \<open>None\<close> is an error.\<close>

definition ParseInt32 :: "string \<Rightarrow> int option" where
  "ParseInt32 s =
     (let neg = (s \<noteq> [] \<and> hd s = CHR ''-'');
          ds = (if s \<noteq> [] \<and> (hd s = CHR ''-'' \<or> hd s = CHR ''+'') then tl s else s);
          n = int (dec_value ds)
      in if ds = [] \<or> \<not> list_all is_digit ds then None
         else if \<not> neg \<and> n \<ge> 2 ^ 31 then None
         else if neg \<and> n > 2 ^ 31 then None
         else Some (if neg then - n else n))"

section \<open>util.go\<close>

definition GetHost :: "getenv \<Rightarrow> string" where
  "GetHost env = env ''WEBHOOK_HOST''"

definition GetNamespace :: "getenv \<Rightarrow> string" where
  "GetNamespace env = (let ns = env ''POD_NAMESPACE'' in if length ns > 0 then ns else ''kube-system'')"

definition GetSecretName :: "getenv \<Rightarrow> string" where
  "GetSecretName env = (let n = env ''SECRET_NAME'' in if length n > 0 then n else ''raven-webhook-certs'')"

definition GetServiceName :: "getenv \<Rightarrow> string" where
  "GetServiceName env = (let n = env ''SERVICE_NAME'' in if length n > 0 then n else ''raven-webhook-service'')"

text \<open>\<open>None\<close>: \<^verbatim>\<open>klog.Fatalf\<close> ends the process.\<close>

definition GetPort :: "getenv \<Rightarrow> int option" where
  "GetPort env =
     (let p = env ''WEBHOOK_PORT''
      in if length p > 0 then ParseInt32 p else Some 9876)"

definition GetCertDir :: "getenv \<Rightarrow> string" where
  "GetCertDir env = (let p = env ''WEBHOOK_CERT_DIR'' in if length p > 0 then p else ''/tmp/raven-webhook-certs'')"

section \<open>Properties\<close>

lemma itoa_hd: "\<exists>c cs. itoa n = c # cs \<and> c \<noteq> CHR ''-'' \<and> c \<noteq> CHR ''+''"
proof -
  obtain c cs where c: "itoa n = c # cs" by (cases "itoa n") auto
  with itoa_digits [of n] have "is_digit c" by simp
  with c show ?thesis by (auto simp: is_digit_def)
qed

lemma ParseInt32_itoa: "ParseInt32 (itoa n) = (if n < 2 ^ 31 then Some (int n) else None)"
proof -
  obtain c cs where c: "itoa n = c # cs" "c \<noteq> CHR ''-''" "c \<noteq> CHR ''+''" using itoa_hd by blast
  have "dec_value (c # cs) = n" "list_all is_digit (c # cs)" using dec_value_itoa [of n] itoa_digits [of n] c(1) by simp_all
  then show ?thesis unfolding ParseInt32_def Let_def c(1) using c(2,3) by (simp add: nat_less_iff)
qed

lemma ParseInt32_bounds: "set_option (ParseInt32 s) \<subseteq> {- (2 ^ 31) ..< 2 ^ 31}"
proof -
  have "- (2 ^ 31) \<le> p \<and> p < 2 ^ 31" if p: "ParseInt32 s = Some p" for p
  proof -
    from p consider n where "p = - int n" "n \<le> 2 ^ 31" | n where "p = int n" "n < 2 ^ 31"
      unfolding ParseInt32_def Let_def by (fastforce split: if_splits)
    then show ?thesis by cases auto
  qed
  then show ?thesis by (cases "ParseInt32 s") auto
qed

text \<open>The port is the number written in WEBHOOK_PORT when it fits 31 bits, 9876 when the variable is empty, and the process ends on a number that is larger; whatever the variable holds, a port that is returned fits 32 bits with sign.\<close>

theorem GetPort_spec:
  "GetPort (env(''WEBHOOK_PORT'' := itoa n)) = (if n < 2 ^ 31 then Some (int n) else None) \<and>
   GetPort (env(''WEBHOOK_PORT'' := [])) = Some 9876 \<and>
   set_option (GetPort env) \<subseteq> {- (2 ^ 31) ..< 2 ^ 31}"
proof (intro conjI)
  show "GetPort (env(''WEBHOOK_PORT'' := itoa n)) = (if n < 2 ^ 31 then Some (int n) else None)"
    by (simp add: GetPort_def ParseInt32_itoa)
  show "GetPort (env(''WEBHOOK_PORT'' := [])) = Some 9876" by (simp add: GetPort_def)
  show "set_option (GetPort env) \<subseteq> {- (2 ^ 31) ..< 2 ^ 31}"
    using ParseInt32_bounds by (simp add: GetPort_def Let_def)
qed

end
