(* ===== verification/Webhook_Config.thy ===== *)
theory Webhook_Config
  imports Kube_Types Webhook_Util
begin

text \<open>
  The webhook configurations (\<^verbatim>\<open>webhook/util/configuration/configuration.go\<close>): \<^verbatim>\<open>Ensure\<close> points
  every webhook at this server and sets its CA bundle, working from a template that it keeps in
  an annotation.  JSON and the API server are parameters; \<open>lawful_json\<close> and \<open>lawful_configs\<close>
  state what they document.
\<close>

section \<open>Webhook configurations\<close>

record serviceReference =
  sr_Namespace :: string
  sr_Name :: string
  sr_Path :: "string option"
  sr_Port :: "int option"

record webhookClientConfig =
  wcc_URL :: "string option"
  wcc_Service :: "serviceReference option"
  wcc_CABundle :: byte_slice

text \<open>A webhook: the client configuration, and the fields the code does not mention.\<close>

record 'x webhook =
  wh_ClientConfig :: webhookClientConfig
  wh_other :: 'x

record 'x webhookConfiguration =
  wc_meta :: objectMeta
  wc_Webhooks :: "'x webhook list"

text \<open>\<^verbatim>\<open>json.Marshal\<close> and \<^verbatim>\<open>json.Unmarshal\<close> on lists of webhooks.\<close>

record 'x json =
  Marshal :: "'x webhook list \<Rightarrow> error + string"
  Unmarshal :: "string \<Rightarrow> error + 'x webhook list"

text \<open>The calls of the API client, on the two kinds of configuration.\<close>

record ('a, 'm, 'v) config_client =
  Get_Mutating :: "string \<Rightarrow> ('a, error + 'm webhookConfiguration) state"
  Get_Validating :: "string \<Rightarrow> ('a, error + 'v webhookConfiguration) state"
  Update_Mutating :: "'m webhookConfiguration \<Rightarrow> ('a, error option) state"
  Update_Validating :: "'v webhookConfiguration \<Rightarrow> ('a, error option) state"

text \<open>How a call may end without returning: a panic, or \<^verbatim>\<open>klog.Fatalf\<close> in \<^verbatim>\<open>GetPort\<close>.\<close>

datatype crash = Panic go_panic | Exit

section \<open>configuration.go\<close>

definition mutatingWebhookConfigurationName :: string where
  "mutatingWebhookConfigurationName = ''raven-mutating-webhook-configuration''"

definition validatingWebhookConfigurationName :: string where
  "validatingWebhookConfigurationName = ''raven-validating-webhook-configuration''"

definition convertClientConfig ::
  "webhookClientConfig \<Rightarrow> string \<Rightarrow> int \<Rightarrow> crash + webhookClientConfig" where
  "convertClientConfig clientConfig host port =
     (case wcc_Service clientConfig of
        None \<Rightarrow> Inl (Panic NilDereference)
      | Some service \<Rightarrow>
          (case sr_Path service of
             None \<Rightarrow> Inl (Panic NilDereference)
           | Some path \<Rightarrow>
               Inr (clientConfig
                 \<lparr>wcc_URL := Some (''https://'' @ host @ '':'' @ fmt_d port @ path), wcc_Service := None\<rparr>)))"

text \<open>A template that is missing is made from the configuration, which is changed in place.\<close>

definition parseMutatingTemplate ::
  "'m json \<Rightarrow> 'm webhookConfiguration \<Rightarrow> error + 'm webhook list \<times> 'm webhookConfiguration" where
  "parseMutatingTemplate J mutatingConfig =
     (let templateStr = str_map_get (meta_Annotations (wc_meta mutatingConfig)) ''template''
      in if length templateStr > 0 then
           (case Unmarshal J templateStr of
              Inl err \<Rightarrow> Inl err
            | Inr mutatingWHs \<Rightarrow> Inr (mutatingWHs, mutatingConfig))
         else
           (case Marshal J (wc_Webhooks mutatingConfig) of
              Inl err \<Rightarrow> Inl err
            | Inr templateBytes \<Rightarrow>
                let annotations =
                  (case meta_Annotations (wc_meta mutatingConfig) of None \<Rightarrow> fmempty | Some m \<Rightarrow> m)
                in Inr (wc_Webhooks mutatingConfig,
                     mutatingConfig\<lparr>wc_meta := (wc_meta mutatingConfig)
                       \<lparr>meta_Annotations := Some (fmupd ''template'' templateBytes annotations)\<rparr>\<rparr>)))"

definition parseValidatingTemplate ::
  "'v json \<Rightarrow> 'v webhookConfiguration \<Rightarrow> error + 'v webhook list \<times> 'v webhookConfiguration" where
  "parseValidatingTemplate J validatingConfig =
     (let templateStr = str_map_get (meta_Annotations (wc_meta validatingConfig)) ''template''
      in if length templateStr > 0 then
           (case Unmarshal J templateStr of
              Inl err \<Rightarrow> Inl err
            | Inr validatingWHs \<Rightarrow> Inr (validatingWHs, validatingConfig))
         else
           (case Marshal J (wc_Webhooks validatingConfig) of
              Inl err \<Rightarrow> Inl err
            | Inr templateBytes \<Rightarrow>
                let annotations =
                  (case meta_Annotations (wc_meta validatingConfig) of None \<Rightarrow> fmempty | Some m \<Rightarrow> m)
                in Inr (wc_Webhooks validatingConfig,
                     validatingConfig\<lparr>wc_meta := (wc_meta validatingConfig)
                       \<lparr>meta_Annotations := Some (fmupd ''template'' templateBytes annotations)\<rparr>\<rparr>)))"

text \<open>The body of both loops: one webhook's client configuration.\<close>

definition ensureClientConfig ::
  "getenv \<Rightarrow> byte_slice \<Rightarrow> webhookClientConfig \<Rightarrow> crash + webhookClientConfig" where
  "ensureClientConfig env caBundle cc =
     (let cc = cc\<lparr>wcc_CABundle := caBundle\<rparr>;
          cc = (case wcc_Service cc of
                  None \<Rightarrow> cc
                | Some service \<Rightarrow> cc\<lparr>wcc_Service :=
                    Some (service\<lparr>sr_Namespace := GetNamespace env, sr_Name := GetServiceName env\<rparr>)\<rparr>);
          host = GetHost env
      in if length host > 0 \<and> wcc_Service cc \<noteq> None then
           (case GetPort env of
              None \<Rightarrow> Inl Exit
            | Some port \<Rightarrow> convertClientConfig cc host port)
         else Inr cc)"

fun mutatingWHs_loop ::
  "getenv \<Rightarrow> byte_slice \<Rightarrow> 'm webhook list \<Rightarrow> 'm webhook list \<Rightarrow> crash + 'm webhook list" where
  "mutatingWHs_loop env caBundle [] mutatingWHs = Inr mutatingWHs"
| "mutatingWHs_loop env caBundle (wh # whs) mutatingWHs =
     (case ensureClientConfig env caBundle (wh_ClientConfig wh) of
        Inl c \<Rightarrow> Inl c
      | Inr cc \<Rightarrow> mutatingWHs_loop env caBundle whs (mutatingWHs @ [wh\<lparr>wh_ClientConfig := cc\<rparr>]))"

fun validatingWHs_loop ::
  "getenv \<Rightarrow> byte_slice \<Rightarrow> 'v webhook list \<Rightarrow> 'v webhook list \<Rightarrow> crash + 'v webhook list" where
  "validatingWHs_loop env caBundle [] validatingWHs = Inr validatingWHs"
| "validatingWHs_loop env caBundle (wh # whs) validatingWHs =
     (case ensureClientConfig env caBundle (wh_ClientConfig wh) of
        Inl c \<Rightarrow> Inl c
      | Inr cc \<Rightarrow> validatingWHs_loop env caBundle whs (validatingWHs @ [wh\<lparr>wh_ClientConfig := cc\<rparr>]))"

text \<open>Lines 48 to 85: the configurations to store, from the ones that were read.\<close>

definition wantedConfigs ::
  "getenv \<Rightarrow> 'm json \<Rightarrow> 'v json \<Rightarrow> byte_slice \<Rightarrow> 'm webhookConfiguration \<Rightarrow> 'v webhookConfiguration \<Rightarrow>
   crash + (error + 'm webhookConfiguration \<times> 'v webhookConfiguration)" where
  "wantedConfigs env Jm Jv caBundle mutatingConfig validatingConfig =
     (case parseMutatingTemplate Jm mutatingConfig of
        Inl err \<Rightarrow> Inr (Inl err)
      | Inr (mutatingTemplate, mutatingConfig) \<Rightarrow>
          (case parseValidatingTemplate Jv validatingConfig of
             Inl err \<Rightarrow> Inr (Inl err)
           | Inr (validatingTemplate, validatingConfig) \<Rightarrow>
               (case mutatingWHs_loop env caBundle mutatingTemplate [] of
                  Inl c \<Rightarrow> Inl c
                | Inr mutatingWHs \<Rightarrow>
                    (case validatingWHs_loop env caBundle validatingTemplate [] of
                       Inl c \<Rightarrow> Inl c
                     | Inr validatingWHs \<Rightarrow>
                         Inr (Inr (mutatingConfig\<lparr>wc_Webhooks := mutatingWHs\<rparr>,
                           validatingConfig\<lparr>wc_Webhooks := validatingWHs\<rparr>))))))"

definition Ensure ::
  "getenv \<Rightarrow> 'm json \<Rightarrow> 'v json \<Rightarrow> ('a, 'm, 'v) config_client \<Rightarrow> byte_slice \<Rightarrow>
   ('a, crash + error option) state" where
  "Ensure env Jm Jv c caBundle = do {
     r \<leftarrow> Get_Mutating c mutatingWebhookConfigurationName;
     case r of
       Inl err \<Rightarrow> State_Monad.return (Inr (Some (ErrorText
         (''not found MutatingWebhookConfiguration '' @ mutatingWebhookConfigurationName))))
     | Inr mutatingConfig \<Rightarrow> do {
         r \<leftarrow> Get_Validating c validatingWebhookConfigurationName;
         case r of
           Inl err \<Rightarrow> State_Monad.return (Inr (Some (ErrorText
             (''not found ValidatingWebhookConfiguration '' @ validatingWebhookConfigurationName))))
         | Inr validatingConfig \<Rightarrow>
             (case wantedConfigs env Jm Jv caBundle mutatingConfig validatingConfig of
                Inl crash \<Rightarrow> State_Monad.return (Inl crash)
              | Inr (Inl err) \<Rightarrow> State_Monad.return (Inr (Some err))
              | Inr (Inr (mutatingConfig, validatingConfig)) \<Rightarrow> do {
                  err \<leftarrow> Update_Validating c validatingConfig;
                  case err of
                    Some err \<Rightarrow> State_Monad.return (Inr (Some (Errorf
                      (''failed to update '' @ validatingWebhookConfigurationName @ '': '') err)))
                  | None \<Rightarrow> do {
                      err \<leftarrow> Update_Mutating c mutatingConfig;
                      case err of
                        Some err \<Rightarrow> State_Monad.return (Inr (Some (Errorf
                          (''failed to update '' @ mutatingWebhookConfigurationName @ '': '') err)))
                      | None \<Rightarrow> State_Monad.return (Inr None)
                    }
                })
       }
   }"

section \<open>What the loops and the templates do\<close>

text \<open>A client configuration pointed at this server: by service name, or by URL when a host is set.\<close>

definition pointed :: "getenv \<Rightarrow> byte_slice \<Rightarrow> webhookClientConfig \<Rightarrow> webhookClientConfig" where
  "pointed env ca cc =
     (case wcc_Service cc of
        None \<Rightarrow> cc\<lparr>wcc_CABundle := ca\<rparr>
      | Some s \<Rightarrow>
          if GetHost env = [] then
            cc\<lparr>wcc_CABundle := ca,
               wcc_Service := Some (s\<lparr>sr_Namespace := GetNamespace env, sr_Name := GetServiceName env\<rparr>)\<rparr>
          else
            cc\<lparr>wcc_CABundle := ca, wcc_Service := None,
               wcc_URL := Some (''https://'' @ GetHost env @ '':'' @ fmt_d (the (GetPort env)) @ the (sr_Path s))\<rparr>)"

definition pointed_webhook :: "getenv \<Rightarrow> byte_slice \<Rightarrow> 'x webhook \<Rightarrow> 'x webhook" where
  "pointed_webhook env ca wh = wh\<lparr>wh_ClientConfig := pointed env ca (wh_ClientConfig wh)\<rparr>"

text \<open>What stops a webhook from being pointed at a host.\<close>

definition pointing_crash :: "getenv \<Rightarrow> 'x webhook \<Rightarrow> crash option" where
  "pointing_crash env wh =
     (case wcc_Service (wh_ClientConfig wh) of
        None \<Rightarrow> None
      | Some s \<Rightarrow>
          if GetHost env = [] then None
          else if GetPort env = None then Some Exit
          else if sr_Path s = None then Some (Panic NilDereference)
          else None)"

fun first_crash :: "getenv \<Rightarrow> 'x webhook list \<Rightarrow> crash option" where
  "first_crash env [] = None"
| "first_crash env (wh # whs) =
     (case pointing_crash env wh of None \<Rightarrow> first_crash env whs | Some c \<Rightarrow> Some c)"

lemma first_crash_None: "first_crash env whs = None \<longleftrightarrow> (\<forall>wh \<in> set whs. pointing_crash env wh = None)"
  by (induction whs) (auto split: option.split)

lemma ensureClientConfig_eq:
  "ensureClientConfig env ca (wh_ClientConfig wh) =
     (case pointing_crash env wh of None \<Rightarrow> Inr (pointed env ca (wh_ClientConfig wh)) | Some c \<Rightarrow> Inl c)"
  by (auto simp: ensureClientConfig_def pointing_crash_def pointed_def convertClientConfig_def Let_def
      split: option.splits)

text \<open>The webhooks a configuration stands for: those of its template, or its own if it has none.\<close>

definition template_of :: "'x json \<Rightarrow> 'x webhookConfiguration \<Rightarrow> 'x webhook list option" where
  "template_of J conf =
     (let s = str_map_get (meta_Annotations (wc_meta conf)) ''template''
      in if s = [] then Some (wc_Webhooks conf)
         else case Unmarshal J s of Inl _ \<Rightarrow> None | Inr whs \<Rightarrow> Some whs)"

text \<open>
  JSON: what was decoded survives being encoded and decoded again, and no encoding is empty.
  The webhooks of a configuration that was read were decoded from JSON.
\<close>

definition decoded :: "'x json \<Rightarrow> 'x webhook list \<Rightarrow> bool" where
  "decoded J whs \<longleftrightarrow> (\<exists>s. Unmarshal J s = Inr whs)"

definition lawful_json :: "'x json \<Rightarrow> bool" where
  "lawful_json J \<longleftrightarrow>
     (\<forall>whs s. Marshal J whs = Inr s \<longrightarrow> s \<noteq> [] \<and> (decoded J whs \<longrightarrow> Unmarshal J s = Inr whs))"

text \<open>A configuration that has its template, or whose webhooks survive JSON.\<close>

definition annotated :: "'x webhookConfiguration \<Rightarrow> bool" where
  "annotated conf \<longleftrightarrow> str_map_get (meta_Annotations (wc_meta conf)) ''template'' \<noteq> []"

definition readable :: "'x json \<Rightarrow> 'x webhookConfiguration \<Rightarrow> bool" where
  "readable J conf \<longleftrightarrow> annotated conf \<or> decoded J (wc_Webhooks conf)"

text \<open>The two copies of the code, for mutating and for validating webhooks, keep one contract.\<close>

locale webhook_kind =
  fixes parse :: "'x json \<Rightarrow> 'x webhookConfiguration \<Rightarrow> error + 'x webhook list \<times> 'x webhookConfiguration"
    and loop :: "getenv \<Rightarrow> byte_slice \<Rightarrow> 'x webhook list \<Rightarrow> 'x webhook list \<Rightarrow> crash + 'x webhook list"
  assumes parse_template: "parse J conf = Inr (whs, conf') \<Longrightarrow> template_of J conf = Some whs"
    and parse_meta: "parse J conf = Inr (whs, conf') \<Longrightarrow>
      meta_Name (wc_meta conf') = meta_Name (wc_meta conf) \<and> wc_Webhooks conf' = wc_Webhooks conf"
    and parse_keeps: "parse J conf = Inr (whs, conf') \<Longrightarrow> lawful_json J \<Longrightarrow> readable J conf \<Longrightarrow>
      template_of J (conf'\<lparr>wc_Webhooks := whs'\<rparr>) = Some whs \<and> annotated conf'"
    and loop_Nil: "loop env ca [] acc = Inr acc"
    and loop_Cons: "loop env ca (wh # whs) acc =
      (case pointing_crash env wh of
         None \<Rightarrow> loop env ca whs (acc @ [pointed_webhook env ca wh]) | Some c \<Rightarrow> Inl c)"
begin

lemma loop_eq:
  "loop env ca whs acc =
     (case first_crash env whs of None \<Rightarrow> Inr (acc @ map (pointed_webhook env ca) whs) | Some c \<Rightarrow> Inl c)"
  by (induction whs arbitrary: acc) (simp_all add: loop_Nil loop_Cons split: option.split)

end

lemma str_map_get_upd [simp]: "str_map_get (Some (fmupd k v m)) k = v"
  by (simp add: str_map_get_def)

text \<open>The cases of a parse.\<close>

lemma parse_cases:
  assumes "parseMutatingTemplate J conf = Inr (whs, conf')"
  obtains (annotated) s where "str_map_get (meta_Annotations (wc_meta conf)) ''template'' = s" "s \<noteq> []"
      "Unmarshal J s = Inr whs" "conf' = conf"
  | (fresh) s m where "str_map_get (meta_Annotations (wc_meta conf)) ''template'' = []"
      "Marshal J (wc_Webhooks conf) = Inr s" "whs = wc_Webhooks conf"
      "conf' = conf\<lparr>wc_meta := (wc_meta conf)\<lparr>meta_Annotations := Some (fmupd ''template'' s m)\<rparr>\<rparr>"
  using assms by (auto simp: parseMutatingTemplate_def Let_def split: if_splits sum.splits)

lemma parse_contract:
  assumes p: "parseMutatingTemplate J conf = Inr (whs, conf')"
  shows "template_of J conf = Some whs"
    and "meta_Name (wc_meta conf') = meta_Name (wc_meta conf) \<and> wc_Webhooks conf' = wc_Webhooks conf"
    and "lawful_json J \<Longrightarrow> readable J conf \<Longrightarrow>
      template_of J (conf'\<lparr>wc_Webhooks := whs'\<rparr>) = Some whs \<and> annotated conf'"
  by (cases rule: parse_cases [OF p]; simp add: template_of_def lawful_json_def readable_def annotated_def)+

lemma mutating_contract: "webhook_kind parseMutatingTemplate mutatingWHs_loop"
proof (unfold_locales, goal_cases)
  case (2 J conf whs conf')
  then show ?case by (rule parse_contract(2))
next
  case (3 J conf whs conf' whs')
  then show ?case by (rule parse_contract(3))
qed (auto simp: ensureClientConfig_eq pointed_webhook_def split: option.split intro: parse_contract(1))

lemma parse_same: "parseValidatingTemplate = parseMutatingTemplate"
  by (intro ext) (simp add: parseValidatingTemplate_def parseMutatingTemplate_def)

lemma loop_same: "validatingWHs_loop = mutatingWHs_loop"
proof (intro ext)
  show "validatingWHs_loop env ca whs acc = mutatingWHs_loop env ca whs acc" for env ca and whs acc :: "'x webhook list"
    by (induction whs arbitrary: acc) (simp_all split: sum.split)
qed

interpretation mutating: webhook_kind parseMutatingTemplate mutatingWHs_loop
  by (rule mutating_contract)

interpretation validating: webhook_kind parseValidatingTemplate validatingWHs_loop
  unfolding parse_same loop_same by (rule mutating_contract)

section \<open>What Ensure does\<close>

text \<open>The configuration now has the template's webhooks, each pointed at this server; the template is the same.\<close>

definition ensured :: "getenv \<Rightarrow> 'x json \<Rightarrow> byte_slice \<Rightarrow> 'x webhookConfiguration \<Rightarrow> 'x webhookConfiguration \<Rightarrow> bool" where
  "ensured env J ca conf conf' \<longleftrightarrow>
     (\<exists>whs. template_of J conf = Some whs \<and> template_of J conf' = Some whs \<and> annotated conf' \<and>
        wc_Webhooks conf' = map (pointed_webhook env ca) whs)"

text \<open>The same configuration, up to what the server sets in its metadata.\<close>

definition same_config :: "'x webhookConfiguration \<Rightarrow> 'x webhookConfiguration \<Rightarrow> bool" where
  "same_config x y \<longleftrightarrow> wc_Webhooks x = wc_Webhooks y \<and>
     meta_Annotations (wc_meta x) = meta_Annotations (wc_meta y)"

lemma same_config_ensured: "same_config x y \<Longrightarrow> ensured env J ca conf x = ensured env J ca conf y"
  by (auto simp: same_config_def ensured_def template_of_def annotated_def Let_def)

text \<open>What the API server documents: a read gives what is stored; an update that succeeds stores its argument.\<close>

definition lawful_configs ::
  "('a, 'm, 'v) config_client \<Rightarrow> ('a \<Rightarrow> string \<Rightarrow> 'm webhookConfiguration option) \<Rightarrow>
   ('a \<Rightarrow> string \<Rightarrow> 'v webhookConfiguration option) \<Rightarrow> bool" where
  "lawful_configs c vm vv \<longleftrightarrow>
     (\<forall>n m v. hoare (\<lambda>s. vm s = m \<and> vv s = v) (Get_Mutating c n)
        (\<lambda>r s. vm s = m \<and> vv s = v \<and> (\<forall>x. r = Inr x \<longrightarrow> m n = Some x \<and> meta_Name (wc_meta x) = n))) \<and>
     (\<forall>n m v. hoare (\<lambda>s. vm s = m \<and> vv s = v) (Get_Validating c n)
        (\<lambda>r s. vm s = m \<and> vv s = v \<and> (\<forall>x. r = Inr x \<longrightarrow> v n = Some x \<and> meta_Name (wc_meta x) = n))) \<and>
     (\<forall>x m v. hoare (\<lambda>s. vm s = m \<and> vv s = v) (Update_Mutating c x)
        (\<lambda>r s. vv s = v \<and> (case r of
           None \<Rightarrow> \<exists>x'. same_config x' x \<and> vm s = m(meta_Name (wc_meta x) \<mapsto> x')
         | Some err \<Rightarrow> vm s = m))) \<and>
     (\<forall>x m v. hoare (\<lambda>s. vm s = m \<and> vv s = v) (Update_Validating c x)
        (\<lambda>r s. vm s = m \<and> (case r of
           None \<Rightarrow> \<exists>x'. same_config x' x \<and> vv s = v(meta_Name (wc_meta x) \<mapsto> x')
         | Some err \<Rightarrow> vv s = v)))"

lemma lawful_configsD:
  assumes "lawful_configs c vm vv"
  shows "hoare (\<lambda>s. vm s = m \<and> vv s = v) (Get_Mutating c n)
      (\<lambda>r s. vm s = m \<and> vv s = v \<and> (\<forall>x. r = Inr x \<longrightarrow> m n = Some x \<and> meta_Name (wc_meta x) = n))"
    and "hoare (\<lambda>s. vm s = m \<and> vv s = v) (Get_Validating c n)
      (\<lambda>r s. vm s = m \<and> vv s = v \<and> (\<forall>x. r = Inr x \<longrightarrow> v n = Some x \<and> meta_Name (wc_meta x) = n))"
    and "hoare (\<lambda>s. vm s = m \<and> vv s = v) (Update_Mutating c x)
      (\<lambda>r s. vv s = v \<and> (case r of
         None \<Rightarrow> \<exists>x'. same_config x' x \<and> vm s = m(meta_Name (wc_meta x) \<mapsto> x') | Some err \<Rightarrow> vm s = m))"
    and "hoare (\<lambda>s. vm s = m \<and> vv s = v) (Update_Validating c y)
      (\<lambda>r s. vm s = m \<and> (case r of
         None \<Rightarrow> \<exists>x'. same_config x' y \<and> vv s = v(meta_Name (wc_meta y) \<mapsto> x') | Some err \<Rightarrow> vv s = v))"
  using assms unfolding lawful_configs_def by (elim conjE; simp only:)+

lemma wanted_ensured:
  assumes "wantedConfigs env Jm Jv ca m v = Inr (Inr (m', v'))"
    and "lawful_json Jm" "lawful_json Jv" "readable Jm m" "readable Jv v"
  shows "ensured env Jm ca m m'" "ensured env Jv ca v v'"
    "meta_Name (wc_meta m') = meta_Name (wc_meta m)" "meta_Name (wc_meta v') = meta_Name (wc_meta v)"
proof -
  obtain mt m1 vt v1 mw vw where p: "parseMutatingTemplate Jm m = Inr (mt, m1)" "parseValidatingTemplate Jv v = Inr (vt, v1)"
    and l: "mutatingWHs_loop env ca mt [] = Inr mw" "validatingWHs_loop env ca vt [] = Inr vw"
    and r: "m' = m1\<lparr>wc_Webhooks := mw\<rparr>" "v' = v1\<lparr>wc_Webhooks := vw\<rparr>"
    using assms(1) by (auto simp: wantedConfigs_def split: sum.splits)
  have "mw = map (pointed_webhook env ca) mt"
    using l(1) mutating.loop_eq [of env ca mt "[]"] by (auto split: option.splits)
  moreover have "vw = map (pointed_webhook env ca) vt"
    using l(2) validating.loop_eq [of env ca vt "[]"] by (auto split: option.splits)
  moreover note r mutating.parse_template [OF p(1)] validating.parse_template [OF p(2)]
    mutating.parse_keeps [OF p(1) assms(2,4), of mw] validating.parse_keeps [OF p(2) assms(3,5), of vw]
  ultimately show "ensured env Jm ca m m'" "ensured env Jv ca v v'" by (auto simp: ensured_def annotated_def)
  show "meta_Name (wc_meta m') = meta_Name (wc_meta m)" "meta_Name (wc_meta v') = meta_Name (wc_meta v)"
    using r mutating.parse_meta [OF p(1)] validating.parse_meta [OF p(2)] by simp_all
qed

text \<open>The names in the cluster, and what an \<^verbatim>\<open>Ensure\<close> relies on there.\<close>

abbreviation "mutating_name \<equiv> mutatingWebhookConfigurationName"
abbreviation "validating_name \<equiv> validatingWebhookConfigurationName"

definition config_inv ::
  "'m json \<Rightarrow> 'v json \<Rightarrow> ('a, 'm, 'v) config_client \<Rightarrow> ('a \<Rightarrow> string \<Rightarrow> 'm webhookConfiguration option) \<Rightarrow>
   ('a \<Rightarrow> string \<Rightarrow> 'v webhookConfiguration option) \<Rightarrow> 'a \<Rightarrow> bool" where
  "config_inv Jm Jv c vm vv s \<longleftrightarrow>
     lawful_configs c vm vv \<and> lawful_json Jm \<and> lawful_json Jv \<and>
     (\<forall>x. vm s mutating_name = Some x \<longrightarrow> readable Jm x) \<and>
     (\<forall>x. vv s validating_name = Some x \<longrightarrow> readable Jv x)"

text \<open>How the two kinds of configuration change.\<close>

definition stored_as ::
  "(string \<Rightarrow> 'x webhookConfiguration option) \<Rightarrow> string \<Rightarrow> getenv \<Rightarrow> 'x json \<Rightarrow> byte_slice \<Rightarrow>
   (string \<Rightarrow> 'x webhookConfiguration option) \<Rightarrow> bool" where
  "stored_as f n env J ca f' \<longleftrightarrow> (\<exists>x x'. f n = Some x \<and> ensured env J ca x x' \<and> f' = f(n \<mapsto> x'))"

lemma stored_asI:
  assumes "f n = Some x" "ensured env J ca x y" "meta_Name (wc_meta y) = n" "same_config x' y"
  shows "stored_as f n env J ca (f(meta_Name (wc_meta y) \<mapsto> x'))"
  using assms same_config_ensured [OF assms(4)] unfolding stored_as_def by metis

lemma Ensure_outcome:
  assumes inv: "config_inv Jm Jv c vm vv s0"
  shows "hoare (\<lambda>s. s = s0) (Ensure env Jm Jv c ca)
    (\<lambda>r s. (r = Inr None \<longrightarrow> stored_as (vm s0) mutating_name env Jm ca (vm s)) \<and>
      (r \<noteq> Inr None \<longrightarrow> vm s = vm s0) \<and>
      (vv s = vv s0 \<and> r \<noteq> Inr None \<or> stored_as (vv s0) validating_name env Jv ca (vv s)))"
    (is "hoare _ _ ?Q")
proof (rule hoareI)
  fix s r s' assume s: "s = s0" and run: "run_state (Ensure env Jm Jv c ca) s = (r, s')"
  have law: "lawful_configs c vm vv" using inv by (simp add: config_inv_def)
  note L = hoareD [OF lawful_configsD(1) [OF law] conjI [OF refl refl]] hoareD [OF lawful_configsD(2) [OF law] conjI [OF refl refl]]
    hoareD [OF lawful_configsD(3) [OF law] conjI [OF refl refl]] hoareD [OF lawful_configsD(4) [OF law] conjI [OF refl refl]]
  obtain r1 s1 where r1: "run_state (Get_Mutating c mutating_name) s0 = (r1, s1)" by (rule prod.exhaust)
  show "?Q r s'"
  proof (cases r1)
    case (Inl e)
    with run s r1 L(1) [OF r1] show ?thesis by (auto simp: Ensure_def)
  next
    case (Inr m)
    obtain r2 s2 where r2: "run_state (Get_Validating c validating_name) s1 = (r2, s2)" by (rule prod.exhaust)
    show ?thesis
    proof (cases r2)
      case (Inl e)
      with run s r1 r2 Inr L(1) [OF r1] L(2) [OF r2] show ?thesis by (auto simp: Ensure_def)
    next
      case v: (Inr v)
      have s2: "vm s2 = vm s0" "vv s2 = vv s0" using L(1) [OF r1] L(2) [OF r2] by auto
      have m: "vm s0 mutating_name = Some m" "meta_Name (wc_meta m) = mutating_name"
        and v': "vv s0 validating_name = Some v" "meta_Name (wc_meta v) = validating_name"
        using L(1) [OF r1] L(2) [OF r2] Inr v by auto
      consider crash where "wantedConfigs env Jm Jv ca m v = Inl crash"
        | err where "wantedConfigs env Jm Jv ca m v = Inr (Inl err)"
        | m' v' where "wantedConfigs env Jm Jv ca m v = Inr (Inr (m', v'))"
        by (metis old.prod.exhaust old.sum.exhaust)
      then show ?thesis
      proof cases
        case (3 mw vw)
        have e: "ensured env Jm ca m mw" "ensured env Jv ca v vw" "meta_Name (wc_meta mw) = mutating_name"
          "meta_Name (wc_meta vw) = validating_name"
          using wanted_ensured [OF 3] inv m v' by (auto simp: config_inv_def)
        obtain e1 s3 where e1: "run_state (Update_Validating c vw) s2 = (e1, s3)" by (rule prod.exhaust)
        obtain e2 s4 where e2: "run_state (Update_Mutating c mw) s3 = (e2, s4)" by (rule prod.exhaust)
        note put = stored_asI [where f = "vv s0" and n = validating_name, OF v'(1) e(2,4)]
          stored_asI [where f = "vm s0" and n = mutating_name, OF m(1) e(1,3)]
        show ?thesis
          using run s r1 r2 Inr v 3 e1 e2 L(4) [OF e1] L(3) [OF e2] s2 put
          by (cases e1; cases e2) (auto simp: Ensure_def e(3,4))
      qed (use run s r1 r2 Inr v s2 in \<open>auto simp: Ensure_def\<close>)
    qed
  qed
qed

text \<open>C9: When ensuring the configurations succeeds, each stored configuration has exactly the webhooks of its template, every one pointed at this server with the given CA bundle; whatever fails, each configuration is either as before or completely as wanted, and the mutating one is only changed on success.\<close>

theorem Ensure_correct:
  assumes "config_inv Jm Jv c vm vv s" "run_state (Ensure env Jm Jv c ca) s = (r, s')"
  shows "(r = Inr None \<longrightarrow> stored_as (vm s) mutating_name env Jm ca (vm s') \<and>
       stored_as (vv s) validating_name env Jv ca (vv s')) \<and>
     (r \<noteq> Inr None \<longrightarrow> vm s' = vm s \<and>
       (vv s' = vv s \<or> stored_as (vv s) validating_name env Jv ca (vv s')))"
  using hoareD [OF Ensure_outcome [OF assms(1)] refl assms(2)] by blast

lemma stored_as_readable: "stored_as f n env J ca f' \<Longrightarrow> f' n = Some x \<Longrightarrow> readable J x"
  by (auto simp: stored_as_def ensured_def readable_def)

lemma stored_as_twice:
  assumes "stored_as f n env J ca f1" "stored_as f1 n env' J ca' f2"
  shows "stored_as f n env' J ca' f2"
  using assms by (auto simp: stored_as_def ensured_def)

lemma Ensure_keeps_inv:
  assumes inv: "config_inv Jm Jv c vm vv s" and run: "run_state (Ensure env Jm Jv c ca) s = (r, s')"
  shows "config_inv Jm Jv c vm vv s'"
  using hoareD [OF Ensure_outcome [OF inv] refl run] inv stored_as_readable unfolding config_inv_def by metis

text \<open>C29: Renewing the CA bundle does not build on what an earlier run left: after one successful run, whatever settings and bundle it had, a second successful run leaves the configurations a single run with the second settings and bundle would have been allowed to leave; in particular ensuring twice with the same bundle gives the same webhooks.\<close>

theorem Ensure_again:
  assumes "config_inv Jm Jv c vm vv s"
    and "run_state (Ensure env1 Jm Jv c ca1) s = (Inr None, s1)"
    and "run_state (Ensure env2 Jm Jv c ca2) s1 = (Inr None, s2)"
  shows "stored_as (vm s) mutating_name env2 Jm ca2 (vm s2) \<and> stored_as (vv s) validating_name env2 Jv ca2 (vv s2)"
proof -
  have "stored_as (vm s) mutating_name env1 Jm ca1 (vm s1)" "stored_as (vv s) validating_name env1 Jv ca1 (vv s1)"
    using hoareD [OF Ensure_outcome [OF assms(1)] refl assms(2)] by simp_all
  moreover have "stored_as (vm s1) mutating_name env2 Jm ca2 (vm s2)" "stored_as (vv s1) validating_name env2 Jv ca2 (vv s2)"
    using hoareD [OF Ensure_outcome [OF Ensure_keeps_inv [OF assms(1,2)]] refl assms(3)] by simp_all
  ultimately show ?thesis using stored_as_twice by metis
qed

text \<open>Given the configurations, making the wanted ones panics or ends the process exactly when both templates can be had, a host is set, and some webhook has a service without a path or the port does not parse; a webhook with a service whose optional path is missing is enough.\<close>

theorem wantedConfigs_crashes_iff:
  "(\<exists>crash. wantedConfigs env Jm Jv ca m v = Inl crash) \<longleftrightarrow>
   (\<exists>mt m' vt v'. parseMutatingTemplate Jm m = Inr (mt, m') \<and> parseValidatingTemplate Jv v = Inr (vt, v') \<and>
      GetHost env \<noteq> [] \<and>
      (\<exists>sr. Some sr \<in> (wcc_Service \<circ> wh_ClientConfig) ` set mt \<union> (wcc_Service \<circ> wh_ClientConfig) ` set vt \<and>
         (GetPort env = None \<or> sr_Path sr = None)))"
proof -
  have ex: "(\<exists>wh \<in> set whs. pointing_crash env wh \<noteq> None) \<longleftrightarrow> GetHost env \<noteq> [] \<and>
      (\<exists>sr. Some sr \<in> (wcc_Service \<circ> wh_ClientConfig) ` set whs \<and> (GetPort env = None \<or> sr_Path sr = None))"
    for whs :: "'x webhook list"
  proof -
    have "pointing_crash env wh \<noteq> None \<longleftrightarrow> GetHost env \<noteq> [] \<and>
        (\<exists>sr. (wcc_Service \<circ> wh_ClientConfig) wh = Some sr \<and> (GetPort env = None \<or> sr_Path sr = None))"
      for wh :: "'x webhook"
      by (cases "wcc_Service (wh_ClientConfig wh)") (simp_all add: pointing_crash_def)
    then show ?thesis unfolding image_iff by metis
  qed
  have "(\<exists>crash. wantedConfigs env Jm Jv ca m v = Inl crash) \<longleftrightarrow>
     (\<exists>mt m' vt v'. parseMutatingTemplate Jm m = Inr (mt, m') \<and> parseValidatingTemplate Jv v = Inr (vt, v') \<and>
        (first_crash env mt \<noteq> None \<or> first_crash env vt \<noteq> None))"
    unfolding wantedConfigs_def mutating.loop_eq validating.loop_eq by (auto split: sum.splits option.splits)
  also have "\<dots> \<longleftrightarrow> (\<exists>mt m' vt v'. parseMutatingTemplate Jm m = Inr (mt, m') \<and> parseValidatingTemplate Jv v = Inr (vt, v') \<and>
        ((\<exists>wh \<in> set mt. pointing_crash env wh \<noteq> None) \<or> (\<exists>wh \<in> set vt. pointing_crash env wh \<noteq> None)))"
    using first_crash_None by metis
  finally show ?thesis unfolding ex by blast
qed

section \<open>A concrete cluster\<close>

text \<open>One webhook of each kind, an encoding of it, and a server that holds the two configurations.\<close>

definition toy_hook :: "unit webhook" where
  "toy_hook = \<lparr>wh_ClientConfig = \<lparr>wcc_URL = None, wcc_Service = Some
       \<lparr>sr_Namespace = ''kube-system'', sr_Name = ''webhook-service'', sr_Path = Some ''/gateway'', sr_Port = None\<rparr>,
     wcc_CABundle = None\<rparr>, wh_other = ()\<rparr>"

definition toy_json :: "unit json" where
  "toy_json = \<lparr>
     Marshal = (\<lambda>whs. if whs = [toy_hook] then Inr ''[hook]'' else Inl (ErrorText ''unsupported'')),
     Unmarshal = (\<lambda>s. if s = ''[hook]'' then Inr [toy_hook] else Inl (ErrorText ''invalid character''))\<rparr>"

type_synonym toy_configs = "(string \<rightharpoonup> unit webhookConfiguration) \<times> (string \<rightharpoonup> unit webhookConfiguration)"

text \<open>A server that keeps the configurations in a part of its state, which \<open>g\<close> reads and \<open>p\<close> writes.\<close>

definition lens_configs :: "('a \<Rightarrow> toy_configs) \<Rightarrow> (toy_configs \<Rightarrow> 'a \<Rightarrow> 'a) \<Rightarrow> ('a, unit, unit) config_client" where
  "lens_configs g p = \<lparr>
     Get_Mutating = (\<lambda>n. State (\<lambda>s. (case fst (g s) n of
        Some x \<Rightarrow> if meta_Name (wc_meta x) = n then Inr x else Inl (ApiError ReasonNotFound)
      | None \<Rightarrow> Inl (ApiError ReasonNotFound), s))),
     Get_Validating = (\<lambda>n. State (\<lambda>s. (case snd (g s) n of
        Some x \<Rightarrow> if meta_Name (wc_meta x) = n then Inr x else Inl (ApiError ReasonNotFound)
      | None \<Rightarrow> Inl (ApiError ReasonNotFound), s))),
     Update_Mutating = (\<lambda>x. State (\<lambda>s. (None, p ((fst (g s))(meta_Name (wc_meta x) \<mapsto> x), snd (g s)) s))),
     Update_Validating = (\<lambda>x. State (\<lambda>s. (None, p (fst (g s), (snd (g s))(meta_Name (wc_meta x) \<mapsto> x)) s)))\<rparr>"

abbreviation toy_client :: "(toy_configs, unit, unit) config_client" where
  "toy_client \<equiv> lens_configs (\<lambda>s. s) (\<lambda>c _. c)"

definition toy_config :: "string \<Rightarrow> unit webhookConfiguration" where
  "toy_config n = \<lparr>wc_meta = zero_meta\<lparr>meta_Name := n\<rparr>, wc_Webhooks = [toy_hook]\<rparr>"

definition toy_configs :: toy_configs where
  "toy_configs = ([mutating_name \<mapsto> toy_config mutating_name], [validating_name \<mapsto> toy_config validating_name])"

definition toy_settings :: "string \<Rightarrow> getenv" where
  "toy_settings host = (\<lambda>k. if k = ''WEBHOOK_HOST'' then host else [])"

lemma lens_config_inv:
  assumes l: "\<And>c s. g (p c s) = c" and "g s = toy_configs"
  shows "config_inv toy_json toy_json (lens_configs g p) (\<lambda>s. fst (g s)) (\<lambda>s. snd (g s)) s"
proof -
  have "lawful_json toy_json" by (auto simp: lawful_json_def toy_json_def split: if_splits)
  moreover have "lawful_configs (lens_configs g p) (\<lambda>s. fst (g s)) (\<lambda>s. snd (g s))"
    by (auto simp: lawful_configs_def lens_configs_def hoare_def same_config_def l split: option.splits if_splits)
  moreover have "decoded toy_json [toy_hook]"
    unfolding decoded_def by (rule exI [of _ "''[hook]''"]) (simp add: toy_json_def)
  ultimately show ?thesis using assms(2) by (simp add: config_inv_def toy_configs_def readable_def toy_config_def)
qed

lemma toy_config_inv: "config_inv toy_json toy_json toy_client fst snd toy_configs"
  using lens_config_inv [of "\<lambda>s. s" "\<lambda>c _. c" toy_configs] by simp

abbreviation toy_Ensure :: "string \<Rightarrow> bytes \<Rightarrow> toy_configs \<Rightarrow> (crash + error option) \<times> toy_configs" where
  "toy_Ensure host ca s \<equiv> run_state (Ensure (toy_settings host) toy_json toy_json toy_client (Some ca)) s"

text \<open>First without a host, then with one and another CA.\<close>

lemma lens_Ensure:
  assumes "\<And>c s. g (p c s) = c" "g s = toy_configs" "GetHost env = []"
  shows "fst (run_state (Ensure env toy_json toy_json (lens_configs g p) ca) s) = Inr None"
  using assms
  by (simp add: Ensure_def wantedConfigs_def lens_configs_def toy_configs_def toy_config_def toy_hook_def toy_json_def
      parseMutatingTemplate_def parseValidatingTemplate_def str_map_get_def zero_meta_def ensureClientConfig_def
      convertClientConfig_def toy_settings_def GetHost_def GetPort_def Let_def)

lemma toy_runs:
  "fst (toy_Ensure [] [1] toy_configs) = Inr None"
  "fst (toy_Ensure ''10.0.0.1'' [2] (snd (toy_Ensure [] [1] toy_configs))) = Inr None"
  by (simp_all add: Ensure_def wantedConfigs_def lens_configs_def toy_configs_def toy_config_def toy_hook_def toy_json_def
      parseMutatingTemplate_def parseValidatingTemplate_def str_map_get_def zero_meta_def ensureClientConfig_def
      convertClientConfig_def toy_settings_def GetHost_def GetPort_def Let_def)

theorem Ensure_correct_witness:
  "fst (toy_Ensure [] [1] toy_configs) = Inr None \<and>
   stored_as (fst toy_configs) mutating_name (toy_settings []) toy_json (Some [1]) (fst (snd (toy_Ensure [] [1] toy_configs)))"
proof -
  have "toy_Ensure [] [1] toy_configs = (Inr None, snd (toy_Ensure [] [1] toy_configs))"
    using toy_runs(1) by (metis prod.collapse)
  from Ensure_correct [OF toy_config_inv this] toy_runs(1) show ?thesis by blast
qed

theorem Ensure_again_witness:
  "stored_as (fst toy_configs) mutating_name (toy_settings ''10.0.0.1'') toy_json (Some [2])
     (fst (snd (toy_Ensure ''10.0.0.1'' [2] (snd (toy_Ensure [] [1] toy_configs)))))"
proof -
  have "toy_Ensure [] [1] toy_configs = (Inr None, snd (toy_Ensure [] [1] toy_configs))"
    "toy_Ensure ''10.0.0.1'' [2] (snd (toy_Ensure [] [1] toy_configs)) =
      (Inr None, snd (toy_Ensure ''10.0.0.1'' [2] (snd (toy_Ensure [] [1] toy_configs))))"
    using toy_runs by (metis prod.collapse)+
  from Ensure_again [OF toy_config_inv this] show ?thesis by blast
qed

end
