(* ===== verification/Go_Time.thy ===== *)
theory Go_Time
  imports Posix_Fs
begin

text \<open>
  Instants of Go's \<^verbatim>\<open>time\<close> package, as seconds of the proleptic Gregorian calendar, and
  \<^verbatim>\<open>AddDate\<close>.  A date may have a day past the end of its month, as \<^verbatim>\<open>AddDate\<close> makes before
  the package normalises it; its instant is the same.
\<close>

section \<open>Instants\<close>

text \<open>
  The day of a date, counted from the start of March of year 0: years begin in March, so that a
  leap day ends one.  \<open>month_days\<close> is the number of days before a month of such a year.
\<close>

definition march_month :: "nat \<Rightarrow> nat" where
  "march_month m = (m + 9) mod 12"

definition march_year :: "nat \<Rightarrow> nat \<Rightarrow> int" where
  "march_year y m = (if m \<le> 2 then int y - 1 else int y)"

definition year_days :: "int \<Rightarrow> int" where
  "year_days y = 365 * y + y div 4 - y div 100 + y div 400"

definition month_days :: "nat \<Rightarrow> int" where
  "month_days mp = int ((153 * mp + 2) div 5)"

definition days :: "datetime \<Rightarrow> int" where
  "days d = year_days (march_year (year d) (month d)) + month_days (march_month (month d)) + int (day d)"

definition unix :: "datetime \<Rightarrow> int" where
  "unix d = (days d - 719469) * 86400 + int (hour d) * 3600 + int (minute d) * 60 + int (second d)"

text \<open>\<^verbatim>\<open>AddDate\<close> for whole years and months.\<close>

definition AddDate :: "datetime \<Rightarrow> nat \<Rightarrow> nat \<Rightarrow> nat \<Rightarrow> datetime" where
  "AddDate d ys ms ds =
     (let m = month d - 1 + ms
      in d\<lparr>year := year d + ys + m div 12, month := m mod 12 + 1, day := day d + ds\<rparr>)"

definition real_month :: "datetime \<Rightarrow> bool" where
  "real_month d \<longleftrightarrow> 1 \<le> month d \<and> month d \<le> 12"

lemma unix_epoch: "unix \<lparr>year = 1970, month = 1, day = 1, hour = 0, minute = 0, second = 0\<rparr> = 0"
  by code_simp

section \<open>How far AddDate goes\<close>

lemma div_Suc:
  fixes y k :: int
  assumes "k > 0"
  shows "(y + 1) div k = y div k \<or> (y + 1) div k = y div k + 1"
proof -
  have "y div k \<le> (y + 1) div k" by (rule zdiv_mono1) (use assms in auto)
  moreover have "(y + 1) div k \<le> (y + k) div k" by (rule zdiv_mono1) (use assms in auto)
  moreover have "(y + k) div k = y div k + 1" using assms by simp
  ultimately show ?thesis by linarith
qed

text \<open>One more year adds 365 or 366 days, since a century year is a leap year or its leap day is taken back.\<close>

lemma year_days_Suc: "year_days (y + 1) - year_days y \<in> {365, 366}"
proof -
  have chain: "x div 100 = x div 4 div 25" "x div 400 = x div 4 div 25 div 4" for x :: int
    using zdiv_zmult2_eq [of 25 x 4] zdiv_zmult2_eq [of 4 x 100] zdiv_zmult2_eq [of 25 x 4] by simp_all
  define q c e where "q = y div 4" and "c = q div 25" and "e = c div 4"
  consider "(y + 1) div 4 = q" | "(y + 1) div 4 = q + 1" "(q + 1) div 25 = c"
    | "(y + 1) div 4 = q + 1" "(q + 1) div 25 = c + 1" "(c + 1) div 4 = e"
    | "(y + 1) div 4 = q + 1" "(q + 1) div 25 = c + 1" "(c + 1) div 4 = e + 1"
    using div_Suc [of 4 y] div_Suc [of 25 q] div_Suc [of 4 c] by (auto simp: q_def c_def e_def)
  then show ?thesis
    unfolding year_days_def chain by cases (simp_all flip: q_def add: c_def [symmetric] e_def [symmetric])
qed

lemma real_month_cases:
  assumes "real_month d"
  obtains "month d = 1" | "month d = 2" | "month d = 3" | "month d = 4" | "month d = 5" | "month d = 6"
    | "month d = 7" | "month d = 8" | "month d = 9" | "month d = 10" | "month d = 11" | "month d = 12"
proof -
  have "{1..12} = {1, 2, 3, 4, 5, 6, 7, 8, 9, 10, 11, 12 :: nat}" by code_simp
  with assms have "month d \<in> {1, 2, 3, 4, 5, 6, 7, 8, 9, 10, 11, 12}"
    unfolding real_month_def by (metis atLeastAtMost_iff)
  then have "month d = 1 \<or> month d = 2 \<or> month d = 3 \<or> month d = 4 \<or> month d = 5 \<or> month d = 6 \<or>
    month d = 7 \<or> month d = 8 \<or> month d = 9 \<or> month d = 10 \<or> month d = 11 \<or> month d = 12"
    by (simp only: insert_iff empty_iff simp_thms)
  then show thesis by (elim disjE) (erule that)+
qed

lemma real_month_AddDate: "real_month (AddDate d ys ms ds)"
  by (simp add: AddDate_def real_month_def Let_def Suc_le_eq)

lemma AddDate_year:
  assumes "real_month d"
  shows "unix (AddDate d 1 0 0) - unix d \<in> {365 * 86400, 366 * 86400}"
proof -
  have m: "(month d - 1) div 12 = 0" "(month d - 1) mod 12 + 1 = month d"
    using assms by (auto simp: real_month_def)
  have "days (AddDate d 1 0 0) - days d =
      year_days (march_year (year d) (month d) + 1) - year_days (march_year (year d) (month d))"
    using m by (simp add: days_def AddDate_def Let_def march_year_def algebra_simps)
  with year_days_Suc [of "march_year (year d) (month d)"] have "days (AddDate d 1 0 0) - days d \<in> {365, 366}" by simp
  moreover have "unix (AddDate d 1 0 0) - unix d = (days (AddDate d 1 0 0) - days d) * 86400"
    by (simp add: unix_def AddDate_def Let_def algebra_simps)
  ultimately show ?thesis by auto
qed

text \<open>Half a year adds between 181 and 184 days.\<close>

lemma AddDate_half_year:
  assumes "real_month d"
  shows "181 * 86400 \<le> unix (AddDate d 0 6 0) - unix d" "unix (AddDate d 0 6 0) - unix d \<le> 184 * 86400"
proof -
  have "181 \<le> days (AddDate d 0 6 0) - days d \<and> days (AddDate d 0 6 0) - days d \<le> 184"
    using year_days_Suc [of "int (year d) - 1"] year_days_Suc [of "int (year d)"]
    by (cases rule: real_month_cases [OF assms])
      (auto simp: days_def AddDate_def Let_def march_year_def march_month_def month_days_def algebra_simps)
  moreover have "unix (AddDate d 0 6 0) - unix d = (days (AddDate d 0 6 0) - days d) * 86400"
    by (simp add: unix_def AddDate_def Let_def algebra_simps)
  ultimately show "181 * 86400 \<le> unix (AddDate d 0 6 0) - unix d" "unix (AddDate d 0 6 0) - unix d \<le> 184 * 86400"
    by auto
qed

end
