(* ===== verification/Webhook_World.thy ===== *)
theory Webhook_World
  imports Go_Time Kube_Types
begin

text \<open>
  The state that the certificate code of the webhook works on: the operating system, the
  API server, the source of randomness, and the CA a generator holds.  A part's computations
  are lifted to the whole; \<open>hoare_on_os\<close> and its companions carry their triples along.
\<close>

section \<open>The world\<close>

record ('a, 'r) world =
  w_os :: os
  w_api :: 'a
  w_rand :: 'r
  w_caKey :: byte_slice
  w_caCert :: byte_slice

definition on_os :: "(os, 'x) state \<Rightarrow> (('a, 'r) world, 'x) state" where
  "on_os m = State (\<lambda>w. let (x, s) = run_state m (w_os w) in (x, w\<lparr>w_os := s\<rparr>))"

definition on_api :: "('a, 'x) state \<Rightarrow> (('a, 'r) world, 'x) state" where
  "on_api m = State (\<lambda>w. let (x, s) = run_state m (w_api w) in (x, w\<lparr>w_api := s\<rparr>))"

definition on_rand :: "('r, 'x) state \<Rightarrow> (('a, 'r) world, 'x) state" where
  "on_rand m = State (\<lambda>w. let (x, s) = run_state m (w_rand w) in (x, w\<lparr>w_rand := s\<rparr>))"


lemma run_on [simp]:
  "run_state (on_os f) w = (let (x, s) = run_state f (w_os w) in (x, w\<lparr>w_os := s\<rparr>))"
  "run_state (on_api g) w = (let (x, a) = run_state g (w_api w) in (x, w\<lparr>w_api := a\<rparr>))"
  "run_state (on_rand h) w = (let (x, r) = run_state h (w_rand w) in (x, w\<lparr>w_rand := r\<rparr>))"
  by (simp_all add: on_os_def on_api_def on_rand_def)

lemma hoare_on_os:
  assumes "\<And>w. P w \<Longrightarrow> hoare (\<lambda>s. s = w_os w) m (\<lambda>x s. Q x (w\<lparr>w_os := s\<rparr>))"
  shows "hoare P (on_os m) Q"
proof (rule hoareI)
  fix w x w' assume "P w" "run_state (on_os m) w = (x, w')"
  then show "Q x w'" using hoareD [OF assms] by (auto simp: split: prod.splits)
qed

lemma hoare_on_api:
  assumes "\<And>w. P w \<Longrightarrow> hoare (\<lambda>s. s = w_api w) m (\<lambda>x s. Q x (w\<lparr>w_api := s\<rparr>))"
  shows "hoare P (on_api m) Q"
proof (rule hoareI)
  fix w x w' assume "P w" "run_state (on_api m) w = (x, w')"
  then show "Q x w'" using hoareD [OF assms] by (auto simp: split: prod.splits)
qed

lemma hoare_on_rand:
  assumes "\<And>w. P w \<Longrightarrow> hoare (\<lambda>s. s = w_rand w) m (\<lambda>x s. Q x (w\<lparr>w_rand := s\<rparr>))"
  shows "hoare P (on_rand m) Q"
proof (rule hoareI)
  fix w x w' assume "P w" "run_state (on_rand m) w = (x, w')"
  then show "Q x w'" using hoareD [OF assms] by (auto simp: split: prod.splits)
qed

section \<open>The clock\<close>

text \<open>\<^verbatim>\<open>time.Now()\<close>: each call is a step of its own.\<close>

definition time_Now :: "os_env \<Rightarrow> (('a, 'r) world, datetime) state" where
  "time_Now E = on_os (State (\<lambda>s. (env_now E (os_step s), s\<lparr>os_step := Suc (os_step s)\<rparr>)))"

text \<open>The clock does not go back, and shows dates of the calendar.\<close>

definition clock :: "os_env \<Rightarrow> bool" where
  "clock E \<longleftrightarrow> (\<forall>i j. i \<le> j \<longrightarrow> unix (env_now E i) \<le> unix (env_now E j)) \<and> (\<forall>i. real_month (env_now E i))"

lemma clockD: "clock E \<Longrightarrow> i \<le> j \<Longrightarrow> unix (env_now E i) \<le> unix (env_now E j)" "clock E \<Longrightarrow> real_month (env_now E i)"
  by (simp_all add: clock_def)

abbreviation now_at :: "os_env \<Rightarrow> ('a, 'r) world \<Rightarrow> int" where
  "now_at E w \<equiv> unix (env_now E (os_step (w_os w)))"

section \<open>Certificates\<close>

text \<open>\<^verbatim>\<open>generator.Artifacts\<close>; the slices may be nil.\<close>

record artifacts =
  Key :: byte_slice
  Cert :: byte_slice
  CAKey :: byte_slice
  CACert :: byte_slice
  ResourceVersion :: string

text \<open>\<^verbatim>\<open>generator.CertGenerator\<close>: the two methods, on a state.\<close>

record 's certGenerator =
  Generate :: "string \<Rightarrow> ('s, error + artifacts) state"
  SetCA :: "byte_slice \<Rightarrow> byte_slice \<Rightarrow> ('s, unit) state"

text \<open>A slice's bytes; nil has none.\<close>

definition slice_bytes :: "byte_slice \<Rightarrow> bytes" where
  "slice_bytes b = (case b of None \<Rightarrow> [] | Some d \<Rightarrow> d)"

lemma slice_bytes_simps [simp]: "slice_bytes None = []" "slice_bytes (Some d) = d"
  by (simp_all add: slice_bytes_def)

end
