(* ===== verification/Cert_Generator.thy ===== *)
theory Cert_Generator
  imports Webhook_World Go_Net
begin

text \<open>
  The certificate generators (\<^verbatim>\<open>webhook/util/generator/\<close>): the self-signed one, the check of
  its CA, and the fake one of the tests.  Cryptography and the PEM and X.509 formats are
  parameters, one record field per library function called; \<open>lawful_crypto\<close> states what
  their documentation says of them.
\<close>

section \<open>The libraries\<close>

datatype ext_key_usage = ExtKeyUsageServerAuth | OtherUsage string

text \<open>\<^verbatim>\<open>cert.Config\<close> of client-go, and the \<^verbatim>\<open>x509.Certificate\<close> that serves as a template.\<close>

record cert_config =
  cfg_CommonName :: string
  cfg_Organization :: "string list"
  cfg_DNSNames :: "string list"
  cfg_IPs :: "bytes list"
  cfg_Usages :: "ext_key_usage list"

record cert_template =
  tm_CommonName :: string
  tm_Organization :: "string list"
  tm_DNSNames :: "string list"
  tm_IPAddresses :: "bytes list"
  tm_SerialNumber :: int
  tm_NotBefore :: int
  tm_NotAfter :: int
  tm_KeyUsage :: "string list"
  tm_ExtKeyUsage :: "ext_key_usage list"

text \<open>
  The calls: \<open>'k\<close> are private keys, \<open>'p\<close> public ones, \<open>'c\<close> certificates, \<open>'r\<close> the source of
  randomness.  \<open>AppendCertsFromPEM\<close> gives the certificates it adds to an empty pool, \<open>Verify\<close>
  takes the DNS name, the roots and the time.
\<close>

record ('k, 'p, 'c, 'r) crypto =
  X509KeyPair :: "bytes \<Rightarrow> bytes \<Rightarrow> bool"
  AppendCertsFromPEM :: "bytes \<Rightarrow> 'c list"
  pem_Decode :: "bytes \<Rightarrow> bytes option"
  pem_Encode :: "string \<Rightarrow> bytes \<Rightarrow> bytes"
  ParseCertificate :: "bytes \<Rightarrow> error + 'c"
  Verify :: "'c \<Rightarrow> string \<Rightarrow> 'c list \<Rightarrow> int \<Rightarrow> bool"
  c_Raw :: "'c \<Rightarrow> bytes"
  c_NotBefore :: "'c \<Rightarrow> int"
  ParsePrivateKeyPEM :: "bytes \<Rightarrow> error + 'k option" \<comment> \<open>\<open>None\<close>: not an RSA key\<close>
  ParseCertsPEM :: "bytes \<Rightarrow> error + 'c list"
  MarshalPKCS1PrivateKey :: "'k \<Rightarrow> bytes"
  key_Public :: "'k \<Rightarrow> 'p"
  rsa_GenerateKey :: "nat \<Rightarrow> ('r, error + 'k) state"
  rand_Int :: "int \<Rightarrow> ('r, error + int) state"
  NewSelfSignedCACert :: "cert_config \<Rightarrow> 'k \<Rightarrow> datetime \<Rightarrow> ('r, error + 'c) state"
  CreateCertificate :: "cert_template \<Rightarrow> 'c \<Rightarrow> 'p \<Rightarrow> 'k \<Rightarrow> ('r, error + bytes) state"

section \<open>util.go\<close>

definition ValidCACert ::
  "('k, 'p, 'c, 'r) crypto \<Rightarrow> byte_slice \<Rightarrow> byte_slice \<Rightarrow> byte_slice \<Rightarrow> string \<Rightarrow> datetime \<Rightarrow> bool" where
  "ValidCACert C key cert caCert dnsName t =
     (if slice_bytes key = [] \<or> slice_bytes cert = [] \<or> slice_bytes caCert = [] then False
      else if \<not> X509KeyPair C (slice_bytes cert) (slice_bytes key) then False
      else let pool = AppendCertsFromPEM C (slice_bytes caCert)
           in if pool = [] then False
              else case pem_Decode C (slice_bytes cert) of
                None \<Rightarrow> False
              | Some block \<Rightarrow>
                  (case ParseCertificate C block of
                     Inl err \<Rightarrow> False
                   | Inr c \<Rightarrow> Verify C c dnsName pool (unix t)))"

section \<open>selfsigned.go\<close>

definition rsaKeySize :: nat where "rsaKeySize = 2048"

definition ServiceToCommonName :: "string \<Rightarrow> string \<Rightarrow> string" where
  "ServiceToCommonName serviceNamespace serviceName =
     serviceName @ ''.'' @ serviceNamespace @ ''.svc''"

definition SelfSigned_SetCA :: "byte_slice \<Rightarrow> byte_slice \<Rightarrow> (('a, 'r) world, unit) state" where
  "SelfSigned_SetCA caKey caCert = State (\<lambda>w. ((), w\<lparr>w_caKey := caKey, w_caCert := caCert\<rparr>))"

text \<open>\<open>None\<close> stands for the results that start with false.\<close>

definition validCACert ::
  "os_env \<Rightarrow> ('k, 'p, 'c, 'r) crypto \<Rightarrow> (('a, 'r) world, ('k \<times> 'c) option) state" where
  "validCACert E C = do {
     w \<leftarrow> State_Monad.get;
     t \<leftarrow> time_Now E;
     State_Monad.return
       (if \<not> ValidCACert C (w_caKey w) (w_caCert w) (w_caCert w) [] (AddDate t 1 0 0) then None
        else case ParsePrivateKeyPEM C (slice_bytes (w_caKey w)) of
               Inr (Some privateKey) \<Rightarrow>
                 (case ParseCertsPEM C (slice_bytes (w_caCert w)) of
                    Inl err \<Rightarrow> None
                  | Inr certs \<Rightarrow>
                      if length certs \<noteq> 1 then None else Some (privateKey, certs ! 0))
             | _ \<Rightarrow> None)
   }"

definition NewPrivateKey :: "('k, 'p, 'c, 'r) crypto \<Rightarrow> (('a, 'r) world, error + 'k) state" where
  "NewPrivateKey C = on_rand (rsa_GenerateKey C rsaKeySize)"

definition NewSignedCert ::
  "os_env \<Rightarrow> ('k, 'p, 'c, 'r) crypto \<Rightarrow> cert_config \<Rightarrow> 'k \<Rightarrow> 'c \<Rightarrow> 'k \<Rightarrow>
   (('a, 'r) world, error + 'c) state" where
  "NewSignedCert E C cfg key caCert caKey = do {
     s \<leftarrow> on_rand (rand_Int C (2 ^ 63 - 1));
     case s of
       Inl err \<Rightarrow> State_Monad.return (Inl err)
     | Inr serial \<Rightarrow>
         if length (cfg_CommonName cfg) = 0 then
           State_Monad.return (Inl (ErrorText ''must specify a CommonName''))
         else if length (cfg_Usages cfg) = 0 then
           State_Monad.return (Inl (ErrorText ''must specify at least one ExtKeyUsage''))
         else do {
           t \<leftarrow> time_Now E;
           let certTmpl =
             \<lparr>tm_CommonName = cfg_CommonName cfg, tm_Organization = cfg_Organization cfg,
              tm_DNSNames = cfg_DNSNames cfg, tm_IPAddresses = cfg_IPs cfg,
              tm_SerialNumber = serial, tm_NotBefore = c_NotBefore C caCert,
              tm_NotAfter = unix t + 60 * 60 * 24 * 365 * 10,
              tm_KeyUsage = [''KeyEncipherment'', ''DigitalSignature''],
              tm_ExtKeyUsage = cfg_Usages cfg\<rparr>;
           r \<leftarrow> on_rand (CreateCertificate C certTmpl caCert (key_Public C key) caKey);
           State_Monad.return
             (case r of Inl err \<Rightarrow> Inl err | Inr certDERBytes \<Rightarrow> ParseCertificate C certDERBytes)
         }
   }"

definition EncodePrivateKeyPEM :: "('k, 'p, 'c, 'r) crypto \<Rightarrow> 'k \<Rightarrow> bytes" where
  "EncodePrivateKeyPEM C key = pem_Encode C ''RSA PRIVATE KEY'' (MarshalPKCS1PrivateKey C key)"

definition EncodeCertPEM :: "('k, 'p, 'c, 'r) crypto \<Rightarrow> 'c \<Rightarrow> bytes" where
  "EncodeCertPEM C ct = pem_Encode C ''CERTIFICATE'' (c_Raw C ct)"

text \<open>The alternative names: \<^verbatim>\<open>localhost\<close>, and the IPv4 address or the name.\<close>

definition altIPs :: "string \<Rightarrow> bytes list" where
  "altIPs commonName = (case To4 (ParseIP commonName) of Some ip \<Rightarrow> [ip] | None \<Rightarrow> [])"

definition altDNSNames :: "string \<Rightarrow> string list" where
  "altDNSNames commonName =
     (case To4 (ParseIP commonName) of
        Some ip \<Rightarrow> [''localhost''] | None \<Rightarrow> [''localhost'', commonName])"

text \<open>The signing key and certificate: the CA that was set if it is valid, a new one otherwise.\<close>

definition signingPair ::
  "os_env \<Rightarrow> ('k, 'p, 'c, 'r) crypto \<Rightarrow> (('a, 'r) world, error + 'k \<times> 'c) state" where
  "signingPair E C = do {
     v \<leftarrow> validCACert E C;
     case v of
       Some kc \<Rightarrow> State_Monad.return (Inr kc)
     | None \<Rightarrow> do {
         k \<leftarrow> NewPrivateKey C;
         case k of
           Inl err \<Rightarrow> State_Monad.return (Inl (Errorf ''failed to create the CA private key: '' err))
         | Inr signingKey \<Rightarrow> do {
             t \<leftarrow> time_Now E;
             c \<leftarrow> on_rand (NewSelfSignedCACert C
               \<lparr>cfg_CommonName = ''webhook-cert-ca'', cfg_Organization = [], cfg_DNSNames = [],
                cfg_IPs = [], cfg_Usages = []\<rparr> signingKey t);
             State_Monad.return
               (case c of
                  Inl err \<Rightarrow> Inl (Errorf ''failed to create the CA cert: '' err)
                | Inr signingCert \<Rightarrow> Inr (signingKey, signingCert))
           }
       }
   }"

definition SelfSigned_Generate ::
  "os_env \<Rightarrow> ('k, 'p, 'c, 'r) crypto \<Rightarrow> string \<Rightarrow> (('a, 'r) world, error + artifacts) state" where
  "SelfSigned_Generate E C commonName = do {
     s \<leftarrow> signingPair E C;
     case s of
       Inl err \<Rightarrow> State_Monad.return (Inl err)
     | Inr (signingKey, signingCert) \<Rightarrow> do {
         k \<leftarrow> NewPrivateKey C;
         case k of
           Inl err \<Rightarrow> State_Monad.return (Inl (Errorf ''failed to create the private key: '' err))
         | Inr key \<Rightarrow> do {
             c \<leftarrow> NewSignedCert E C
               \<lparr>cfg_CommonName = commonName, cfg_Organization = [],
                cfg_DNSNames = altDNSNames commonName, cfg_IPs = altIPs commonName,
                cfg_Usages = [ExtKeyUsageServerAuth]\<rparr> key signingCert signingKey;
             State_Monad.return
               (case c of
                  Inl err \<Rightarrow> Inl (Errorf ''failed to create the cert: '' err)
                | Inr signedCert \<Rightarrow>
                    Inr \<lparr>Key = Some (EncodePrivateKeyPEM C key), Cert = Some (EncodeCertPEM C signedCert),
                      CAKey = Some (EncodePrivateKeyPEM C signingKey),
                      CACert = Some (EncodeCertPEM C signingCert), ResourceVersion = []\<rparr>)
           }
       }
   }"

definition SelfSignedCertGenerator ::
  "os_env \<Rightarrow> ('k, 'p, 'c, 'r) crypto \<Rightarrow> ('a, 'r) world certGenerator" where
  "SelfSignedCertGenerator E C =
     \<lparr>Generate = SelfSigned_Generate E C, SetCA = SelfSigned_SetCA\<rparr>"

section \<open>fake/certgenerator.go\<close>

record fake_generator =
  fake_CAKey :: byte_slice
  fake_CACert :: byte_slice
  DNSNameToCertArtifacts :: "string \<rightharpoonup> artifacts"

definition Fake_SetCA :: "byte_slice \<Rightarrow> byte_slice \<Rightarrow> (fake_generator, unit) state" where
  "Fake_SetCA caKey caCert = State (\<lambda>cp. ((), cp\<lparr>fake_CAKey := caKey, fake_CACert := caCert\<rparr>))"

text \<open>\<^verbatim>\<open>bytes.Contains(b, []byte("invalid"))\<close>.\<close>

definition says_invalid :: "byte_slice \<Rightarrow> bool" where
  "says_invalid b = sublist (map of_char ''invalid'') (slice_bytes b)"

text \<open>The artifacts are shared with the map, so the CA is stored there too.\<close>

definition Fake_Generate :: "string \<Rightarrow> (fake_generator, error + artifacts) state" where
  "Fake_Generate commonName = State (\<lambda>cp.
     case DNSNameToCertArtifacts cp commonName of
       None \<Rightarrow> (Inl (ErrorText (''failed to find common name in the certGenerator: '' @ commonName)), cp)
     | Some certs \<Rightarrow>
         if fake_CAKey cp \<noteq> None \<and> fake_CACert cp \<noteq> None \<and>
            \<not> says_invalid (fake_CAKey cp) \<and> \<not> says_invalid (fake_CACert cp)
         then let certs' = certs\<lparr>CAKey := fake_CAKey cp, CACert := fake_CACert cp\<rparr>
              in (Inr certs', cp\<lparr>DNSNameToCertArtifacts :=
                    (DNSNameToCertArtifacts cp)(commonName \<mapsto> certs')\<rparr>)
         else (Inr certs, cp))"

definition FakeCertGenerator :: "fake_generator certGenerator" where
  "FakeCertGenerator = \<lparr>Generate = Fake_Generate, SetCA = Fake_SetCA\<rparr>"

section \<open>What the libraries document\<close>

text \<open>
  The contents of a certificate beyond those the code reads.  \<open>xv_IssuedBy c r\<close>: \<open>r\<close>'s key
  signed \<open>c\<close>.
\<close>

record ('p, 'c) x509_view =
  xv_NotAfter :: "'c \<Rightarrow> int"
  xv_DNSNames :: "'c \<Rightarrow> string list"
  xv_IPs :: "'c \<Rightarrow> bytes list"
  xv_PublicKey :: "'c \<Rightarrow> 'p"
  xv_ServerAuth :: "'c \<Rightarrow> bool"
  xv_IsCA :: "'c \<Rightarrow> bool"
  xv_IssuedBy :: "'c \<Rightarrow> 'c \<Rightarrow> bool"

text \<open>\<^verbatim>\<open>VerifyHostname\<close>: a host that is an IP address, perhaps in brackets, is looked up among the IPs.\<close>

definition host_IP :: "string \<Rightarrow> byte_slice" where
  "host_IP h =
     ParseIP (if length h \<ge> 3 \<and> hd h = CHR ''['' \<and> last h = CHR '']'' then butlast (tl h) else h)"

definition lists_IP :: "('p, 'c) x509_view \<Rightarrow> 'c \<Rightarrow> bytes \<Rightarrow> bool" where
  "lists_IP X c ip \<longleftrightarrow> (\<exists>ip' \<in> set (xv_IPs X c). To16 (Some ip') = To16 (Some ip))"

definition hosts :: "('p, 'c) x509_view \<Rightarrow> 'c \<Rightarrow> string \<Rightarrow> bool" where
  "hosts X c h \<longleftrightarrow>
     (case host_IP h of
        Some ip \<Rightarrow> lists_IP X c ip
      | None \<Rightarrow> h \<in> set (xv_DNSNames X c) \<and> h \<noteq> [] \<and> h \<noteq> ''.'')"

definition known_cert :: "('k, 'p, 'c, 'r) crypto \<Rightarrow> 'c \<Rightarrow> bool" where
  "known_cert C c \<longleftrightarrow> ParseCertificate C (c_Raw C c) = Inr c"

definition in_time :: "('k, 'p, 'c, 'r) crypto \<Rightarrow> ('p, 'c) x509_view \<Rightarrow> 'c \<Rightarrow> int \<Rightarrow> bool" where
  "in_time C X c t \<longleftrightarrow> c_NotBefore C c \<le> t \<and> t \<le> xv_NotAfter X c"

text \<open>A certificate made from a template and signed with a key.\<close>

definition made_from ::
  "('k, 'p, 'c, 'r) crypto \<Rightarrow> ('p, 'c) x509_view \<Rightarrow> cert_template \<Rightarrow> 'c \<Rightarrow> 'p \<Rightarrow> 'k \<Rightarrow> 'c \<Rightarrow> bool" where
  "made_from C X tm parent pub priv c \<longleftrightarrow>
     known_cert C c \<and> c_NotBefore C c = tm_NotBefore tm \<and> xv_NotAfter X c = tm_NotAfter tm \<and>
     xv_DNSNames X c = tm_DNSNames tm \<and> xv_IPs X c = tm_IPAddresses tm \<and> xv_PublicKey X c = pub \<and>
     (ExtKeyUsageServerAuth \<in> set (tm_ExtKeyUsage tm) \<longrightarrow> xv_ServerAuth X c) \<and>
     (xv_PublicKey X parent = key_Public C priv \<longrightarrow> xv_IssuedBy X c parent)"

definition lawful_crypto :: "('k, 'p, 'c, 'r) crypto \<Rightarrow> ('p, 'c) x509_view \<Rightarrow> bool" where
  "lawful_crypto C X \<longleftrightarrow>
     (\<forall>ty b. pem_Decode C (pem_Encode C ty b) = Some b \<and> pem_Encode C ty b \<noteq> []) \<and>
     (\<forall>c. known_cert C c \<longrightarrow> AppendCertsFromPEM C (EncodeCertPEM C c) = [c]) \<and>
     (\<forall>c k. known_cert C c \<and> xv_PublicKey X c = key_Public C k \<longrightarrow>
        X509KeyPair C (EncodeCertPEM C c) (EncodePrivateKeyPEM C k)) \<and>
     (\<forall>b d c c'. ParseCertsPEM C b = Inr [c] \<and> pem_Decode C b = Some d \<and> ParseCertificate C d = Inr c' \<longrightarrow>
        c' = c \<and> known_cert C c) \<and>
     (\<forall>k. ParsePrivateKeyPEM C (EncodePrivateKeyPEM C k) = Inr (Some k)) \<and>
     (\<forall>tm parent pub priv. hoare (\<lambda>_. True) (CreateCertificate C tm parent pub priv)
        (\<lambda>r _. \<forall>der c. r = Inr der \<and> ParseCertificate C der = Inr c \<longrightarrow> made_from C X tm parent pub priv c)) \<and>
     (\<forall>cfg k t. hoare (\<lambda>_. True) (NewSelfSignedCACert C cfg k t)
        (\<lambda>r _. \<forall>c. r = Inr c \<longrightarrow> known_cert C c \<and> xv_PublicKey X c = key_Public C k \<and> xv_IsCA X c \<and>
           c_NotBefore C c = unix t \<and> xv_NotAfter X c = unix t + 10 * 365 * 86400)) \<and>
     (\<forall>c r h roots t. known_cert C c \<and> xv_IssuedBy X c r \<and> r \<in> set roots \<and> xv_IsCA X r \<and>
        xv_ServerAuth X c \<and> in_time C X c t \<and> in_time C X r t \<and> (h = [] \<or> hosts X c h) \<longrightarrow>
        Verify C c h roots t) \<and>
     (\<forall>c h roots t. Verify C c h roots t \<longrightarrow>
        in_time C X c t \<and> (\<forall>ip. h \<noteq> [] \<and> host_IP h = Some ip \<longrightarrow> lists_IP X c ip))"

lemma lawfulD:
  assumes "lawful_crypto C X"
  shows "pem_Decode C (pem_Encode C ty b) = Some b" "pem_Encode C ty b \<noteq> []"
    and "known_cert C c \<Longrightarrow> AppendCertsFromPEM C (EncodeCertPEM C c) = [c]"
    and "known_cert C c \<Longrightarrow> xv_PublicKey X c = key_Public C k \<Longrightarrow>
      X509KeyPair C (EncodeCertPEM C c) (EncodePrivateKeyPEM C k)"
    and "ParseCertsPEM C b = Inr [c] \<Longrightarrow> pem_Decode C b = Some d \<Longrightarrow> ParseCertificate C d = Inr c' \<Longrightarrow>
      c' = c \<and> known_cert C c"
    and "hoare (\<lambda>_. True) (CreateCertificate C tm parent pub priv)
      (\<lambda>r _. \<forall>der c. r = Inr der \<and> ParseCertificate C der = Inr c \<longrightarrow> made_from C X tm parent pub priv c)"
    and "hoare (\<lambda>_. True) (NewSelfSignedCACert C cfg k t)
      (\<lambda>r _. \<forall>c. r = Inr c \<longrightarrow> known_cert C c \<and> xv_PublicKey X c = key_Public C k \<and> xv_IsCA X c \<and>
         c_NotBefore C c = unix t \<and> xv_NotAfter X c = unix t + 10 * 365 * 86400)"
    and "known_cert C c \<Longrightarrow> xv_IssuedBy X c r \<Longrightarrow> r \<in> set roots \<Longrightarrow> xv_IsCA X r \<Longrightarrow> xv_ServerAuth X c \<Longrightarrow>
      in_time C X c u \<Longrightarrow> in_time C X r u \<Longrightarrow> h = [] \<or> hosts X c h \<Longrightarrow> Verify C c h roots u"
    and "Verify C c h roots u \<Longrightarrow> in_time C X c u"
    and "ParsePrivateKeyPEM C (EncodePrivateKeyPEM C k) = Inr (Some k)"
    and "Verify C c h roots u \<Longrightarrow> h \<noteq> [] \<Longrightarrow> host_IP h = Some ip \<Longrightarrow> lists_IP X c ip"
  using assms unfolding lawful_crypto_def by (blast | meson)+

section \<open>A generated certificate is valid\<close>

text \<open>The CA a generator holds, if it is valid at all, is a CA and not from the future.\<close>

definition sound_CA :: "('k, 'p, 'c, 'r) crypto \<Rightarrow> ('p, 'c) x509_view \<Rightarrow> int \<Rightarrow> byte_slice \<Rightarrow> byte_slice \<Rightarrow> bool" where
  "sound_CA C X now caKey caCert \<longleftrightarrow>
     (\<forall>k c. slice_bytes caKey \<noteq> [] \<and> ParsePrivateKeyPEM C (slice_bytes caKey) = Inr (Some k) \<and>
          ParseCertsPEM C (slice_bytes caCert) = Inr [c] \<longrightarrow>
        xv_IsCA X c \<and> xv_PublicKey X c = key_Public C k \<and> c_NotBefore C c \<le> now)"

text \<open>A signing pair made between \<open>a\<close> and \<open>b\<close>, and good for a year from \<open>a\<close>.\<close>

definition signing_ok ::
  "('k, 'p, 'c, 'r) crypto \<Rightarrow> ('p, 'c) x509_view \<Rightarrow> int \<Rightarrow> int \<Rightarrow> 'k \<times> 'c \<Rightarrow> bool" where
  "signing_ok C X a b kc \<longleftrightarrow>
     known_cert C (snd kc) \<and> xv_IsCA X (snd kc) \<and> xv_PublicKey X (snd kc) = key_Public C (fst kc) \<and>
     c_NotBefore C (snd kc) \<le> b \<and> a + 365 * 86400 \<le> xv_NotAfter X (snd kc)"

text \<open>What a generator changes: randomness is consumed and time passes.\<close>

definition drift :: "('a, 'r) world \<Rightarrow> ('a, 'r) world \<Rightarrow> bool" where
  "drift w0 w \<longleftrightarrow>
     os_step (w_os w0) \<le> os_step (w_os w) \<and> os_fs (w_os w) = os_fs (w_os w0) \<and>
     os_hist (w_os w) = os_hist (w_os w0) \<and> w_api w = w_api w0 \<and>
     w_caKey w = w_caKey w0 \<and> w_caCert w = w_caCert w0"

lemma drift_refl [simp]: "drift w w"
  by (simp add: drift_def)

lemma drift_now: "clock E \<Longrightarrow> drift w0 w \<Longrightarrow> now_at E w0 \<le> now_at E w"
  by (simp add: drift_def clockD)

lemma drift_on_rand:
  assumes "hoare (\<lambda>_. True) m (\<lambda>x _. Q x)"
  shows "hoare (drift w0) (on_rand m) (\<lambda>x w. drift w0 w \<and> Q x)"
  by (rule hoare_on_rand, rule hoareI) (use hoareD [OF assms] in \<open>auto simp: drift_def\<close>)

lemma drift_now_call:
  assumes "clock E"
  shows "hoare (drift w0) (time_Now E)
    (\<lambda>t w. drift w0 w \<and> real_month t \<and> now_at E w0 \<le> unix t \<and> unix t \<le> now_at E w)"
  unfolding time_Now_def
  by (rule hoare_on_os, rule hoareI) (use clockD [OF assms] in \<open>auto simp: drift_def\<close>)

lemma ValidCACert_time:
  assumes L: "lawful_crypto C X" and v: "ValidCACert C key cert ca [] t"
    and c: "ParseCertsPEM C (slice_bytes cert) = Inr [c]"
  shows "known_cert C c \<and> in_time C X c (unix t)"
proof -
  from v obtain d c' pool where d: "pem_Decode C (slice_bytes cert) = Some d" "ParseCertificate C d = Inr c'"
    "Verify C c' [] pool (unix t)"
    unfolding ValidCACert_def Let_def by (auto split: if_splits option.splits sum.splits)
  with lawfulD(5) [OF L c d(1,2)] lawfulD(9) [OF L d(3)] show ?thesis by simp
qed

lemma validCACert_ok:
  assumes L: "lawful_crypto C X" and K: "clock E"
    and sound: "sound_CA C X (now_at E w0) (w_caKey w0) (w_caCert w0)"
  shows "hoare (drift w0) (validCACert E C)
    (\<lambda>r w. drift w0 w \<and> (\<forall>kc. r = Some kc \<longrightarrow> signing_ok C X (now_at E w0) (now_at E w) kc))"
proof -
  have ok: "signing_ok C X (now_at E w0) (now_at E w) (k, c)"
    if "ValidCACert C (w_caKey w0) (w_caCert w0) (w_caCert w0) [] (AddDate t 1 0 0)"
      and k: "ParsePrivateKeyPEM C (slice_bytes (w_caKey w0)) = Inr (Some k)"
      and c: "ParseCertsPEM C (slice_bytes (w_caCert w0)) = Inr [c]"
      and t: "real_month t" "now_at E w0 \<le> unix t" and d: "drift w0 w" for t k c w
  proof -
    have "known_cert C c" "unix (AddDate t 1 0 0) \<le> xv_NotAfter X c"
      using ValidCACert_time [OF L that(1) c] by (auto simp: in_time_def)
    moreover have "unix t + 365 * 86400 \<le> unix (AddDate t 1 0 0)" using AddDate_year [OF t(1)] by auto
    moreover have "c_NotBefore C c \<le> now_at E w0" "xv_IsCA X c" "xv_PublicKey X c = key_Public C k"
      using sound k c that(1) by (auto simp: sound_CA_def ValidCACert_def split: if_splits)
    ultimately show ?thesis using t drift_now [OF K d] by (simp add: signing_ok_def)
  qed
  show ?thesis
    unfolding validCACert_def
  proof (rule hoare_get, goal_cases)
    case (1 w1)
    show ?case
    proof (rule hoare_pre [OF hoare_bind [OF drift_now_call [OF K, of w0]]], rule hoare_return_pre, goal_cases)
      case (1 t w)
      from \<open>drift w0 w1\<close> have w1: "w_caKey w1 = w_caKey w0" "w_caCert w1 = w_caCert w0" by (auto simp: drift_def)
      from 1 show ?case
        unfolding w1 by (auto simp: length_Suc_conv split: if_splits sum.splits option.splits intro!: ok)
    qed (use 1 in simp)
  qed
qed

lemma drift_on_rand_frame: "hoare (drift w0) (on_rand m) (\<lambda>_ w. drift w0 w)"
  using drift_on_rand [OF hoare_True, of w0 m] by simp

lemma signingPair_ok:
  assumes L: "lawful_crypto C X" and K: "clock E"
    and sound: "sound_CA C X (now_at E w0) (w_caKey w0) (w_caCert w0)"
  shows "hoare (drift w0) (signingPair E C)
    (\<lambda>r w. drift w0 w \<and> (\<forall>kc. r = Inr kc \<longrightarrow> signing_ok C X (now_at E w0) (now_at E w) kc))"
  unfolding signingPair_def
proof (rule hoare_bind [OF validCACert_ok [OF L K sound]], rule hoare_option, goal_cases)
  case (1 v)
  have key: "hoare (drift w0) (NewPrivateKey C) (\<lambda>_ w. drift w0 w)"
    unfolding NewPrivateKey_def by (rule drift_on_rand_frame)
  show ?case
  proof (rule hoare_pre [OF hoare_bind [OF key]], rule hoare_sum, goal_cases)
    case (1 k e)
    show ?case by (rule hoare_return_pre) simp
  next
    case (2 r k)
    show ?case
    proof (rule hoare_bind [OF drift_now_call [OF K]], goal_cases)
      case (1 t)
      let ?cfg = "\<lparr>cfg_CommonName = ''webhook-cert-ca'', cfg_Organization = [], cfg_DNSNames = [],
                cfg_IPs = [], cfg_Usages = []\<rparr>"
      have "hoare (\<lambda>w. drift w0 w \<and> unix t \<le> now_at E w) (on_rand (NewSelfSignedCACert C ?cfg k t))
        (\<lambda>c w. (drift w0 w \<and> unix t \<le> now_at E w) \<and> (\<forall>ct. c = Inr ct \<longrightarrow> known_cert C ct \<and>
          xv_PublicKey X ct = key_Public C k \<and> xv_IsCA X ct \<and>
           c_NotBefore C ct = unix t \<and> xv_NotAfter X ct = unix t + 10 * 365 * 86400))"
        by (rule hoare_on_rand, rule hoareI)
          (use hoareD [OF lawfulD(7) [OF L, of ?cfg k t]] in \<open>auto simp: drift_def\<close>)
      then have *: "hoare (\<lambda>w. drift w0 w \<and> unix t \<le> now_at E w \<and> now_at E w0 \<le> unix t) (on_rand (NewSelfSignedCACert C ?cfg k t))
        (\<lambda>c w. (drift w0 w \<and> unix t \<le> now_at E w \<and> now_at E w0 \<le> unix t) \<and> (\<forall>ct. c = Inr ct \<longrightarrow> known_cert C ct \<and>
          xv_PublicKey X ct = key_Public C k \<and> xv_IsCA X ct \<and>
           c_NotBefore C ct = unix t \<and> xv_NotAfter X ct = unix t + 10 * 365 * 86400))"
        unfolding hoare_def by blast
      show ?case
        by (rule hoare_pre [OF hoare_bind [OF *]], rule hoare_return_pre)
          (auto simp: signing_ok_def split: sum.splits)
    qed
  qed simp
next
  case (2 v kc)
  then show ?case by (auto intro: hoare_return_pre)
qed

text \<open>What the artifacts for a name hold.\<close>

definition good_artifacts ::
  "('k, 'p, 'c, 'r) crypto \<Rightarrow> ('p, 'c) x509_view \<Rightarrow> int \<Rightarrow> int \<Rightarrow> string \<Rightarrow> artifacts \<Rightarrow> bool" where
  "good_artifacts C X a b cn art \<longleftrightarrow>
     (\<exists>key cert sk sc. art = \<lparr>Key = Some (EncodePrivateKeyPEM C key), Cert = Some (EncodeCertPEM C cert),
        CAKey = Some (EncodePrivateKeyPEM C sk), CACert = Some (EncodeCertPEM C sc), ResourceVersion = []\<rparr> \<and>
      signing_ok C X a b (sk, sc) \<and> known_cert C cert \<and> xv_PublicKey X cert = key_Public C key \<and>
      xv_IssuedBy X cert sc \<and> xv_ServerAuth X cert \<and> c_NotBefore C cert = c_NotBefore C sc \<and>
      a + 10 * 365 * 86400 \<le> xv_NotAfter X cert \<and>
      xv_DNSNames X cert = altDNSNames cn \<and> xv_IPs X cert = altIPs cn)"

text \<open>A certificate issued at \<open>a\<close> or later for a configuration.\<close>

definition issued ::
  "('k, 'p, 'c, 'r) crypto \<Rightarrow> ('p, 'c) x509_view \<Rightarrow> int \<Rightarrow> cert_config \<Rightarrow> 'k \<Rightarrow> 'c \<Rightarrow> 'k \<Rightarrow> 'c \<Rightarrow> bool" where
  "issued C X a cfg key sc sk c \<longleftrightarrow>
     known_cert C c \<and> c_NotBefore C c = c_NotBefore C sc \<and> a + 10 * 365 * 86400 \<le> xv_NotAfter X c \<and>
     xv_DNSNames X c = cfg_DNSNames cfg \<and> xv_IPs X c = cfg_IPs cfg \<and> xv_PublicKey X c = key_Public C key \<and>
     (ExtKeyUsageServerAuth \<in> set (cfg_Usages cfg) \<longrightarrow> xv_ServerAuth X c) \<and>
     (xv_PublicKey X sc = key_Public C sk \<longrightarrow> xv_IssuedBy X c sc)"

lemma NewSignedCert_ok:
  assumes L: "lawful_crypto C X" and K: "clock E"
  shows "hoare (drift w0) (NewSignedCert E C cfg key sc sk)
    (\<lambda>r w. drift w0 w \<and> (\<forall>c. r = Inr c \<longrightarrow> issued C X (now_at E w0) cfg key sc sk c))"
  unfolding NewSignedCert_def
proof (rule hoare_bind [OF drift_on_rand_frame], rule hoare_sum, goal_cases)
  case (1 s e)
  show ?case by (rule hoare_return_pre) simp
next
  case (2 s serial)
  show ?case
  proof (rule hoare_if, goal_cases)
    case 1
    show ?case by (rule hoare_return_pre) simp
  next
    case 2
    show ?case
    proof (rule hoare_if, goal_cases)
      case 1
      show ?case by (rule hoare_return_pre) simp
    next
      case 2
      show ?case
        unfolding Let_def
      proof (rule hoare_bind_at [OF drift_now_call [OF K, of w0]], goal_cases)
        case (1 t w1)
        let ?tm = "\<lparr>tm_CommonName = cfg_CommonName cfg, tm_Organization = cfg_Organization cfg,
              tm_DNSNames = cfg_DNSNames cfg, tm_IPAddresses = cfg_IPs cfg,
              tm_SerialNumber = serial, tm_NotBefore = c_NotBefore C sc,
              tm_NotAfter = unix t + 60 * 60 * 24 * 365 * 10,
              tm_KeyUsage = [''KeyEncipherment'', ''DigitalSignature''],
              tm_ExtKeyUsage = cfg_Usages cfg\<rparr>"
        note made = drift_on_rand [OF lawfulD(6) [OF L, of ?tm sc "key_Public C key" sk], of w0]
        have "issued C X (now_at E w0) cfg key sc sk c" if "made_from C X ?tm sc (key_Public C key) sk c" for c
          using that 1 by (simp add: made_from_def issued_def)
        then show ?case
          by (intro hoare_pre [OF hoare_bind [OF made]] hoare_return_pre)
            (use 1 in \<open>simp_all split: sum.splits\<close>)
      qed
    qed
  qed
qed

lemma Generate_ok:
  assumes L: "lawful_crypto C X" and K: "clock E"
    and sound: "sound_CA C X (now_at E w0) (w_caKey w0) (w_caCert w0)"
  shows "hoare (\<lambda>w. w = w0) (SelfSigned_Generate E C cn)
    (\<lambda>r w. drift w0 w \<and> (\<forall>art. r = Inr art \<longrightarrow> good_artifacts C X (now_at E w0) (now_at E w) cn art))"
  unfolding SelfSigned_Generate_def
proof (rule hoare_pre [OF hoare_bind_at [OF signingPair_ok [OF L K sound]]], rule hoare_sum, goal_cases)
  case (1 s w1 e)
  then show ?case by (auto intro: hoare_return_pre)
next
  case (2 s w1 kc)
  obtain sk sc where kc: "kc = (sk, sc)" by (cases kc)
  with 2 have d1: "drift w0 w1" and so: "signing_ok C X (now_at E w0) (now_at E w1) (sk, sc)" by auto
  have key: "hoare (drift w1) (NewPrivateKey C) (\<lambda>_ w. drift w1 w)"
    unfolding NewPrivateKey_def by (rule drift_on_rand_frame)
  have drift: "drift w0 w" if "drift w1 w" for w using d1 that by (auto simp: drift_def)
  show ?case
    unfolding kc prod.case
  proof (rule hoare_pre [OF hoare_bind [OF key]], rule hoare_sum, goal_cases)
    case (1 k e)
    show ?case by (rule hoare_return_pre) (simp add: drift)
  next
    case (2 r k)
    let ?cfg = "\<lparr>cfg_CommonName = cn, cfg_Organization = [],
                cfg_DNSNames = altDNSNames cn, cfg_IPs = altIPs cn, cfg_Usages = [ExtKeyUsageServerAuth]\<rparr>"
    show ?case
    proof (rule hoare_bind [OF NewSignedCert_ok [OF L K, of w1 ?cfg k sc sk]], rule hoare_return_pre, goal_cases)
      case (1 c w)
      then have d: "drift w1 w" and i: "\<And>ct. c = Inr ct \<Longrightarrow> issued C X (now_at E w1) ?cfg k sc sk ct" by auto
      have t: "now_at E w0 \<le> now_at E w1" "now_at E w1 \<le> now_at E w"
        using drift_now [OF K d1] drift_now [OF K d] by auto
      have "good_artifacts C X (now_at E w0) (now_at E w) cn
          \<lparr>Key = Some (EncodePrivateKeyPEM C k), Cert = Some (EncodeCertPEM C ct),
            CAKey = Some (EncodePrivateKeyPEM C sk), CACert = Some (EncodeCertPEM C sc), ResourceVersion = []\<rparr>"
        if "c = Inr ct" for ct
        unfolding good_artifacts_def
        by (rule exI [of _ k], rule exI [of _ ct], rule exI [of _ sk], rule exI [of _ sc])
          (use i [OF that] so t in \<open>simp add: issued_def signing_ok_def\<close>)
      then show ?case using drift [OF d] by (auto split: sum.splits)
    qed
  qed simp
qed simp

section \<open>Which names a generated certificate serves\<close>

text \<open>DNS names, and IPv4 addresses.\<close>

definition servable :: "string \<Rightarrow> bool" where
  "servable cn \<longleftrightarrow>
     (case To4 (ParseIP cn) of
        None \<Rightarrow> host_IP cn = None \<and> cn \<noteq> [] \<and> cn \<noteq> ''.''
      | Some _ \<Rightarrow> host_IP cn = ParseIP cn)"

lemma To16_To4:
  assumes "To4 (Some ip) = Some ip4"
  shows "To16 (Some ip4) = To16 (Some ip)"
proof -
  consider "length ip = 4" "ip4 = ip" | "length ip = 16" "take 12 ip = v4InV6Prefix" "ip4 = drop 12 ip"
    using assms by (auto simp: To4_def split: if_splits)
  then show ?thesis
  proof cases
    case 2
    have "v4InV6Prefix @ drop 12 ip = ip" unfolding 2(2) [symmetric] by (rule append_take_drop_id)
    with 2 show ?thesis by (simp add: To16_def)
  qed simp
qed

lemma servable_hosts:
  assumes "servable cn" "xv_DNSNames X c = altDNSNames cn" "xv_IPs X c = altIPs cn"
  shows "hosts X c cn"
proof (cases "To4 (ParseIP cn)")
  case None
  with assms show ?thesis by (simp add: servable_def hosts_def altDNSNames_def)
next
  case (Some ip4)
  then obtain ip where ip: "ParseIP cn = Some ip" by (cases "ParseIP cn") (auto simp: To4_def)
  with Some have "To16 (Some ip4) = To16 (Some ip)" using To16_To4 by simp
  with assms Some ip show ?thesis by (simp add: servable_def hosts_def altIPs_def lists_IP_def)
qed

text \<open>An IPv6 address is put among the DNS names, and looked up among the IPs.\<close>

definition unservable :: "string \<Rightarrow> bool" where
  "unservable cn \<longleftrightarrow> To4 (ParseIP cn) = None \<and> host_IP cn \<noteq> None \<and> cn \<noteq> []"

lemma ParseIP_loopback: "ParseIP ''::1'' = Some [0, 0, 0, 0, 0, 0, 0, 0, 0, 0, 0, 0, 0, 0, 0, 1]"
proof -
  have r: "(replicate 14 0 :: bytes) = [0, 0, 0, 0, 0, 0, 0, 0, 0, 0, 0, 0, 0, 0]" by code_simp
  have "parseIPv6_loop ''1'' [] (Some 0) = Some ([], [0, 1], Some 0)"
    by (subst parseIPv6_loop.simps) (simp add: xtoi_def hex_digit_def)
  then show ?thesis by (simp add: ParseIP_def parseIPv6_def r)
qed

lemma unservable_loopback: "unservable ''::1''"
  by (simp add: unservable_def host_IP_def ParseIP_loopback To4_def v4InV6Prefix_def)

lemma sound_nil_CA [simp]: "sound_CA C X now None ct"
  by (simp add: sound_CA_def)

lemma sound_CA_later: "sound_CA C X a k c \<Longrightarrow> a \<le> b \<Longrightarrow> sound_CA C X b k c"
  unfolding sound_CA_def by (meson order_trans)

lemma good_artifacts_sound:
  assumes L: "lawful_crypto C X" and g: "good_artifacts C X a b cn art"
  shows "sound_CA C X b (CAKey art) (CACert art)"
proof -
  obtain sk sc where art: "CAKey art = Some (EncodePrivateKeyPEM C sk)" "CACert art = Some (EncodeCertPEM C sc)"
    and so: "signing_ok C X a b (sk, sc)" using g unfolding good_artifacts_def by force
  have kn: "known_cert C sc" using so by (simp add: signing_ok_def)
  have "c = sc" if "ParseCertsPEM C (EncodeCertPEM C sc) = Inr [c]" for c
  proof -
    have d: "pem_Decode C (EncodeCertPEM C sc) = Some (c_Raw C sc)"
      unfolding EncodeCertPEM_def by (rule lawfulD(1) [OF L])
    have p: "ParseCertificate C (c_Raw C sc) = Inr sc" using kn by (simp add: known_cert_def)
    show ?thesis using lawfulD(5) [OF L that d p] by simp
  qed
  moreover have "k = sk" if "ParsePrivateKeyPEM C (EncodePrivateKeyPEM C sk) = Inr (Some k)" for k
    using that lawfulD(10) [OF L, of sk] by simp
  ultimately show ?thesis using so art by (auto simp: sound_CA_def signing_ok_def)
qed

section \<open>The CA across renewals\<close>

text \<open>
  The interface: a generator keeps the CA it was given, and signs with it as long as it is
  usable.
\<close>

locale ca_generator =
  fixes g :: "'s certGenerator"
    and ca :: "'s \<Rightarrow> byte_slice \<times> byte_slice"
    and usable :: "'s \<Rightarrow> bool"
  assumes SetCA: "hoare (\<lambda>s. s = s0) (SetCA g k c) (\<lambda>_ s. ca s = (k, c))"
    and keeps_CA: "hoare (\<lambda>s. ca s = x) (Generate g cn) (\<lambda>_ s. ca s = x)"
    and signs: "hoare (\<lambda>s. ca s = x \<and> usable s) (Generate g cn)
      (\<lambda>r _. \<forall>art. r = Inr art \<longrightarrow> (CAKey art, CACert art) = x)"
begin

text \<open>A renewal after the CA was stored signs with that CA.\<close>

lemma renewal:
  assumes "usable (snd (run_state (SetCA g k c) s0))"
  shows "hoare (\<lambda>s. s = s0) (do {
      _ \<leftarrow> SetCA g k c;
      Generate g cn
    }) (\<lambda>r s. ca s = (k, c) \<and> (\<forall>art. r = Inr art \<longrightarrow> CAKey art = k \<and> CACert art = c))"
proof (rule hoareI)
  fix s r s' assume s: "s = s0" and run: "run_state (do { _ \<leftarrow> SetCA g k c; Generate g cn }) s = (r, s')"
  obtain u s1 where s1: "run_state (SetCA g k c) s0 = (u, s1)" by (rule prod.exhaust)
  with run s have r: "run_state (Generate g cn) s1 = (r, s')" by simp
  have "ca s1 = (k, c)" using hoareD [OF SetCA _ s1] by simp
  with assms s1 have "ca s1 = (k, c) \<and> usable s1" by simp
  from hoareD [OF signs this r] hoareD [OF keeps_CA _ r, of "(k, c)"] this
  show "ca s' = (k, c) \<and> (\<forall>art. r = Inr art \<longrightarrow> CAKey art = k \<and> CACert art = c)" by simp
qed

end

text \<open>A CA the self-signed generator can use: in its own encoding, and valid in a year.\<close>

definition usable_CA :: "os_env \<Rightarrow> ('k, 'p, 'c, 'r) crypto \<Rightarrow> ('a, 'r) world \<Rightarrow> bool" where
  "usable_CA E C w \<longleftrightarrow>
     (\<exists>k c. w_caKey w = Some (EncodePrivateKeyPEM C k) \<and> w_caCert w = Some (EncodeCertPEM C c) \<and>
        ParsePrivateKeyPEM C (EncodePrivateKeyPEM C k) = Inr (Some k) \<and>
        ParseCertsPEM C (EncodeCertPEM C c) = Inr [c]) \<and>
     ValidCACert C (w_caKey w) (w_caCert w) (w_caCert w) [] (AddDate (env_now E (os_step (w_os w))) 1 0 0)"

lemma keeps_on_rand: "hoare (\<lambda>w. (w_caKey w, w_caCert w) = x) (on_rand m) (\<lambda>_ w. (w_caKey w, w_caCert w) = x)"
  by (auto simp: hoare_def split: prod.splits)

lemma keeps_time_Now: "hoare (\<lambda>w. (w_caKey w, w_caCert w) = x) (time_Now E) (\<lambda>_ w. (w_caKey w, w_caCert w) = x)"
  by (auto simp: hoare_def time_Now_def)

lemma keeps_validCACert:
  "hoare (\<lambda>w. (w_caKey w, w_caCert w) = x) (validCACert E C) (\<lambda>_ w. (w_caKey w, w_caCert w) = x)"
  by (auto simp: hoare_def validCACert_def time_Now_def)

lemma keeps_signingPair:
  "hoare (\<lambda>w. (w_caKey w, w_caCert w) = x) (signingPair E C) (\<lambda>_ w. (w_caKey w, w_caCert w) = x)"
  unfolding signingPair_def NewPrivateKey_def
  by (intro hoare_bind [OF keeps_validCACert] hoare_option hoare_bind [OF keeps_on_rand] hoare_sum
      hoare_bind [OF keeps_time_Now] hoare_return_pre)

lemma keeps_Generate:
  "hoare (\<lambda>w. (w_caKey w, w_caCert w) = x) (SelfSigned_Generate E C cn) (\<lambda>_ w. (w_caKey w, w_caCert w) = x)"
proof -
  have n: "hoare (\<lambda>w. (w_caKey w, w_caCert w) = x) (NewSignedCert E C cfg k sc sk) (\<lambda>_ w. (w_caKey w, w_caCert w) = x)"
    for cfg k sc sk
    unfolding NewSignedCert_def Let_def
    by (intro hoare_bind [OF keeps_on_rand] hoare_sum hoare_if hoare_bind [OF keeps_time_Now] hoare_return_pre)
  show ?thesis
    unfolding SelfSigned_Generate_def NewPrivateKey_def case_prod_beta
    by (intro hoare_bind [OF keeps_signingPair] hoare_bind [OF keeps_on_rand] hoare_sum hoare_bind [OF n] hoare_return_pre)
qed

text \<open>With a usable CA the signing pair is that CA.\<close>

lemma signs_signingPair:
  "hoare (\<lambda>w. (w_caKey w, w_caCert w) = x \<and> usable_CA E C w) (signingPair E C)
    (\<lambda>r _. \<forall>kc. r = Inr kc \<longrightarrow> (Some (EncodePrivateKeyPEM C (fst kc)), Some (EncodeCertPEM C (snd kc))) = x)"
proof (rule hoareI)
  fix w r w'
  assume w: "(w_caKey w, w_caCert w) = x \<and> usable_CA E C w" and run: "run_state (signingPair E C) w = (r, w')"
  then obtain k c where k: "w_caKey w = Some (EncodePrivateKeyPEM C k)" "w_caCert w = Some (EncodeCertPEM C c)"
    "ParsePrivateKeyPEM C (EncodePrivateKeyPEM C k) = Inr (Some k)" "ParseCertsPEM C (EncodeCertPEM C c) = Inr [c]"
    and v: "ValidCACert C (w_caKey w) (w_caCert w) (w_caCert w) [] (AddDate (env_now E (os_step (w_os w))) 1 0 0)"
    unfolding usable_CA_def by blast
  have "fst (run_state (validCACert E C) w) = Some (k, c)"
    using v k by (simp add: validCACert_def time_Now_def)
  then have "r = Inr (k, c)"
    using run by (auto simp: signingPair_def split: prod.splits)
  with w k show "\<forall>kc. r = Inr kc \<longrightarrow> (Some (EncodePrivateKeyPEM C (fst kc)), Some (EncodeCertPEM C (snd kc))) = x"
    by simp
qed

lemma signs_Generate:
  "hoare (\<lambda>w. (w_caKey w, w_caCert w) = x \<and> usable_CA E C w) (SelfSigned_Generate E C cn)
    (\<lambda>r _. \<forall>art. r = Inr art \<longrightarrow> (CAKey art, CACert art) = x)"
  unfolding SelfSigned_Generate_def
proof (rule hoare_bind_at [OF signs_signingPair], rule hoare_sum, goal_cases)
  case (2 s w kc)
  obtain sk sc where kc: "kc = (sk, sc)" by (rule prod.exhaust)
  show ?case
    unfolding kc prod.case
    by (rule hoare_bind [OF hoare_True], rule hoare_sum, rule hoare_return_pre, simp,
        rule hoare_bind [OF hoare_True], rule hoare_return_pre)
      (use 2 kc in \<open>auto split: sum.splits\<close>)
qed (auto intro: hoare_return_pre)

lemma sets_CA: "hoare (\<lambda>s. s = s0) (SelfSigned_SetCA k c) (\<lambda>_ s. w_caKey s = k \<and> w_caCert s = c)"
  by (simp add: SelfSigned_SetCA_def hoare_def)

interpretation selfsigned: ca_generator "SelfSignedCertGenerator E C" "\<lambda>w. (w_caKey w, w_caCert w)" "usable_CA E C"
  for E C
  by unfold_locales (simp_all add: SelfSignedCertGenerator_def sets_CA keeps_Generate signs_Generate)

interpretation fake: ca_generator FakeCertGenerator "\<lambda>cp. (fake_CAKey cp, fake_CACert cp)"
  "\<lambda>cp. fake_CAKey cp \<noteq> None \<and> fake_CACert cp \<noteq> None \<and>
     \<not> says_invalid (fake_CAKey cp) \<and> \<not> says_invalid (fake_CACert cp)"
  by unfold_locales
    (auto simp: FakeCertGenerator_def Fake_SetCA_def Fake_Generate_def hoare_def Let_def split: option.splits if_splits)

text \<open>
  What a client that trusts the CA bundle \<open>ca\<close> can rely on: the certificate was signed with
  the key of the CA in the bundle, and verifies against the bundle for the name at every moment
  between \<open>a\<close> and \<open>b\<close>.
\<close>

definition signed_by_bundle ::
  "('k, 'p, 'c, 'r) crypto \<Rightarrow> ('p, 'c) x509_view \<Rightarrow> byte_slice \<Rightarrow> artifacts \<Rightarrow> string \<Rightarrow> int \<Rightarrow> int \<Rightarrow> bool" where
  "signed_by_bundle C X ca art cn a b \<longleftrightarrow>
     (\<exists>cert sc. Cert art = Some (EncodeCertPEM C cert) \<and> known_cert C cert \<and>
        AppendCertsFromPEM C (slice_bytes ca) = [sc] \<and> xv_IssuedBy X cert sc \<and>
        (\<forall>t. a \<le> t \<and> t \<le> b \<longrightarrow> Verify C cert cn (AppendCertsFromPEM C (slice_bytes ca)) t))"

lemma good_artifacts_signed:
  assumes L: "lawful_crypto C X" and g: "good_artifacts C X a b cn art" and cn: "servable cn"
  shows "signed_by_bundle C X (CACert art) art cn b (a + 365 * 86400)"
proof -
  obtain cert sk sc where art: "Cert art = Some (EncodeCertPEM C cert)" "CACert art = Some (EncodeCertPEM C sc)"
    and so: "signing_ok C X a b (sk, sc)" and kn: "known_cert C cert"
    and iss: "xv_IssuedBy X cert sc" "xv_ServerAuth X cert" "c_NotBefore C cert = c_NotBefore C sc"
      "a + 10 * 365 * 86400 \<le> xv_NotAfter X cert" "xv_DNSNames X cert = altDNSNames cn" "xv_IPs X cert = altIPs cn"
    using g unfolding good_artifacts_def by force
  have pool: "AppendCertsFromPEM C (EncodeCertPEM C sc) = [sc]"
    by (rule lawfulD(3) [OF L]) (use so in \<open>simp add: signing_ok_def\<close>)
  have "Verify C cert cn [sc] t" if "b \<le> t" "t \<le> a + 365 * 86400" for t
    by (rule lawfulD(8) [OF L kn iss(1)])
      (use that so iss servable_hosts [OF cn iss(5,6)] in \<open>auto simp: signing_ok_def in_time_def\<close>)
  with art kn pool iss(1) show ?thesis by (auto simp: signed_by_bundle_def)
qed

text \<open>
  C28: A renewal that is given the stored CA signs the new certificate with it, so that clients
  that trust the stored CA bundle accept the new certificate: when the CA is a CA whose key was
  given with it, in the generator's encoding and valid for another year, the artifacts carry the
  CA key and certificate that were set, the new certificate is signed with the key of that CA,
  and it verifies against the stored bundle, for a name that generated certificates serve, for a
  year from the start of the renewal.
\<close>

theorem renewal_keeps_CA:
  fixes E :: os_env and C :: "('k, 'p, 'c, 'r) crypto" and w :: "('a, 'r) world"
  assumes L: "lawful_crypto C X" and K: "clock E" and cn: "servable cn"
    and ca: "sound_CA C X (now_at E w) k c" "usable_CA E C (w\<lparr>w_caKey := k, w_caCert := c\<rparr>)"
    and run: "run_state (do { _ \<leftarrow> SelfSigned_SetCA k c; SelfSigned_Generate E C cn }) w = (Inr art, w')"
  shows "CAKey art = k \<and> CACert art = c \<and> w_caKey w' = k \<and> w_caCert w' = c \<and>
    signed_by_bundle C X c art cn (now_at E w') (now_at E w + 365 * 86400)"
proof -
  let ?w = "w\<lparr>w_caKey := k, w_caCert := c\<rparr>"
  have "usable_CA E C (snd (run_state (SetCA (SelfSignedCertGenerator E C) k c) w))"
    using ca(2) by (simp add: SelfSignedCertGenerator_def SelfSigned_SetCA_def)
  from hoareD [OF selfsigned.renewal [OF this, of cn] refl] run
  have keep: "CAKey art = k" "CACert art = c" "w_caKey w' = k" "w_caCert w' = c"
    by (simp_all add: SelfSignedCertGenerator_def)
  have "run_state (SelfSigned_Generate E C cn) ?w = (Inr art, w')" using run by (simp add: SelfSigned_SetCA_def)
  from hoareD [OF Generate_ok [OF L K, of ?w cn] refl this] ca(1)
  have "good_artifacts C X (now_at E w) (now_at E w') cn art" by simp
  from good_artifacts_signed [OF L this cn] keep show ?thesis by simp
qed

end
