(* ===== verification/Cert_Writer.thy ===== *)
theory Cert_Writer
  imports Cert_Generator
begin

text \<open>
  The common part of the certificate writers (\<^verbatim>\<open>webhook/util/writer/certwriter.go\<close>,
  \<^verbatim>\<open>error.go\<close>).  The locale \<open>cert_store\<close> is the interface \<^verbatim>\<open>certReadWriter\<close> with what its
  two implementations promise; what \<^verbatim>\<open>handleCommon\<close> guarantees is proved once inside it.
\<close>

section \<open>error.go\<close>

text \<open>What went wrong, and the two wrappers that \<^verbatim>\<open>handleCommon\<close> looks for.\<close>

datatype cause = FromApi error | FromOs errno | FromAtomic string | Text string

datatype cert_error = NotFoundError cause | AlreadyExistError cause | PlainError cause

definition isNotFound :: "cert_error \<Rightarrow> bool" where
  "isNotFound err = (case err of NotFoundError _ \<Rightarrow> True | _ \<Rightarrow> False)"

definition isAlreadyExists :: "cert_error \<Rightarrow> bool" where
  "isAlreadyExists err = (case err of AlreadyExistError _ \<Rightarrow> True | _ \<Rightarrow> False)"

section \<open>certwriter.go\<close>

definition CAKeyName :: string where "CAKeyName = ''ca-key.pem''"
definition CACertName :: string where "CACertName = ''ca-cert.pem''"
definition ServerKeyName :: string where "ServerKeyName = ''key.pem''"
definition ServerKeyName2 :: string where "ServerKeyName2 = ''tls.key''"
definition ServerCertName :: string where "ServerCertName = ''cert.pem''"
definition ServerCertName2 :: string where "ServerCertName2 = ''tls.crt''"

text \<open>
  The interface.  Every implementation returns artifacts when it returns no error, so a call's
  result is one or the other.
\<close>

record 's certReadWriter =
  crw_read :: "('s, cert_error + artifacts) state"
  crw_write :: "('s, cert_error + artifacts) state"
  crw_overwrite :: "string \<Rightarrow> ('s, cert_error + artifacts) state"

definition validCert ::
  "os_env \<Rightarrow> ('k, 'p, 'c, 'r) crypto \<Rightarrow> artifacts option \<Rightarrow> string \<Rightarrow> (('a, 'r) world, bool) state" where
  "validCert E C certs dnsName =
     (case certs of
        None \<Rightarrow> State_Monad.return False
      | Some certs \<Rightarrow>
          if Cert certs = None \<or> Key certs = None \<or> CACert certs = None then State_Monad.return False
          else if \<not> X509KeyPair C (slice_bytes (Cert certs)) (slice_bytes (Key certs))
          then State_Monad.return False
          else let pool = AppendCertsFromPEM C (slice_bytes (CACert certs))
               in if pool = [] then State_Monad.return False
                  else case pem_Decode C (slice_bytes (Cert certs)) of
                    None \<Rightarrow> State_Monad.return False
                  | Some block \<Rightarrow>
                      (case ParseCertificate C block of
                         Inl err \<Rightarrow> State_Monad.return False
                       | Inr cert \<Rightarrow> do {
                           t \<leftarrow> time_Now E;
                           State_Monad.return (Verify C cert dnsName pool (unix (AddDate t 0 6 0)))
                         }))"

definition createIfNotExists :: "'s certReadWriter \<Rightarrow> ('s, bool \<times> (cert_error + artifacts)) state" where
  "createIfNotExists ch = do {
     r \<leftarrow> crw_read ch;
     if (case r of Inl err \<Rightarrow> isNotFound err | Inr _ \<Rightarrow> False) then do {
       r \<leftarrow> crw_write ch;
       if (case r of Inl err \<Rightarrow> isAlreadyExists err | Inr _ \<Rightarrow> False) then do {
         r \<leftarrow> crw_read ch;
         State_Monad.return (True, r)
       }
       else State_Monad.return (True, r)
     }
     else State_Monad.return (False, r)
   }"

definition handleCommon ::
  "os_env \<Rightarrow> ('k, 'p, 'c, 'r) crypto \<Rightarrow> string \<Rightarrow> ('a, 'r) world certReadWriter option \<Rightarrow>
   (('a, 'r) world, bool \<times> (cert_error + artifacts)) state" where
  "handleCommon E C dnsName chopt =
     (if length dnsName = 0 then
        State_Monad.return (False, Inl (PlainError (Text ''dnsName should not be empty'')))
      else case chopt of
        None \<Rightarrow> State_Monad.return (False, Inl (PlainError (Text ''certReaderWriter should not be nil'')))
      | Some ch \<Rightarrow> do {
          (changed, r) \<leftarrow> createIfNotExists ch;
          case r of
            Inl err \<Rightarrow> State_Monad.return (changed, Inl err)
          | Inr certs \<Rightarrow> do {
              valid \<leftarrow> validCert E C (Some certs) dnsName;
              if \<not> valid then do {
                r \<leftarrow> crw_overwrite ch (ResourceVersion certs);
                State_Monad.return (case r of Inl err \<Rightarrow> (False, Inl err) | Inr certs \<Rightarrow> (True, Inr certs))
              }
              else State_Monad.return (changed, Inr certs)
            }
        })"

section \<open>Valid certificates\<close>

text \<open>What \<^verbatim>\<open>validCert\<close> decides at an instant.\<close>

definition valid_at ::
  "('k, 'p, 'c, 'r) crypto \<Rightarrow> artifacts \<Rightarrow> string \<Rightarrow> datetime \<Rightarrow> bool" where
  "valid_at C certs dnsName t \<longleftrightarrow>
     Cert certs \<noteq> None \<and> Key certs \<noteq> None \<and> CACert certs \<noteq> None \<and>
     X509KeyPair C (slice_bytes (Cert certs)) (slice_bytes (Key certs)) \<and>
     AppendCertsFromPEM C (slice_bytes (CACert certs)) \<noteq> [] \<and>
     (case pem_Decode C (slice_bytes (Cert certs)) of
        None \<Rightarrow> False
      | Some block \<Rightarrow>
          (case ParseCertificate C block of
             Inl err \<Rightarrow> False
           | Inr cert \<Rightarrow> Verify C cert dnsName (AppendCertsFromPEM C (slice_bytes (CACert certs)))
               (unix (AddDate t 0 6 0))))"

lemma validCert_at:
  "hoare (\<lambda>w. w = w0) (validCert E C (Some certs) h)
     (\<lambda>b w. drift w0 w \<and> b = valid_at C certs h (env_now E (os_step (w_os w0))))"
  by (auto simp: hoare_def validCert_def valid_at_def Let_def time_Now_def drift_def
      split: if_splits option.splits sum.splits)

text \<open>The same certificates, whatever their resource versions.\<close>

definition same_certs :: "artifacts \<Rightarrow> artifacts \<Rightarrow> bool" where
  "same_certs a b \<longleftrightarrow> Key a = Key b \<and> Cert a = Cert b \<and> CAKey a = CAKey b \<and> CACert a = CACert b"

lemma same_certs_refl [simp]: "same_certs a a"
  by (simp add: same_certs_def)

lemma same_certs_valid: "same_certs a b \<Longrightarrow> valid_at C a h t = valid_at C b h t"
  unfolding same_certs_def valid_at_def by (elim conjE) (simp only:)

text \<open>Freshly generated certificates are valid at once and for half a year.\<close>

lemma good_artifacts_valid:
  assumes L: "lawful_crypto C X" and g: "good_artifacts C X a b cn art" and cn: "servable cn"
    and t: "real_month t" "b \<le> unix t" "unix t \<le> a + 180 * 86400"
  shows "valid_at C art cn t"
proof -
  obtain key cert sk sc where art: "art = \<lparr>Key = Some (EncodePrivateKeyPEM C key), Cert = Some (EncodeCertPEM C cert),
        CAKey = Some (EncodePrivateKeyPEM C sk), CACert = Some (EncodeCertPEM C sc), ResourceVersion = []\<rparr>"
    and so: "signing_ok C X a b (sk, sc)" and kn: "known_cert C cert" and pk: "xv_PublicKey X cert = key_Public C key"
    and iss: "xv_IssuedBy X cert sc" "xv_ServerAuth X cert" "c_NotBefore C cert = c_NotBefore C sc"
      "a + 10 * 365 * 86400 \<le> xv_NotAfter X cert" "xv_DNSNames X cert = altDNSNames cn" "xv_IPs X cert = altIPs cn"
    using g unfolding good_artifacts_def by blast
  let ?u = "unix (AddDate t 0 6 0)"
  have u: "unix t \<le> ?u" "?u \<le> unix t + 184 * 86400" using AddDate_half_year [OF t(1)] by auto
  have kc: "known_cert C sc" using so by (simp add: signing_ok_def)
  have "in_time C X cert ?u" "in_time C X sc ?u"
    using u t so iss by (auto simp: in_time_def signing_ok_def)
  then have "Verify C cert cn [sc] ?u"
    using so by (intro lawfulD(8) [OF L kn iss(1)]) (auto simp: signing_ok_def iss(2) servable_hosts [OF cn iss(5,6)])
  moreover have "pem_Decode C (EncodeCertPEM C cert) = Some (c_Raw C cert)"
    unfolding EncodeCertPEM_def by (rule lawfulD(1) [OF L])
  ultimately show ?thesis
    using lawfulD(4) [OF L kn pk] lawfulD(3) [OF L kc] kn
    by (simp add: valid_at_def art known_cert_def)
qed

text \<open>For an IPv6 address no generated certificate is ever valid.\<close>

lemma good_artifacts_never_valid:
  assumes L: "lawful_crypto C X" and g: "good_artifacts C X a b cn art" and cn: "unservable cn"
  shows "\<not> valid_at C art cn t"
proof -
  obtain cert where cert: "Cert art = Some (EncodeCertPEM C cert)" "known_cert C cert" "xv_IPs X cert = altIPs cn"
    using g unfolding good_artifacts_def by force
  have d: "pem_Decode C (EncodeCertPEM C cert) = Some (c_Raw C cert)"
    unfolding EncodeCertPEM_def by (rule lawfulD(1) [OF L])
  obtain ip where ip: "host_IP cn = Some ip" using cn by (auto simp: unservable_def)
  have "xv_IPs X cert = []" using cert(3) cn by (simp add: unservable_def altIPs_def)
  then have "\<not> lists_IP X cert ip" by (simp add: lists_IP_def)
  then have "\<not> Verify C cert cn roots u" for roots u
    using lawfulD(11) [OF L _ _ ip] cn by (auto simp: unservable_def)
  with cert d show ?thesis by (simp add: valid_at_def known_cert_def)
qed

lemma good_artifacts_widen:
  assumes "good_artifacts C X a b cn art" "a' \<le> a" "b \<le> b'"
  shows "good_artifacts C X a' b' cn art"
proof -
  have "signing_ok C X a' b' kc" if "signing_ok C X a b kc" for kc
    using that assms(2,3) by (auto simp: signing_ok_def)
  with assms show ?thesis unfolding good_artifacts_def by fastforce
qed

text \<open>What is stored is not accepted at any time.\<close>

definition never_valid :: "('k, 'p, 'c, 'r) crypto \<Rightarrow> string \<Rightarrow> artifacts option \<Rightarrow> bool" where
  "never_valid C h s \<longleftrightarrow> (\<forall>a t. s = Some a \<longrightarrow> \<not> valid_at C a h t)"

section \<open>The interface of the stores\<close>

abbreviation later :: "('a, 'r) world \<Rightarrow> ('a, 'r) world \<Rightarrow> bool" where
  "later w0 w \<equiv> os_step (w_os w0) \<le> os_step (w_os w)"

lemma now_later: "clock E \<Longrightarrow> later w0 w \<Longrightarrow> now_at E w0 \<le> now_at E w"
  by (rule clockD(1))

text \<open>
  A store of certificates for the name \<open>h\<close>: \<open>stored\<close> is what it holds, \<open>inv\<close> what its
  operations rely on and keep.  A read returns what is stored; a write that succeeds stores
  what it returns, which was generated during the call.
\<close>

locale cert_store =
  fixes E :: os_env and C :: "('k, 'p, 'c, 'r) crypto" and X :: "('p, 'c) x509_view"
    and h :: string and ch :: "('a, 'r) world certReadWriter"
    and inv :: "('a, 'r) world \<Rightarrow> bool" and stored :: "('a, 'r) world \<Rightarrow> artifacts option"
    and reads_work :: bool
  assumes inv_clock: "inv w \<Longrightarrow> clock E"
    and inv_drift: "inv w \<Longrightarrow> drift w w' \<Longrightarrow> inv w'"
    and stored_drift: "drift w w' \<Longrightarrow> stored w' = stored w"
    and reads: "inv w0 \<Longrightarrow> hoare (\<lambda>w. w = w0) (crw_read ch)
      (\<lambda>r w. inv w \<and> later w0 w \<and> stored w = stored w0 \<and>
        (\<forall>a. r = Inr a \<longrightarrow> (\<exists>a'. stored w0 = Some a' \<and> same_certs a a')))"
    and read_works: "inv w0 \<Longrightarrow> reads_work \<Longrightarrow> stored w0 = Some a \<Longrightarrow>
      hoare (\<lambda>w. w = w0) (crw_read ch) (\<lambda>r w. \<exists>a'. r = Inr a')"
    and writes: "inv w0 \<Longrightarrow> hoare (\<lambda>w. w = w0) (crw_write ch)
      (\<lambda>r w. inv w \<and> later w0 w \<and>
        (\<forall>a. r = Inr a \<longrightarrow> good_artifacts C X (now_at E w0) (now_at E w) h a \<and>
          (\<exists>a'. stored w = Some a' \<and> same_certs a a')) \<and>
        (\<forall>e. r = Inl e \<and> isAlreadyExists e \<longrightarrow> stored w = stored w0))"
    and overwrites: "inv w0 \<Longrightarrow> hoare (\<lambda>w. w = w0) (crw_overwrite ch v)
      (\<lambda>r w. inv w \<and> later w0 w \<and>
        (\<forall>a. r = Inr a \<longrightarrow> good_artifacts C X (now_at E w0) (now_at E w) h a \<and>
          (\<exists>a'. stored w = Some a' \<and> same_certs a a')))"
begin

text \<open>What was read, or generated during the call, is what is stored.\<close>

definition provided :: "('a, 'r) world \<Rightarrow> bool \<Rightarrow> cert_error + artifacts \<Rightarrow> ('a, 'r) world \<Rightarrow> bool" where
  "provided w0 changed r w \<longleftrightarrow>
     inv w \<and> later w0 w \<and>
     (\<forall>a. r = Inr a \<longrightarrow> (\<exists>a'. stored w = Some a' \<and> same_certs a a') \<and>
        (stored w = stored w0 \<or> changed \<and> good_artifacts C X (now_at E w0) (now_at E w) h a))"

lemma createIfNotExists_provides:
  assumes "inv w0"
  shows "hoare (\<lambda>w. w = w0) (createIfNotExists ch) (\<lambda>(changed, r) w. provided w0 changed r w)"
  unfolding createIfNotExists_def
proof (rule hoare_bind_at [OF reads [OF assms]], rule hoare_if, goal_cases)
  case (1 r w1)
  then have w1: "inv w1" "later w0 w1" "stored w1 = stored w0" by auto
  show ?case
  proof (rule hoare_bind_at [OF writes [OF w1(1)]], rule hoare_if, goal_cases)
    case (1 r w2)
    then have w2: "inv w2" "later w0 w2" "stored w2 = stored w0" using w1(2,3) by (auto split: sum.splits)
    show ?case
      by (rule hoare_bind_at [OF reads [OF w2(1)]], rule hoare_return_pre)
        (use w2 in \<open>auto simp: provided_def\<close>)
  next
    case (2 r w2)
    have "good_artifacts C X (now_at E w0) (now_at E w2) h a" if "r = Inr a" for a
      using 2 that now_later [OF inv_clock [OF assms] w1(2)] by (auto intro: good_artifacts_widen)
    then show ?case using 2 w1 by (auto intro!: hoare_return_pre simp: provided_def)
  qed
next
  case (2 r w1)
  then show ?case by (auto intro!: hoare_return_pre simp: provided_def)
qed

lemma handleCommon_provides:
  assumes "inv w0"
  shows "hoare (\<lambda>w. w = w0) (handleCommon E C h (Some ch))
    (\<lambda>(changed, r) w. provided w0 changed r w \<and>
      (\<forall>a. r = Inr a \<longrightarrow> changed \<and> good_artifacts C X (now_at E w0) (now_at E w) h a \<or>
        (\<exists>i. os_step (w_os w0) \<le> i \<and> i \<le> os_step (w_os w) \<and> valid_at C a h (env_now E i))))"
    (is "hoare _ _ (\<lambda>(b, r) w. ?Q b r w)")
proof -
  have K: "clock E" by (rule inv_clock [OF assms])
  have err: "?Q b (Inl e) w" if "inv w" "later w0 w" for b e w
    using that by (simp add: provided_def)
  show ?thesis
    unfolding handleCommon_def option.case
  proof (rule hoare_if, goal_cases)
    case 1
    then show ?case using err [OF assms] by (auto intro!: hoare_return_pre)
  next
    case 2
    show ?case
    proof (rule hoare_bind_at [OF createIfNotExists_provides [OF assms]], goal_cases)
      case (1 br w1)
      obtain b r where br: "br = (b, r)" by (rule prod.exhaust)
      from 1 br have w1: "inv w1" "later w0 w1" and p1: "provided w0 b r w1" by (auto simp: provided_def)
      show ?case
        unfolding br prod.case
      proof (rule hoare_sum, goal_cases)
        case (1 e)
        then show ?case using err [OF w1] by (auto intro!: hoare_return_pre)
      next
        case (2 a)
        show ?case
        proof (rule hoare_bind_at [OF validCert_at], rule hoare_if, goal_cases)
          case (1 v w2)
          then have w2: "inv w2" "later w0 w2" using inv_drift [OF w1(1)] w1(2) by (auto simp: drift_def)
          show ?case
          proof (rule hoare_bind_at [OF overwrites [OF w2(1)]], rule hoare_return_pre, goal_cases)
            case (1 r3 w3 w)
            then have w: "w = w3" "inv w3" "later w0 w3" using w2(2) by auto
            have "good_artifacts C X (now_at E w0) (now_at E w3) h c" if "r3 = Inr c" for c
              using 1 that now_later [OF K w2(2)] by (auto intro: good_artifacts_widen)
            with 1 w err [OF w(2,3)] show ?case by (auto simp: provided_def split: sum.splits)
          qed
        next
          case (2 v w2)
          have "os_step (w_os w0) \<le> os_step (w_os w1) \<and> os_step (w_os w1) \<le> os_step (w_os w2)"
            using w1(2) 2 by (auto simp: drift_def)
          moreover have "valid_at C a h (env_now E (os_step (w_os w1)))" using 2 by simp
          moreover have "provided w0 b r w2"
          proof -
            have d: "drift w1 w2" using 2 by simp
            have "good_artifacts C X (now_at E w0) (now_at E w2) h a"
              if "good_artifacts C X (now_at E w0) (now_at E w1) h a" for a
              using that drift_now [OF K d] by (auto intro: good_artifacts_widen)
            then show ?thesis
              using p1 inv_drift [OF w1(1) d] stored_drift [OF d] d unfolding provided_def
              by (auto simp: drift_def)
          qed
          ultimately show ?case
            using \<open>r = Inr a\<close> by (auto intro!: hoare_return_pre)
        qed
      qed
    qed
  qed
qed

text \<open>The same over a run of the call.\<close>

lemma handleCommon_run:
  assumes "inv w0" "run_state (handleCommon E C h (Some ch)) w0 = ((changed, Inr a), w)"
  shows "inv w" "later w0 w" "\<exists>a'. stored w = Some a' \<and> same_certs a a'"
    and "stored w = stored w0 \<or> changed \<and> good_artifacts C X (now_at E w0) (now_at E w) h a"
    and "changed \<and> good_artifacts C X (now_at E w0) (now_at E w) h a \<or>
      (\<exists>i. os_step (w_os w0) \<le> i \<and> i \<le> os_step (w_os w) \<and> valid_at C a h (env_now E i))"
  using hoareD [OF handleCommon_provides [OF assms(1)] refl assms(2)] by (auto simp: provided_def)

text \<open>Certificates that stay valid are not replaced.\<close>

lemma handleCommon_quiet:
  assumes "inv w0" "reads_work" "stored w0 = Some a" "h \<noteq> []"
    and "\<And>i. os_step (w_os w0) \<le> i \<Longrightarrow> valid_at C a h (env_now E i)"
  shows "hoare (\<lambda>w. w = w0) (handleCommon E C h (Some ch))
    (\<lambda>(changed, r) w. \<not> changed \<and> stored w = stored w0 \<and> (\<exists>a'. r = Inr a' \<and> same_certs a' a))"
proof -
  have rd: "hoare (\<lambda>w. w = w0) (crw_read ch) (\<lambda>r w. later w0 w \<and> stored w = stored w0 \<and>
      (\<exists>a'. r = Inr a' \<and> same_certs a' a))"
    using hoare_conj [OF reads [OF assms(1)] read_works [OF assms(1-3)]] assms(3)
    unfolding hoare_def by fastforce
  have cr: "hoare (\<lambda>w. w = w0) (createIfNotExists ch) (\<lambda>(changed, r) w. later w0 w \<and> \<not> changed \<and>
      stored w = stored w0 \<and> (\<exists>a'. r = Inr a' \<and> same_certs a' a))"
    unfolding createIfNotExists_def
    by (rule hoare_bind [OF rd], rule hoare_if) (auto simp: hoare_def)
  show ?thesis
    unfolding handleCommon_def option.case
  proof (rule hoare_if, goal_cases)
    case 2
    show ?case
    proof (rule hoare_bind_at [OF cr], goal_cases)
      case (1 br w1)
      then obtain a' where br: "br = (False, Inr a')" and a': "same_certs a' a" and w1: "later w0 w1" "stored w1 = stored w0"
        by (cases br) auto
      have v: "valid_at C a' h (env_now E (os_step (w_os w1)))"
        using assms(5) [OF w1(1)] same_certs_valid [OF a'] by blast
      show ?case
        unfolding br prod.case sum.case
        by (rule hoare_bind_at [OF validCert_at], rule hoare_if)
          (use v a' w1 stored_drift in \<open>auto intro!: hoare_return_pre\<close>)
    qed
  qed (use assms(4) in simp)
qed

text \<open>For a name that no generated certificate serves, every successful call replaces the certificates.\<close>

lemma handleCommon_replaces:
  assumes L: "lawful_crypto C X" and "inv w0" and un: "unservable h" and old: "never_valid C h (stored w0)"
  shows "hoare (\<lambda>w. w = w0) (handleCommon E C h (Some ch))
    (\<lambda>(changed, r) w. \<forall>a. r = Inr a \<longrightarrow> changed \<and> never_valid C h (stored w) \<and>
       good_artifacts C X (now_at E w0) (now_at E w) h a)"
proof (rule hoareI)
  fix w br w' assume w: "w = w0" and run: "run_state (handleCommon E C h (Some ch)) w = (br, w')"
  obtain b r where br: "br = (b, r)" by (rule prod.exhaust)
  from hoareD [OF handleCommon_provides [OF assms(2)] w run] br
  have p: "provided w0 b r w'" and fresh: "\<And>a. r = Inr a \<Longrightarrow>
      b \<and> good_artifacts C X (now_at E w0) (now_at E w') h a \<or> (\<exists>i. valid_at C a h (env_now E i))" by auto
  have "b \<and> never_valid C h (stored w') \<and> good_artifacts C X (now_at E w0) (now_at E w') h a" if r: "r = Inr a" for a
  proof -
    obtain a' where a': "stored w' = Some a'" "same_certs a a'" using p r by (auto simp: provided_def)
    have st: "stored w' = stored w0 \<or> b \<and> good_artifacts C X (now_at E w0) (now_at E w') h a"
      using p r by (auto simp: provided_def)
    have "\<not> valid_at C a h t" for t
      using st old a' same_certs_valid [OF a'(2)] good_artifacts_never_valid [OF L _ un]
      unfolding never_valid_def by metis
    with fresh [OF r] a' same_certs_valid [OF a'(2)] show ?thesis by (auto simp: never_valid_def)
  qed
  then show "(\<lambda>(changed, r) w. \<forall>a. r = Inr a \<longrightarrow> changed \<and> never_valid C h (stored w) \<and>
       good_artifacts C X (now_at E w0) (now_at E w) h a) br w'"
    using br by simp
qed

end

end
