(* ===== verification/Fs_Writer.thy ===== *)
theory Fs_Writer
  imports Cert_Writer Atomic_Writer_Spec
begin

text \<open>
  The certificate writer that keeps the certificates in a directory
  (\<^verbatim>\<open>webhook/util/writer/fs.go\<close>), over the atomic writer.  It is an instance of the interface
  \<open>cert_store\<close> on a directory that the atomic writer manages.
\<close>

section \<open>fs.go\<close>

record ('a, 'r) fsCertWriterOptions =
  fo_CertGenerator :: "('a, 'r) world certGenerator option"
  fo_Path :: string

text \<open>A new generator holds no CA.\<close>

definition fs_new_SelfSigned :: "(('a, 'r) world, unit) state" where
  "fs_new_SelfSigned = State (\<lambda>w. ((), w\<lparr>w_caKey := None, w_caCert := None\<rparr>))"

definition fs_setDefaults ::
  "os_env \<Rightarrow> ('k, 'p, 'c, 'r) crypto \<Rightarrow> ('a, 'r) fsCertWriterOptions \<Rightarrow>
   (('a, 'r) world, ('a, 'r) fsCertWriterOptions) state" where
  "fs_setDefaults E C ops =
     (if fo_CertGenerator ops = None then do {
        _ \<leftarrow> fs_new_SelfSigned;
        State_Monad.return (ops\<lparr>fo_CertGenerator := Some (SelfSignedCertGenerator E C)\<rparr>)
      }
      else State_Monad.return ops)"

definition fs_validate :: "('a, 'r) fsCertWriterOptions \<Rightarrow> string option" where
  "fs_validate ops =
     (if length (fo_Path ops) = 0 then Some ''path must be set in FSCertWriterOptions'' else None)"

text \<open>The writer's fields, all set; its \<^verbatim>\<open>dnsName\<close> is an argument of its methods.\<close>

record ('a, 'r) fsCertWriter =
  fcw_CertGenerator :: "('a, 'r) world certGenerator"
  fcw_Path :: string

definition NewFSCertWriter ::
  "os_env \<Rightarrow> ('k, 'p, 'c, 'r) crypto \<Rightarrow> ('a, 'r) fsCertWriterOptions \<Rightarrow>
   (('a, 'r) world, string + ('a, 'r) fsCertWriter) state" where
  "NewFSCertWriter E C ops = do {
     ops \<leftarrow> fs_setDefaults E C ops;
     State_Monad.return
       (case fs_validate ops of
          Some err \<Rightarrow> Inl err
        | None \<Rightarrow> Inr \<lparr>fcw_CertGenerator = the (fo_CertGenerator ops), fcw_Path = fo_Path ops\<rparr>)
   }"

text \<open>The six names, in the order of the lists in \<^verbatim>\<open>prepareToWrite\<close> and \<^verbatim>\<open>ensureExist\<close>.\<close>

definition cert_filenames :: "string list" where
  "cert_filenames = [CAKeyName, CACertName, ServerCertName, ServerCertName2, ServerKeyName, ServerKeyName2]"

fun prepareToWrite_loop :: "os_env \<Rightarrow> string \<Rightarrow> string list \<Rightarrow> (os, unit) state" where
  "prepareToWrite_loop E dir [] = State_Monad.return ()"
| "prepareToWrite_loop E dir (f # fs) = do {
     let abspath = path_Join [dir, f];
     r \<leftarrow> Stat E abspath;
     if (case r of Inl e \<Rightarrow> IsNotExist e | Inr _ \<Rightarrow> False) then prepareToWrite_loop E dir fs
     else do {
       l \<leftarrow> Readlink E abspath;
       case l of
         Inl e \<Rightarrow> do {
           _ \<leftarrow> Remove E abspath;
           prepareToWrite_loop E dir fs
         }
       | Inr _ \<Rightarrow> prepareToWrite_loop E dir fs
     }
   }"

text \<open>\<open>Some\<close> is the error.\<close>

definition prepareToWrite :: "os_env \<Rightarrow> string \<Rightarrow> (os, cause option) state" where
  "prepareToWrite E dir = do {
     r \<leftarrow> Stat E dir;
     err \<leftarrow> (case r of
               Inl e \<Rightarrow>
                 if IsNotExist e then do {
                   m \<leftarrow> MkdirAll E dir 0x1FF;
                   State_Monad.return
                     (case m of Inl _ \<Rightarrow> Some (Text (''can't create dir: '' @ dir)) | Inr _ \<Rightarrow> None)
                 }
                 else State_Monad.return (Some (FromOs e))
             | Inr _ \<Rightarrow> State_Monad.return None);
     case err of
       Some err \<Rightarrow> State_Monad.return (Some err)
     | None \<Rightarrow> do {
         _ \<leftarrow> prepareToWrite_loop E dir cert_filenames;
         State_Monad.return None
       }
   }"

definition certToProjectionMap :: "artifacts \<Rightarrow> payload" where
  "certToProjectionMap cert = fmap_of_list
     [(CAKeyName, \<lparr>Data = slice_bytes (CAKey cert), Mode = 0x1B6\<rparr>),
      (CACertName, \<lparr>Data = slice_bytes (CACert cert), Mode = 0x1B6\<rparr>),
      (ServerCertName, \<lparr>Data = slice_bytes (Cert cert), Mode = 0x1B6\<rparr>),
      (ServerCertName2, \<lparr>Data = slice_bytes (Cert cert), Mode = 0x1B6\<rparr>),
      (ServerKeyName, \<lparr>Data = slice_bytes (Key cert), Mode = 0x1B6\<rparr>),
      (ServerKeyName2, \<lparr>Data = slice_bytes (Key cert), Mode = 0x1B6\<rparr>)]"

definition WriteCertsToDir ::
  "os_env \<Rightarrow> range_order \<Rightarrow> string \<Rightarrow> artifacts \<Rightarrow> (os, cause + unit) state" where
  "WriteCertsToDir E rng path certs = do {
     err \<leftarrow> prepareToWrite E path;
     case err of
       Some err \<Rightarrow> State_Monad.return (Inl err)
     | None \<Rightarrow> do {
         aw \<leftarrow> NewAtomicWriter E path;
         case aw of
           Inl e \<Rightarrow> State_Monad.return (Inl (FromOs e))
         | Inr aw \<Rightarrow> do {
             r \<leftarrow> Write E rng aw (certToProjectionMap certs);
             State_Monad.return
               (case r of
                  Inl (InvalidPath s) \<Rightarrow> Inl (FromAtomic s)
                | Inl (OsError e) \<Rightarrow> Inl (FromOs e)
                | Inr u \<Rightarrow> Inr u)
           }
       }
   }"

definition fs_doWrite ::
  "os_env \<Rightarrow> range_order \<Rightarrow> ('a, 'r) fsCertWriter \<Rightarrow> string \<Rightarrow>
   (('a, 'r) world, cert_error + artifacts) state" where
  "fs_doWrite E rng f dnsName = do {
     r \<leftarrow> Generate (fcw_CertGenerator f) dnsName;
     case r of
       Inl err \<Rightarrow> State_Monad.return (Inl (PlainError (FromApi err)))
     | Inr certs \<Rightarrow> do {
         r \<leftarrow> on_os (WriteCertsToDir E rng (fcw_Path f) certs);
         State_Monad.return (case r of Inl err \<Rightarrow> Inl (PlainError err) | Inr _ \<Rightarrow> Inr certs)
       }
   }"

definition fs_write ::
  "os_env \<Rightarrow> range_order \<Rightarrow> ('a, 'r) fsCertWriter \<Rightarrow> string \<Rightarrow>
   (('a, 'r) world, cert_error + artifacts) state" where
  "fs_write E rng f dnsName = fs_doWrite E rng f dnsName"

definition fs_overwrite ::
  "os_env \<Rightarrow> range_order \<Rightarrow> ('a, 'r) fsCertWriter \<Rightarrow> string \<Rightarrow> string \<Rightarrow>
   (('a, 'r) world, cert_error + artifacts) state" where
  "fs_overwrite E rng f dnsName resourceVersion = fs_doWrite E rng f dnsName"

fun ensureExist_loop :: "os_env \<Rightarrow> string \<Rightarrow> string list \<Rightarrow> (os, cert_error option) state" where
  "ensureExist_loop E dir [] = State_Monad.return None"
| "ensureExist_loop E dir (filename # filenames) = do {
     r \<leftarrow> Stat E (path_Join [dir, filename]);
     case r of
       Inr _ \<Rightarrow> ensureExist_loop E dir filenames
     | Inl e \<Rightarrow>
         State_Monad.return
           (Some (if IsNotExist e then NotFoundError (FromOs e) else PlainError (FromOs e)))
   }"

definition ensureExist :: "os_env \<Rightarrow> string \<Rightarrow> (os, cert_error option) state" where
  "ensureExist E dir = ensureExist_loop E dir cert_filenames"

text \<open>One of the four reads.\<close>

definition read_cert_file :: "os_env \<Rightarrow> string \<Rightarrow> string \<Rightarrow> (os, cert_error + bytes) state" where
  "read_cert_file E dir name = do {
     r \<leftarrow> ReadFile E (path_Join [dir, name]);
     State_Monad.return (case r of Inl e \<Rightarrow> Inl (PlainError (FromOs e)) | Inr b \<Rightarrow> Inr b)
   }"

definition read_certs :: "os_env \<Rightarrow> string \<Rightarrow> (os, cert_error + artifacts) state" where
  "read_certs E dir = do {
     err \<leftarrow> ensureExist E dir;
     case err of
       Some err \<Rightarrow> State_Monad.return (Inl err)
     | None \<Rightarrow> do {
         r \<leftarrow> read_cert_file E dir CAKeyName;
         case r of
           Inl err \<Rightarrow> State_Monad.return (Inl err)
         | Inr caKeyBytes \<Rightarrow> do {
             r \<leftarrow> read_cert_file E dir CACertName;
             case r of
               Inl err \<Rightarrow> State_Monad.return (Inl err)
             | Inr caCertBytes \<Rightarrow> do {
                 r \<leftarrow> read_cert_file E dir ServerCertName;
                 case r of
                   Inl err \<Rightarrow> State_Monad.return (Inl err)
                 | Inr certBytes \<Rightarrow> do {
                     r \<leftarrow> read_cert_file E dir ServerKeyName;
                     State_Monad.return
                       (case r of
                          Inl err \<Rightarrow> Inl err
                        | Inr keyBytes \<Rightarrow>
                            Inr \<lparr>Key = Some keyBytes, Cert = Some certBytes, CAKey = Some caKeyBytes,
                              CACert = Some caCertBytes, ResourceVersion = []\<rparr>)
                   }
               }
           }
       }
   }"

definition fs_read :: "os_env \<Rightarrow> ('a, 'r) fsCertWriter \<Rightarrow> (('a, 'r) world, cert_error + artifacts) state" where
  "fs_read E f = on_os (read_certs E (fcw_Path f))"

definition fsReadWriter ::
  "os_env \<Rightarrow> range_order \<Rightarrow> ('a, 'r) fsCertWriter \<Rightarrow> string \<Rightarrow> ('a, 'r) world certReadWriter" where
  "fsReadWriter E rng f dnsName =
     \<lparr>crw_read = fs_read E f, crw_write = fs_write E rng f dnsName,
      crw_overwrite = fs_overwrite E rng f dnsName\<rparr>"

definition fs_EnsureCert ::
  "os_env \<Rightarrow> ('k, 'p, 'c, 'r) crypto \<Rightarrow> range_order \<Rightarrow> ('a, 'r) fsCertWriter \<Rightarrow> string \<Rightarrow>
   (('a, 'r) world, bool \<times> (cert_error + artifacts)) state" where
  "fs_EnsureCert E C rng f dnsName = handleCommon E C dnsName (Some (fsReadWriter E rng f dnsName))"

end
