(* ===== verification/Fs_Steps.thy ===== *)
theory Fs_Steps
  imports Atomic_Writer
begin

text \<open>
  The step counter of the operating system never goes back: every computation built from the
  system calls advances it or leaves it alone.
\<close>

definition advances :: "(os, 'a) state \<Rightarrow> bool" where
  "advances m \<longleftrightarrow> (\<forall>s. os_step s \<le> os_step (snd (run_state m s)))"

named_theorems advance

lemma advancesD: "advances m \<Longrightarrow> run_state m s = (r, s') \<Longrightarrow> os_step s \<le> os_step s'"
  unfolding advances_def by (metis snd_conv)

lemma advances_return [advance]: "advances (State_Monad.return x)"
  by (simp add: advances_def)

lemma advances_bind [advance]:
  assumes "advances m" "\<And>x. advances (f x)"
  shows "advances (State_Monad.bind m f)"
  unfolding advances_def
proof
  fix s
  obtain x s1 where m: "run_state m s = (x, s1)" by (rule prod.exhaust)
  obtain y s2 where f: "run_state (f x) s1 = (y, s2)" by (rule prod.exhaust)
  from advancesD [OF assms(1) m] advancesD [OF assms(2) f] m f
  show "os_step s \<le> os_step (snd (run_state (State_Monad.bind m f) s))" by simp
qed

lemma advances_get [advance]: "advances State_Monad.get"
  by (simp add: advances_def State_Monad.get_def)

lemma advances_sys [advance]: "advances (sys E k f)"
  by (auto simp: advances_def sys_def Let_def split: option.split sum.split)

lemma advances_if [advance]: "advances m \<Longrightarrow> advances n \<Longrightarrow> advances (if b then m else n)"
  by simp

lemma advances_sum [advance]:
  "(\<And>e. advances (f e)) \<Longrightarrow> (\<And>y. advances (g y)) \<Longrightarrow> advances (case x of Inl e \<Rightarrow> f e | Inr y \<Rightarrow> g y)"
  by (cases x) auto

lemma advances_option [advance]:
  "advances m \<Longrightarrow> (\<And>y. advances (g y)) \<Longrightarrow> advances (case x of None \<Rightarrow> m | Some y \<Rightarrow> g y)"
  by (cases x) auto

section \<open>The calls\<close>

lemma advances_calls [advance]:
  "advances (Stat E p)" "advances (Lstat E p)" "advances (Readlink E p)" "advances (ReadFile E p)"
  "advances (Mkdir E p m)" "advances (Chmod E p m)" "advances (WriteFile E p d m)" "advances (Symlink E l p)"
  "advances (sys_rename E p q)" "advances (Remove E p)" "advances (readDirNames E p)"
  unfolding Stat_def Lstat_def Readlink_def ReadFile_def Mkdir_def Chmod_def WriteFile_def Symlink_def
    sys_rename_def Remove_def readDirNames_def
  by (intro advance)+

lemma advances_Rename [advance]: "advances (Rename E p q)"
  unfolding Rename_def by (intro advance)

lemma advances_each_child: "(\<And>c. advances (f c)) \<Longrightarrow> advances (each_child f cs acc)"
  by (induction cs arbitrary: acc) (simp_all add: advance)

lemma advances_removeAllFrom [advance]: "advances (removeAllFrom E n q)"
  by (induction n arbitrary: q) (auto intro!: advance advances_each_child)

lemma advances_RemoveAll [advance]: "advances (RemoveAll E p)"
  unfolding RemoveAll_def by (intro advance)

lemma advances_MkdirAll [advance]: "advances (MkdirAll E p mode)"
proof (induction E p mode rule: MkdirAll.induct)
  case (1 E p mode)
  then show ?case by (subst MkdirAll.simps) (auto intro!: advance split: option.split)
qed

lemma advances_MkdirTemp [advance]: "advances (MkdirTemp E dir pattern)"
proof -
  have "advances (MkdirTemp_loop E d p n)" for d p n
    by (induction n) (auto intro!: advance simp: Let_def)
  then show ?thesis by (simp add: MkdirTemp_def)
qed

lemma advances_visit_all: "(\<And>c. advances (f c)) \<Longrightarrow> advances (visit_all f cs)"
  by (induction cs) (auto intro!: advance)

lemma advances_Walk [advance]: "advances (Walk E root)"
proof -
  have "advances (walk_from E n p i)" for n p i
    by (induction n arbitrary: p i) (auto intro!: advance advances_visit_all simp: Let_def)
  then show ?thesis unfolding Walk_def by (intro advance)
qed

section \<open>The atomic writer\<close>

lemma advances_NewAtomicWriter [advance]: "advances (NewAtomicWriter E dir)"
  unfolding NewAtomicWriter_def by (intro advance)

lemma advances_shouldWritePayload [advance]: "advances (shouldWritePayload E rng cp old)"
proof -
  have "advances (shouldWritePayload_loop E cp old ks)" for ks
    by (induction ks) (auto intro!: advance simp: shouldWriteFile_def)
  then show ?thesis by (simp add: shouldWritePayload_def)
qed

lemma advances_pathsToRemove [advance]: "advances (pathsToRemove E rng cp old)"
  unfolding pathsToRemove_def Let_def by (intro advance)

lemma advances_newTimestampDir [advance]: "advances (newTimestampDir E dir)"
  unfolding newTimestampDir_def by (intro advance)

lemma advances_writePayloadToDir [advance]: "advances (writePayloadToDir E rng cp dir)"
proof -
  have "advances (writePayloadToDir_loop E cp dir ks)" for ks
    by (induction ks) (auto intro!: advance simp: Let_def)
  then show ?thesis by (simp add: writePayloadToDir_def)
qed

lemma advances_createUserVisibleFiles [advance]: "advances (createUserVisibleFiles E rng dir cp)"
proof -
  have "advances (createUserVisibleFiles_loop E dir ks)" for ks
    by (induction ks) (auto intro!: advance simp: Let_def)
  then show ?thesis by (simp add: createUserVisibleFiles_def)
qed

lemma advances_removeUserVisiblePaths [advance]: "advances (removeUserVisiblePaths E rng dir paths)"
proof -
  have "advances (removeUserVisiblePaths_loop E dir ps err)" for ps err
    by (induction ps arbitrary: err) (auto intro!: advance)
  then show ?thesis by (simp add: removeUserVisiblePaths_def)
qed

lemma advances_swapDataDir [advance]: "advances (swapDataDir E dir ts)"
  unfolding swapDataDir_def renameDataDir_def Let_def by (intro advance)

lemma advances_Write [advance]: "advances (Write E rng dir p)"
  unfolding Write_def os_result_def writeCleanPayload_def writeNewVersion_def Let_def by (intro advance)

end
