(* ===== verification/Fs_Writer_Spec.thy ===== *)
theory Fs_Writer_Spec
  imports Fs_Writer Fs_Steps
begin

text \<open>
  What the directory writer of \<^verbatim>\<open>fs.go\<close> promises: its reads return what a reader of the
  directory sees, preparing a managed directory changes nothing, writing the certificates is
  atomic, and \<^verbatim>\<open>EnsureCert\<close> is that of a store of certificates.
\<close>

section \<open>Reading\<close>

text \<open>The node that a path leads to through links.\<close>

definition node_of :: "os_env \<Rightarrow> fs \<Rightarrow> string \<Rightarrow> fnode option" where
  "node_of E t p = (case namei E t True p of Inl _ \<Rightarrow> None | Inr q \<Rightarrow> fs_get t q)"

lemma read_path_node: "read_path E t p = (case node_of E t p of Some (File d _) \<Rightarrow> Some d | _ \<Rightarrow> None)"
  by (simp add: read_path_def node_of_def split: sum.split)

lemma fsh_Stat_any:
  assumes "ok t0"
  shows "fsh ok (\<lambda>t. t = t0) (Stat E p)
    (\<lambda>r t. t = t0 \<and> (\<forall>i. r = Inr i \<longrightarrow> node_of E t0 p \<noteq> None) \<and>
      (no_faults E \<and> node_of E t0 p \<noteq> None \<longrightarrow> (\<exists>i. r = Inr i)))"
  unfolding Stat_def
  by (rule fsh_sys)
    (use assms in \<open>auto simp: at_path_def stat_at_def node_of_def no_faults_def split: sum.splits option.splits\<close>)

lemma fsh_ReadFile_any:
  assumes "ok t0"
  shows "fsh ok (\<lambda>t. t = t0) (ReadFile E p)
    (\<lambda>r t. t = t0 \<and> (\<forall>d. r = Inr d \<longrightarrow> read_path E t0 p = Some d) \<and>
      (no_faults E \<and> read_path E t0 p \<noteq> None \<longrightarrow> (\<exists>d. r = Inr d)))"
  unfolding ReadFile_def
proof (rule fsh_bind [where Q = "\<lambda>r t. t = t0 \<and> (\<forall>q. r = Inr q \<longrightarrow> namei E t0 True p = Inr q) \<and>
      (no_faults E \<and> read_path E t0 p \<noteq> None \<longrightarrow> (\<exists>q. r = Inr q))"], goal_cases)
  case 1
  show ?case
    by (rule fsh_sys)
      (use assms in \<open>auto simp: at_path_def read_path_def no_faults_def split: sum.splits option.splits\<close>)
next
  case (2 r)
  show ?case
  proof (rule fsh_sum, goal_cases)
    case (1 e)
    then show ?case by (auto intro: fsh_return)
  next
    case (2 q)
    then show ?case
      by (intro fsh_sys)
        (use assms in \<open>auto simp: read_path_def no_faults_def split: option.splits fnode.splits\<close>)
  qed
qed

lemma fsh_ensureExist_loop:
  assumes "ok t0"
  shows "fsh ok (\<lambda>t. t = t0) (ensureExist_loop E dir ns)
    (\<lambda>r t. t = t0 \<and> (r = None \<longrightarrow> list_all (\<lambda>n. node_of E t0 (path_Join [dir, n]) \<noteq> None) ns) \<and>
      (no_faults E \<and> list_all (\<lambda>n. node_of E t0 (path_Join [dir, n]) \<noteq> None) ns \<longrightarrow> r = None))"
proof (induction ns)
  case Nil
  show ?case by (auto intro: fsh_return)
next
  case (Cons n ns)
  show ?case
    unfolding ensureExist_loop.simps
  proof (rule fsh_bind [OF fsh_Stat_any [of ok, OF assms]], rule fsh_sum, goal_cases)
    case (1 r e)
    then show ?case by (auto intro: fsh_return)
  next
    case (2 r i)
    show ?case
    proof (rule fsh_assume [of _ "node_of E t0 (path_Join [dir, n]) \<noteq> None"])
      assume "node_of E t0 (path_Join [dir, n]) \<noteq> None"
      then show "fsh ok (\<lambda>t. t = t0 \<and> (\<forall>i. r = Inr i \<longrightarrow> node_of E t0 (path_Join [dir, n]) \<noteq> None) \<and>
          (no_faults E \<and> node_of E t0 (path_Join [dir, n]) \<noteq> None \<longrightarrow> (\<exists>i. r = Inr i)))
        (ensureExist_loop E dir ns)
        (\<lambda>r t. t = t0 \<and> (r = None \<longrightarrow> list_all (\<lambda>n. node_of E t0 (path_Join [dir, n]) \<noteq> None) (n # ns)) \<and>
          (no_faults E \<and> list_all (\<lambda>n. node_of E t0 (path_Join [dir, n]) \<noteq> None) (n # ns) \<longrightarrow> r = None))"
        by (intro fsh_conseq [OF Cons.IH]) simp_all
    qed (use 2 in simp)
  qed
qed

text \<open>The certificates that a reader finds in a directory.\<close>

definition fs_certs :: "os_env \<Rightarrow> string \<Rightarrow> fs \<Rightarrow> artifacts option" where
  "fs_certs E dir t =
     (let get = (\<lambda>n. read_path E t (path_Join [dir, n]))
      in if list_all (\<lambda>n. node_of E t (path_Join [dir, n]) \<noteq> None) cert_filenames \<and>
           get CAKeyName \<noteq> None \<and> get CACertName \<noteq> None \<and> get ServerCertName \<noteq> None \<and> get ServerKeyName \<noteq> None
         then Some \<lparr>Key = get ServerKeyName, Cert = get ServerCertName, CAKey = get CAKeyName,
           CACert = get CACertName, ResourceVersion = []\<rparr>
         else None)"

lemma fsh_read_cert_file:
  assumes "ok t0"
  shows "fsh ok (\<lambda>t. t = t0) (read_cert_file E dir n)
    (\<lambda>r t. t = t0 \<and> (\<forall>d. r = Inr d \<longrightarrow> read_path E t0 (path_Join [dir, n]) = Some d) \<and>
      (no_faults E \<and> read_path E t0 (path_Join [dir, n]) \<noteq> None \<longrightarrow> (\<exists>d. r = Inr d)))"
  unfolding read_cert_file_def
  by (rule fsh_bind [OF fsh_ReadFile_any [of ok, OF assms]]) (auto intro!: fsh_return split: sum.splits)

text \<open>One more read in a row of reads: an error ends it, a success is what a reader sees.\<close>

lemma fsh_then_read:
  assumes ok: "ok t0" and err: "\<And>e. (no_faults E \<Longrightarrow> read_path E t0 (path_Join [dir, n]) = None) \<Longrightarrow> Q (Inl e)"
    and next_read: "\<And>d. read_path E t0 (path_Join [dir, n]) = Some d \<Longrightarrow>
      fsh ok (\<lambda>t. t = t0) (f d) (\<lambda>r t. t = t0 \<and> Q r)"
  shows "fsh ok (\<lambda>t. t = t0) (do {
      r \<leftarrow> read_cert_file E dir n;
      case r of Inl err \<Rightarrow> State_Monad.return (Inl err) | Inr d \<Rightarrow> f d
    }) (\<lambda>r t. t = t0 \<and> Q r)"
proof (rule fsh_bind [OF fsh_read_cert_file [of ok, OF ok]], rule fsh_sum, goal_cases)
  case (1 r e)
  then show ?case using err by (auto intro: fsh_return)
next
  case (2 r d)
  show ?case
  proof (rule fsh_assume [of _ "read_path E t0 (path_Join [dir, n]) = Some d"])
    assume "read_path E t0 (path_Join [dir, n]) = Some d"
    from next_read [OF this] show "fsh ok (\<lambda>t. t = t0 \<and>
        (\<forall>d. r = Inr d \<longrightarrow> read_path E t0 (path_Join [dir, n]) = Some d) \<and>
        (no_faults E \<and> read_path E t0 (path_Join [dir, n]) \<noteq> None \<longrightarrow> (\<exists>d. r = Inr d)))
      (f d) (\<lambda>r t. t = t0 \<and> Q r)" by (rule fsh_pre) simp
  qed (use 2 in simp)
qed

lemma fsh_read_certs:
  assumes ok: "ok t0"
  shows "fsh ok (\<lambda>t. t = t0) (read_certs E dir)
    (\<lambda>r t. t = t0 \<and> (\<forall>a. r = Inr a \<longrightarrow> fs_certs E dir t0 = Some a) \<and>
      (no_faults E \<and> fs_certs E dir t0 \<noteq> None \<longrightarrow> (\<exists>a. r = Inr a)))"
proof -
  let ?Q = "\<lambda>r. (\<forall>a. r = Inr a \<longrightarrow> fs_certs E dir t0 = Some a) \<and>
      (no_faults E \<and> fs_certs E dir t0 \<noteq> None \<longrightarrow> (\<exists>a. r = Inr a))"
  have err: "?Q (Inl e)" if "no_faults E \<Longrightarrow> read_path E t0 (path_Join [dir, n]) = None"
    "n \<in> {CAKeyName, CACertName, ServerCertName, ServerKeyName}" for e n
    using that by (auto simp: fs_certs_def Let_def)
  show ?thesis
    unfolding read_certs_def ensureExist_def
  proof (rule fsh_bind [OF fsh_ensureExist_loop [of ok, OF ok]], rule fsh_option, goal_cases)
    case (1 r)
    show ?case
    proof (rule fsh_assume [of _ "list_all (\<lambda>n. node_of E t0 (path_Join [dir, n]) \<noteq> None) cert_filenames"])
      assume ex: "list_all (\<lambda>n. node_of E t0 (path_Join [dir, n]) \<noteq> None) cert_filenames"
      show "fsh ok (\<lambda>t. t = t0 \<and> (r = None \<longrightarrow> list_all (\<lambda>n. node_of E t0 (path_Join [dir, n]) \<noteq> None) cert_filenames) \<and>
           (no_faults E \<and> list_all (\<lambda>n. node_of E t0 (path_Join [dir, n]) \<noteq> None) cert_filenames \<longrightarrow> r = None))
        (do {
         r \<leftarrow> read_cert_file E dir CAKeyName;
         case r of
           Inl err \<Rightarrow> State_Monad.return (Inl err)
         | Inr caKeyBytes \<Rightarrow> do {
             r \<leftarrow> read_cert_file E dir CACertName;
             case r of
               Inl err \<Rightarrow> State_Monad.return (Inl err)
             | Inr caCertBytes \<Rightarrow> do {
                 r \<leftarrow> read_cert_file E dir ServerCertName;
                 case r of
                   Inl err \<Rightarrow> State_Monad.return (Inl err)
                 | Inr certBytes \<Rightarrow> do {
                     r \<leftarrow> read_cert_file E dir ServerKeyName;
                     State_Monad.return
                       (case r of
                          Inl err \<Rightarrow> Inl err
                        | Inr keyBytes \<Rightarrow>
                            Inr \<lparr>Key = Some keyBytes, Cert = Some certBytes, CAKey = Some caKeyBytes,
                              CACert = Some caCertBytes, ResourceVersion = []\<rparr>)
                   }
               }
           }
       }) (\<lambda>r t. t = t0 \<and> ?Q r)"
      proof (rule fsh_pre [where J' = "\<lambda>t. t = t0"], (rule fsh_then_read [of ok, OF ok], rule err, simp, simp)+, goal_cases)
        case (1 k c s)
        show ?case
          by (rule fsh_bind [OF fsh_read_cert_file [of ok, OF ok]], rule fsh_return)
            (use 1 ex in \<open>auto simp: fs_certs_def Let_def split: sum.splits\<close>)
      qed simp
    qed (use 1 in auto)
  next
    case (2 r e)
    then show ?case by (auto intro!: fsh_return simp: fs_certs_def Let_def)
  qed
qed

section \<open>Preparing a managed directory\<close>

lemma cert_filenames_user: "n \<in> set cert_filenames \<Longrightarrow> user_name n"
proof -
  have "list_all user_name cert_filenames" by code_simp
  then show "n \<in> set cert_filenames \<Longrightarrow> user_name n" by (simp add: list_all_iff)
qed

lemma managed_path:
  assumes "abs_path T B" "managed B cur t0"
  shows "no_links t0 True B" "dirs t0 B" "node_of E t0 T \<noteq> None"
proof -
  note m = managedD(1,2) [OF assms(2)]
  have nl: "\<not> is_link t0 q" if "prefix q B" for q
    using dirs_to [OF m that] by (auto simp: is_dir_def is_link_def)
  show "no_links t0 True B" using nl by (auto simp: no_links_def strict_prefix_def)
  show dirs: "dirs t0 B" using tree_dirs [OF m(1)] m(2) by (auto simp: is_dir_def)
  have "namei E t0 True T = Inr B" by (rule namei_dirs [OF assms(1) dirs]) (use nl in simp)
  then show "node_of E t0 T \<noteq> None" using m(2) by (auto simp: node_of_def is_dir_def)
qed

lemma fsh_prepare_loop:
  assumes T: "abs_path T B" and m: "managed B cur t0" and ok: "ok t0"
    and nrl: "\<And>i. env_fault E i SYS_readlink = None"
  shows "set ns \<subseteq> set cert_filenames \<Longrightarrow>
    fsh ok (\<lambda>t. t = t0) (prepareToWrite_loop E T ns) (\<lambda>_ t. t = t0)"
proof (induction ns)
  case Nil
  show ?case by (auto intro: fsh_return)
next
  case (Cons n ns)
  have n: "user_name n" using Cons.prems cert_filenames_user by simp
  have IH: "fsh ok (\<lambda>t. t = t0 \<and> P t) (prepareToWrite_loop E T ns) (\<lambda>_ t. t = t0)" for P
    by (rule fsh_pre [OF Cons.IH]) (use Cons.prems in simp_all)
  have path: "abs_path (path_Join [T, n]) (B @ [n])" by (rule abs_path_child [OF T user_name_plain [OF n]])
  have dirs: "dirs t0 (B @ [n])" "no_links t0 False (B @ [n])"
    using managed_path [OF T m] managedD(2) [OF m] by simp_all
  have readlink: "fsh ok (\<lambda>t. t = t0) (Readlink E (path_Join [T, n]))
      (\<lambda>r t. t = t0 \<and> (\<forall>e. r = Inl e \<longrightarrow> fs_get t0 (B @ [n]) = None))"
    by (rule fsh_Readlink [OF path])
      (use dirs ok nrl managed_user [OF m n] in \<open>auto simp: is_link_def\<close>)
  have remove: "fsh ok (\<lambda>t. t = t0) (Remove E (path_Join [T, n])) (\<lambda>_ t. t = t0)"
    if "fs_get t0 (B @ [n]) = None"
    by (rule fsh_Remove [OF path]) (use dirs ok that managedD(1) [OF m] in \<open>auto simp: leaf_def\<close>)
  show ?case
    unfolding prepareToWrite_loop.simps Let_def
  proof (rule fsh_bind [OF fsh_Stat_any [of ok, OF ok]], rule fsh_if, rule IH, goal_cases)
    case (1 r)
    show ?case
    proof (rule fsh_pre [OF fsh_bind [OF readlink]], rule fsh_sum, goal_cases)
      case (1 l e)
      show ?case
      proof (rule fsh_assume [of _ "fs_get t0 (B @ [n]) = None"])
        assume "fs_get t0 (B @ [n]) = None"
        have "fsh ok (\<lambda>t. t = t0) (prepareToWrite_loop E T ns) (\<lambda>_ t. t = t0)" using IH [of "\<lambda>_. True"] by simp
        from fsh_bind [OF remove [OF \<open>fs_get t0 (B @ [n]) = None\<close>] this] show "fsh ok (\<lambda>t. t = t0 \<and> (\<forall>e. l = Inl e \<longrightarrow> fs_get t0 (B @ [n]) = None))
            (do { _ \<leftarrow> Remove E (path_Join [T, n]); prepareToWrite_loop E T ns }) (\<lambda>_ t. t = t0)"
          by (rule fsh_pre) simp
      qed (use 1 in simp)
    next
      case (2 l y)
      show ?case by (rule IH)
    qed simp
  qed
qed

text \<open>A directory that exists is not made again.\<close>

lemma fsh_MkdirAll_exists:
  assumes T: "abs_path T B" and m: "managed B cur t0" and ok: "ok t0"
  shows "fsh ok (\<lambda>t. t = t0) (MkdirAll E T mode) (\<lambda>r t. t = t0)"
proof -
  have dir: "is_dir t0 q" "fs_get t0 q \<noteq> None" "\<not> is_link t0 q" if "prefix q B" for q
    using dirs_to [OF managedD(1,2) [OF m] that] by (auto simp: is_dir_def is_link_def)
  have "fsh ok (\<lambda>t. t = t0) (MkdirAll E T mode)
    (\<lambda>r t. t = t0 \<and> (r = Inr () \<longrightarrow> is_dir t B) \<and> (False \<longrightarrow> r = Inr ()))"
  proof (rule fsh_MkdirAll [where cs = B], goal_cases)
    case (1 t q)
    then show ?case using dir(3) by simp
  next
    case (2 t)
    then show ?case using ok managedD(1) [OF m] by simp
  next
    case (3 t q m)
    then show ?case using dir(2) by simp
  next
    case (5 t)
    then show ?case using dir(1) by simp
  qed (use T in simp_all)
  then show ?thesis by (rule fsh_post) simp
qed

lemma fsh_prepareToWrite:
  assumes T: "abs_path T B" and m: "managed B cur t0" and ok: "ok t0"
    and nrl: "\<And>i. env_fault E i SYS_readlink = None"
  shows "fsh ok (\<lambda>t. t = t0) (prepareToWrite E T) (\<lambda>r t. t = t0 \<and> (no_faults E \<longrightarrow> r = None))"
proof -
  have dir: "fsh ok (\<lambda>t. t = t0 \<and> (no_faults E \<longrightarrow> (\<exists>i. r = Inr i)))
      (case r of
         Inl e \<Rightarrow>
           if IsNotExist e then do {
             m \<leftarrow> MkdirAll E T 0x1FF;
             State_Monad.return (case m of Inl _ \<Rightarrow> Some (Text (''can't create dir: '' @ T)) | Inr _ \<Rightarrow> None)
           }
           else State_Monad.return (Some (FromOs e))
       | Inr _ \<Rightarrow> State_Monad.return None)
      (\<lambda>r t. t = t0 \<and> (no_faults E \<longrightarrow> r = None))" for r :: "errno + fileinfo"
  proof (rule fsh_sum, goal_cases)
    case (1 e)
    show ?case
    proof (rule fsh_assume [of _ "\<not> no_faults E"])
      assume nf: "\<not> no_faults E"
      have mk: "fsh ok (\<lambda>t. t = t0 \<and> (no_faults E \<longrightarrow> (\<exists>i. r = Inr i))) (MkdirAll E T 0x1FF) (\<lambda>_ t. t = t0)"
        by (rule fsh_pre [OF fsh_MkdirAll_exists [of T B cur t0 ok, OF T m ok]]) simp
      show "fsh ok (\<lambda>t. t = t0 \<and> (no_faults E \<longrightarrow> (\<exists>i. r = Inr i)))
          (if IsNotExist e then do {
             m \<leftarrow> MkdirAll E T 0x1FF;
             State_Monad.return (case m of Inl _ \<Rightarrow> Some (Text (''can't create dir: '' @ T)) | Inr _ \<Rightarrow> None)
           }
           else State_Monad.return (Some (FromOs e)))
          (\<lambda>r t. t = t0 \<and> (no_faults E \<longrightarrow> r = None))"
        by (rule fsh_if, rule fsh_bind [OF mk]) (use nf in \<open>auto intro: fsh_return\<close>)
    qed (use 1 in simp)
  qed (auto intro: fsh_return)
  show ?thesis
    unfolding prepareToWrite_def
  proof (rule fsh_bind [OF fsh_Stat_any [of ok, OF ok]], rule fsh_pre [OF fsh_bind [OF dir]], goal_cases)
    case (1 r err)
    have loop: "fsh ok (\<lambda>t. t = t0 \<and> P t) (prepareToWrite_loop E T cert_filenames) (\<lambda>_ t. t = t0)" for P
      by (rule fsh_pre [OF fsh_prepare_loop [of T B cur t0 ok, OF T m ok nrl]]) simp_all
    show ?case
      by (rule fsh_option, rule fsh_bind [OF loop]) (auto intro: fsh_return)
  next
    case (2 r t)
    then show ?case using managed_path(3) [OF T m] by simp
  qed
qed

section \<open>The projection\<close>

lemma certToProjectionMap_keys: "fmdom (certToProjectionMap a) = fset_of_list cert_filenames"
proof -
  have "fset (fmdom (certToProjectionMap a)) = fset (fset_of_list cert_filenames)"
    by (auto simp: certToProjectionMap_def cert_filenames_def fmdom_fmap_of_list fset_of_list.rep_eq)
  then show ?thesis by (simp add: fset_inject)
qed

lemma cert_filenames_paths:
  assumes "n \<in> set cert_filenames"
  shows "validatePath n = None" "path_comps n = [n]" "path_Clean n = n" "user_comps (path_comps n)" "join_slash [n] = n"
proof -
  have "list_all (\<lambda>n. validatePath n = None \<and> path_Clean n = n) cert_filenames" by code_simp
  with assms show "validatePath n = None" "path_Clean n = n" by (simp_all add: list_all_iff)
  have u: "user_name n" by (rule cert_filenames_user [OF assms])
  then show "path_comps n = [n]" by (simp add: plain_path_comps user_name_plain)
  with u show "user_comps (path_comps n)" by (simp add: user_comps_def user_name_plain)
  show "join_slash [n] = n" by simp
qed

lemma certToProjectionMap_lookup:
  "fmlookup (certToProjectionMap a) CAKeyName = Some \<lparr>Data = slice_bytes (CAKey a), Mode = 0x1B6\<rparr>"
  "fmlookup (certToProjectionMap a) CACertName = Some \<lparr>Data = slice_bytes (CACert a), Mode = 0x1B6\<rparr>"
  "fmlookup (certToProjectionMap a) ServerCertName = Some \<lparr>Data = slice_bytes (Cert a), Mode = 0x1B6\<rparr>"
  "fmlookup (certToProjectionMap a) ServerCertName2 = Some \<lparr>Data = slice_bytes (Cert a), Mode = 0x1B6\<rparr>"
  "fmlookup (certToProjectionMap a) ServerKeyName = Some \<lparr>Data = slice_bytes (Key a), Mode = 0x1B6\<rparr>"
  "fmlookup (certToProjectionMap a) ServerKeyName2 = Some \<lparr>Data = slice_bytes (Key a), Mode = 0x1B6\<rparr>"
  by (simp_all add: certToProjectionMap_def fmlookup_of_list CAKeyName_def CACertName_def ServerKeyName_def
      ServerKeyName2_def ServerCertName_def ServerCertName2_def)

lemma certs_visible: "visible_keys (certToProjectionMap a)"
  unfolding visible_keys_iff certToProjectionMap_keys
  using cert_filenames_paths(4) by (simp add: fset_of_list.rep_eq)

text \<open>The certificates are always a valid payload, and clean already.\<close>

lemma certs_payload_valid:
  assumes "range_ok rng"
  shows "validatePayload rng (certToProjectionMap a) = Inr (certToProjectionMap a)"
proof -
  let ?p = "certToProjectionMap a"
  have dom: "k |\<in>| fmdom ?p \<longleftrightarrow> k \<in> set cert_filenames" for k
    by (simp add: certToProjectionMap_keys fset_of_list.rep_eq)
  obtain cp where cp: "validatePayload rng ?p = Inr cp"
    using validatePayload_valid [OF _ assms, of ?p] cert_filenames_paths(1) dom by blast
  note clean = validatePayload_Inr [OF cp assms]
  have "fmlookup cp x = fmlookup ?p x" for x
  proof (cases "x |\<in>| fmdom cp")
    case True
    from clean(2) [OF this] obtain k where k: "k |\<in>| fmdom ?p" "x = path_Clean k" "fmlookup cp x = fmlookup ?p k"
      by blast
    then show ?thesis using cert_filenames_paths(3) [of k] dom by simp
  next
    case False
    moreover have "x |\<notin>| fmdom ?p"
    proof
      assume "x |\<in>| fmdom ?p"
      with clean(3) [OF this] cert_filenames_paths(3) [of x] dom False show False by simp
    qed
    ultimately show ?thesis by (simp add: fmdom_notD)
  qed
  then have "cp = ?p" by (simp add: fmap_ext)
  with cp show ?thesis by simp
qed

lemma certs_user_payload: "user_payload (certToProjectionMap a)"
  by (rule clean_user_payload [OF certs_payload_valid range_ok_sorted certs_visible]) (rule range_ok_sorted)

lemma certs_comps: "payload_comps (certToProjectionMap a) = (\<lambda>n. [n]) ` set cert_filenames"
proof -
  have "payload_comps (certToProjectionMap a) = path_comps ` set cert_filenames"
    by (simp add: payload_comps_def certToProjectionMap_keys fset_of_list.rep_eq)
  also have "\<dots> = (\<lambda>n. [n]) ` set cert_filenames"
    by (rule image_cong) (simp_all add: cert_filenames_paths(2))
  finally show ?thesis .
qed

lemma certs_no_conflict: "no_conflict (certToProjectionMap a)"
  by (simp add: no_conflict_def certs_comps)

text \<open>What a reader of a directory with the certificates projected into it gets.\<close>

lemma projected_read:
  assumes "abs_path T B" "projected E B (certToProjectionMap a) t" "fmlookup (certToProjectionMap a) n = Some d"
  shows "read_path E t (path_Join [T, n]) = Some (Data d)"
proof -
  obtain v where v: "managed B (Some v) t"
    "\<forall>ks \<in> payload_comps (certToProjectionMap a). view B (Some v) t ks = payload_view (certToProjectionMap a) ks"
    using assms(2) by (auto simp: projected_def)
  have n: "n \<in> set cert_filenames"
    using fmdomI [OF assms(3)] by (simp add: certToProjectionMap_keys fset_of_list.rep_eq)
  note p = cert_filenames_paths [OF n]
  have "read_path E t (path_Join [T, join_slash [n]]) = view B (Some v) t [n]"
    using visible [OF v(1) assms(1), of "[n]"] p(2,4) by simp
  also have "\<dots> = payload_view (certToProjectionMap a) [n]" using v(2) n by (simp add: certs_comps)
  finally show ?thesis using assms(3) by (simp add: payload_view_def)
qed

lemma projected_certs:
  assumes "abs_path T B" "projected E B (certToProjectionMap a) t"
  shows "fs_certs E T t = Some \<lparr>Key = Some (slice_bytes (Key a)), Cert = Some (slice_bytes (Cert a)),
     CAKey = Some (slice_bytes (CAKey a)), CACert = Some (slice_bytes (CACert a)), ResourceVersion = []\<rparr>"
proof -
  note r = projected_read [OF assms certToProjectionMap_lookup(1)] projected_read [OF assms certToProjectionMap_lookup(2)]
    projected_read [OF assms certToProjectionMap_lookup(3)] projected_read [OF assms certToProjectionMap_lookup(4)]
    projected_read [OF assms certToProjectionMap_lookup(5)] projected_read [OF assms certToProjectionMap_lookup(6)]
  have "node_of E t p \<noteq> None" if "read_path E t p = Some d" for p d
    using that by (auto simp: read_path_node split: option.splits)
  with r have "list_all (\<lambda>n. node_of E t (path_Join [T, n]) \<noteq> None) cert_filenames"
    by (simp add: cert_filenames_def del: not_None_eq)
  with r show ?thesis by (simp add: fs_certs_def Let_def)
qed

section \<open>Writing the certificates\<close>

text \<open>What a write leaves: the old view or the certificates; the latter if it reports success.\<close>

definition certs_outcome ::
  "os_env \<Rightarrow> fpath \<Rightarrow> string option \<Rightarrow> fs \<Rightarrow> artifacts \<Rightarrow> bool \<Rightarrow> fs \<Rightarrow> bool" where
  "certs_outcome E B cur t0 a success t \<longleftrightarrow>
     (phaseA B cur t0 t \<or> (\<exists>v. phaseB B (certToProjectionMap a) v t)) \<and>
     (success \<longrightarrow> projected E B (certToProjectionMap a) t)"

text \<open>Nothing is in the way of a write.\<close>

definition clear_way :: "os_env \<Rightarrow> fpath \<Rightarrow> string option \<Rightarrow> fs \<Rightarrow> bool" where
  "clear_way E B cur t \<longleftrightarrow>
     no_faults E \<and> fresh_names E B t \<and> fs_get t (B @ [newDataDirName]) = None \<and>
     (\<forall>vo n. cur = Some vo \<and> n \<in> set cert_filenames \<longrightarrow> \<not> is_dir t (B @ [vo, n]))"

lemma certs_compatible:
  assumes "managed B cur t" "\<forall>vo n. cur = Some vo \<and> n \<in> set cert_filenames \<longrightarrow> \<not> is_dir t (B @ [vo, n])"
  shows "compatible B (certToProjectionMap a) cur t"
proof -
  have "\<not> blocked t (B @ [vo, n])" if "cur = Some vo" for vo n
  proof -
    have "is_dir t q" if "prefix q (B @ [vo])" for q
      by (rule dirs_to [OF managedD(1) [OF assms(1)] managedD(5) [OF assms(1) \<open>cur = Some vo\<close>] that])
    then show ?thesis
      using strict_prefix_snoc_iff [of _ "B @ [vo]" n] by (auto simp: blocked_def strict_prefix_def)
  qed
  with assms(2) show ?thesis by (auto simp: compatible_def certs_comps)
qed

text \<open>What the writer relies on: an absolute path, orders that list what they range over, and a system that is not Windows.\<close>

definition dir_env :: "os_env \<Rightarrow> range_order \<Rightarrow> string \<Rightarrow> fpath \<Rightarrow> bool" where
  "dir_env E rng T B \<longleftrightarrow> abs_path T B \<and> range_ok rng \<and> env_GOOS E \<noteq> ''windows''"

lemma dir_envD:
  assumes "dir_env E rng T B"
  shows "abs_path T B" "range_ok rng" "env_GOOS E \<noteq> ''windows''"
  using assms by (simp_all add: dir_env_def)

lemma fsh_Write_certs:
  assumes e: "dir_env E rng T B" and rl: "readlink_works E"
    and m: "managed B cur t0" and okA: "\<And>t. phaseA B cur t0 t \<Longrightarrow> ok t"
    and okB: "\<And>v t. phaseB B (certToProjectionMap a) v t \<Longrightarrow> ok t"
  shows "fsh ok (\<lambda>t. t = t0) (Write E rng T (certToProjectionMap a))
    (\<lambda>r t. certs_outcome E B cur t0 a (r = Inr ()) t \<and> (clear_way E B cur t0 \<longrightarrow> r = Inr ()))"
proof -
  have "fsh ok (\<lambda>t. t = t0) (writeCleanPayload E rng T (certToProjectionMap a))
      (\<lambda>r t. write_outcome E B cur t0 (certToProjectionMap a) r t \<and> (clear_way E B cur t0 \<longrightarrow> r = Inr ()))"
    by (rule fsh_writeCleanPayload [OF dir_envD(1,2) [OF e] certs_user_payload m okA okB dir_envD(3) [OF e] readlink_worksD [OF rl]])
      (use certs_no_conflict certs_compatible [OF m] in \<open>simp_all add: clear_way_def\<close>)
  then show ?thesis
    unfolding Write_def certs_payload_valid [OF dir_envD(2) [OF e]] os_result_def sum.case
    by (rule fsh_bind) (auto intro!: fsh_return simp: certs_outcome_def write_outcome_def split: sum.split)
qed

lemma fsh_WriteCertsToDir:
  assumes e: "dir_env E rng T B" and rl: "readlink_works E"
    and m: "managed B cur t0" and okA: "\<And>t. phaseA B cur t0 t \<Longrightarrow> ok t"
    and okB: "\<And>v t. phaseB B (certToProjectionMap a) v t \<Longrightarrow> ok t"
  shows "fsh ok (\<lambda>t. t = t0) (WriteCertsToDir E rng T a)
    (\<lambda>r t. certs_outcome E B cur t0 a (r = Inr ()) t \<and> (clear_way E B cur t0 \<longrightarrow> r = Inr ()))"
    (is "fsh ok _ _ ?R")
proof -
  note path = dir_envD(1) [OF e]
  have ok0: "ok t0" by (rule okA [OF phaseA_refl [OF m]])
  have err: "fsh ok (\<lambda>t. t = t0 \<and> P t) (State_Monad.return (Inl e)) ?R" if "\<not> clear_way E B cur t0" for P e
    by (rule fsh_return) (use that phaseA_refl [OF m] in \<open>simp add: certs_outcome_def\<close>)
  have nf: "clear_way E B cur t0 \<Longrightarrow> no_faults E" by (simp add: clear_way_def)
  have aw: "fsh ok (\<lambda>t. t = t0 \<and> P t) (NewAtomicWriter E T)
      (\<lambda>r t. t = t0 \<and> (\<forall>d. r = Inr d \<longrightarrow> d = T) \<and> (no_faults E \<longrightarrow> (\<exists>d. r = Inr d)))" for P
    unfolding NewAtomicWriter_def
    by (rule fsh_pre [OF fsh_bind [OF fsh_Stat_any [of ok, OF ok0]]], rule fsh_return)
      (use managed_path(3) [OF path m] in auto)
  show ?thesis
    unfolding WriteCertsToDir_def
  proof (rule fsh_bind [OF fsh_prepareToWrite [of T B cur t0 ok, OF path m ok0 readlink_worksD [OF rl]]], rule fsh_option, goal_cases)
    case (1 x)
    show ?case
    proof (rule fsh_bind [OF aw], rule fsh_sum, goal_cases)
      case (1 r e)
      show ?case
        by (rule fsh_assume [of _ "\<not> clear_way E B cur t0"]) (use 1 nf err in auto)
    next
      case (2 r d)
      show ?case
      proof (rule fsh_assume [of _ "d = T"])
        assume d: "d = T"
        show "fsh ok (\<lambda>t. t = t0 \<and> (\<forall>d. r = Inr d \<longrightarrow> d = T) \<and> (no_faults E \<longrightarrow> (\<exists>d. r = Inr d)))
          (do {
             r \<leftarrow> Write E rng d (certToProjectionMap a);
             State_Monad.return
               (case r of
                  Inl (InvalidPath s) \<Rightarrow> Inl (FromAtomic s)
                | Inl (OsError e) \<Rightarrow> Inl (FromOs e)
                | Inr u \<Rightarrow> Inr u)
           }) ?R"
          unfolding d
          by (rule fsh_pre [OF fsh_bind [OF fsh_Write_certs [of E rng T B cur t0 ok a, OF e rl m okA okB]]], assumption, assumption, rule fsh_return)
            (auto split: sum.split write_error.split)
      qed (use 2 in simp)
    qed
  next
    case (2 x err)
    show ?case
    proof (rule fsh_assume [of _ "\<not> clear_way E B cur t0"])
      assume "\<not> clear_way E B cur t0"
      then show "fsh ok (\<lambda>t. t = t0 \<and> (no_faults E \<longrightarrow> x = None)) (State_Monad.return (Inl err)) ?R" by (rule err)
    qed (use 2 nf in auto)
  qed
qed


end
