(* ===== verification/Secret_Writer.thy ===== *)
theory Secret_Writer
  imports Cert_Writer
begin

text \<open>
  The certificate writer that keeps the certificates in a Kubernetes secret
  (\<^verbatim>\<open>webhook/util/writer/secret.go\<close>).  \<open>lawful_secrets\<close> states what the API server documents
  about secrets; the writer is an instance of the interface \<open>cert_store\<close>.
\<close>

section \<open>Secrets and their client\<close>

record secret =
  sec_meta :: objectMeta
  sec_Data :: "(string \<rightharpoonup> byte_slice) option"

record 'a secret_client =
  Get_Secret :: "namespacedName \<Rightarrow> ('a, error + secret) state"
  Create_Secret :: "secret \<Rightarrow> ('a, error option) state"
  Update_Secret :: "secret \<Rightarrow> ('a, error option) state"

definition secret_key :: "secret \<Rightarrow> namespacedName" where
  "secret_key x = NamespacedName (meta_Namespace (sec_meta x)) (meta_Name (sec_meta x))"

section \<open>secret.go\<close>

record ('a, 'r) secretCertWriterOptions =
  sw_Client :: "'a secret_client option"
  sw_CertGenerator :: "('a, 'r) world certGenerator option"
  sw_Secret :: "namespacedName option"

text \<open>A new generator holds no CA.\<close>

definition new_SelfSigned :: "(('a, 'r) world, unit) state" where
  "new_SelfSigned = State (\<lambda>w. ((), w\<lparr>w_caKey := None, w_caCert := None\<rparr>))"

definition secret_setDefaults ::
  "os_env \<Rightarrow> ('k, 'p, 'c, 'r) crypto \<Rightarrow> ('a, 'r) secretCertWriterOptions \<Rightarrow>
   (('a, 'r) world, ('a, 'r) secretCertWriterOptions) state" where
  "secret_setDefaults E C ops =
     (if sw_CertGenerator ops = None then do {
        _ \<leftarrow> new_SelfSigned;
        State_Monad.return (ops\<lparr>sw_CertGenerator := Some (SelfSignedCertGenerator E C)\<rparr>)
      }
      else State_Monad.return ops)"

definition secret_validate :: "('a, 'r) secretCertWriterOptions \<Rightarrow> string option" where
  "secret_validate ops =
     (if sw_Client ops = None then Some ''client must be set in SecretCertWriterOptions''
      else if sw_Secret ops = None then Some ''secret must be set in SecretCertWriterOptions''
      else None)"

text \<open>The writer's fields, all set; its \<^verbatim>\<open>dnsName\<close> is an argument of its methods.\<close>

record ('a, 'r) secretCertWriter =
  scw_Client :: "'a secret_client"
  scw_CertGenerator :: "('a, 'r) world certGenerator"
  scw_Secret :: namespacedName

definition NewSecretCertWriter ::
  "os_env \<Rightarrow> ('k, 'p, 'c, 'r) crypto \<Rightarrow> ('a, 'r) secretCertWriterOptions \<Rightarrow>
   (('a, 'r) world, string + ('a, 'r) secretCertWriter) state" where
  "NewSecretCertWriter E C ops = do {
     ops \<leftarrow> secret_setDefaults E C ops;
     State_Monad.return
       (case secret_validate ops of
          Some err \<Rightarrow> Inl err
        | None \<Rightarrow> Inr \<lparr>scw_Client = the (sw_Client ops), scw_CertGenerator = the (sw_CertGenerator ops),
            scw_Secret = the (sw_Secret ops)\<rparr>)
   }"

definition secretToCerts :: "secret \<Rightarrow> artifacts" where
  "secretToCerts secret =
     (case sec_Data secret of
        None \<Rightarrow> \<lparr>Key = None, Cert = None, CAKey = None, CACert = None,
          ResourceVersion = meta_ResourceVersion (sec_meta secret)\<rparr>
      | Some data \<Rightarrow>
          let entry = (\<lambda>k. case data k of None \<Rightarrow> None | Some b \<Rightarrow> b)
          in \<lparr>Key = entry ServerKeyName, Cert = entry ServerCertName,
              CAKey = entry CAKeyName, CACert = entry CACertName,
              ResourceVersion = meta_ResourceVersion (sec_meta secret)\<rparr>)"

definition certsToSecret :: "artifacts \<Rightarrow> namespacedName \<Rightarrow> secret" where
  "certsToSecret certs sec =
     \<lparr>sec_meta = zero_meta\<lparr>meta_Namespace := nn_Namespace sec, meta_Name := nn_Name sec\<rparr>,
      sec_Data = Some (Map.empty(
        CAKeyName \<mapsto> CAKey certs, CACertName \<mapsto> CACert certs,
        ServerKeyName \<mapsto> Key certs, ServerKeyName2 \<mapsto> Key certs,
        ServerCertName \<mapsto> Cert certs, ServerCertName2 \<mapsto> Cert certs))\<rparr>"

definition buildSecret ::
  "('a, 'r) secretCertWriter \<Rightarrow> string \<Rightarrow> (('a, 'r) world, error + secret \<times> artifacts) state" where
  "buildSecret s dnsName = do {
     r \<leftarrow> Generate (scw_CertGenerator s) dnsName;
     State_Monad.return
       (case r of Inl err \<Rightarrow> Inl err | Inr certs \<Rightarrow> Inr (certsToSecret certs (scw_Secret s), certs))
   }"

definition secret_write ::
  "('a, 'r) secretCertWriter \<Rightarrow> string \<Rightarrow> (('a, 'r) world, cert_error + artifacts) state" where
  "secret_write s dnsName = do {
     r \<leftarrow> buildSecret s dnsName;
     case r of
       Inl err \<Rightarrow> State_Monad.return (Inl (PlainError (FromApi err)))
     | Inr (secret, certs) \<Rightarrow> do {
         err \<leftarrow> on_api (Create_Secret (scw_Client s) secret);
         State_Monad.return
           (case err of
              None \<Rightarrow> Inr certs
            | Some err \<Rightarrow>
                if IsAlreadyExists err then Inl (AlreadyExistError (FromApi err))
                else Inl (PlainError (FromApi err)))
       }
   }"

definition secret_overwrite ::
  "('a, 'r) secretCertWriter \<Rightarrow> string \<Rightarrow> string \<Rightarrow> (('a, 'r) world, cert_error + artifacts) state" where
  "secret_overwrite s dnsName resourceVersion = do {
     r \<leftarrow> buildSecret s dnsName;
     case r of
       Inl err \<Rightarrow> State_Monad.return (Inl (PlainError (FromApi err)))
     | Inr (secret, certs) \<Rightarrow> do {
         err \<leftarrow> on_api (Update_Secret (scw_Client s)
           (secret\<lparr>sec_meta := (sec_meta secret)\<lparr>meta_ResourceVersion := resourceVersion\<rparr>\<rparr>));
         State_Monad.return
           (case err of None \<Rightarrow> Inr certs | Some err \<Rightarrow> Inl (PlainError (FromApi err)))
       }
   }"

definition secret_read ::
  "('a, 'r) secretCertWriter \<Rightarrow> (('a, 'r) world, cert_error + artifacts) state" where
  "secret_read s = do {
     r \<leftarrow> on_api (Get_Secret (scw_Client s) (scw_Secret s));
     case r of
       Inl err \<Rightarrow>
         if IsNotFound err then State_Monad.return (Inl (NotFoundError (FromApi err)))
         else State_Monad.return (Inl (PlainError (FromApi err)))
     | Inr secret \<Rightarrow> do {
         let certs = secretToCerts secret;
         _ \<leftarrow> SetCA (scw_CertGenerator s) (CAKey certs) (CACert certs);
         State_Monad.return (Inr certs)
       }
   }"

definition secretReadWriter ::
  "('a, 'r) secretCertWriter \<Rightarrow> string \<Rightarrow> ('a, 'r) world certReadWriter" where
  "secretReadWriter s dnsName =
     \<lparr>crw_read = secret_read s, crw_write = secret_write s dnsName,
      crw_overwrite = secret_overwrite s dnsName\<rparr>"

definition secret_EnsureCert ::
  "os_env \<Rightarrow> ('k, 'p, 'c, 'r) crypto \<Rightarrow> ('a, 'r) secretCertWriter \<Rightarrow> string \<Rightarrow>
   (('a, 'r) world, bool \<times> (cert_error + artifacts)) state" where
  "secret_EnsureCert E C s dnsName = handleCommon E C dnsName (Some (secretReadWriter s dnsName))"

section \<open>What the API server documents about secrets\<close>

definition same_data :: "secret \<Rightarrow> secret \<Rightarrow> bool" where
  "same_data x y \<longleftrightarrow> sec_Data x = sec_Data y \<and> secret_key x = secret_key y"

definition lawful_secrets :: "'a secret_client \<Rightarrow> ('a \<Rightarrow> namespacedName \<Rightarrow> secret option) \<Rightarrow> bool" where
  "lawful_secrets c v \<longleftrightarrow>
     (\<forall>k m. hoare (\<lambda>s. v s = m) (Get_Secret c k) (\<lambda>r s. v s = m \<and> (\<forall>x. r = Inr x \<longrightarrow> m k = Some x))) \<and>
     (\<forall>x m. hoare (\<lambda>s. v s = m) (Create_Secret c x)
        (\<lambda>r s. case r of
           None \<Rightarrow> \<exists>x'. same_data x' x \<and> v s = m(secret_key x \<mapsto> x')
         | Some err \<Rightarrow> v s = m)) \<and>
     (\<forall>x m. hoare (\<lambda>s. v s = m) (Update_Secret c x)
        (\<lambda>r s. case r of
           None \<Rightarrow> \<exists>x'. same_data x' x \<and> v s = m(secret_key x \<mapsto> x')
         | Some err \<Rightarrow> v s = m))"

text \<open>Reads of secrets that exist do not fail.\<close>

definition secret_reads_work :: "'a secret_client \<Rightarrow> ('a \<Rightarrow> namespacedName \<Rightarrow> secret option) \<Rightarrow> bool" where
  "secret_reads_work c v \<longleftrightarrow>
     (\<forall>k. hoare (\<lambda>s. v s k \<noteq> None) (Get_Secret c k) (\<lambda>r s. \<exists>x. r = Inr x))"

lemma lawful_secretsD:
  assumes "lawful_secrets c v"
  shows "run_state (Get_Secret c k) s = (r, s') \<Longrightarrow> v s' = v s"
    and "run_state (Get_Secret c k) s = (Inr x, s') \<Longrightarrow> v s k = Some x"
    and "run_state (Create_Secret c y) s = (None, s') \<Longrightarrow> \<exists>x'. same_data x' y \<and> v s' = (v s)(secret_key y \<mapsto> x')"
    and "run_state (Create_Secret c y) s = (Some e, s') \<Longrightarrow> v s' = v s"
    and "run_state (Update_Secret c y) s = (None, s') \<Longrightarrow> \<exists>x'. same_data x' y \<and> v s' = (v s)(secret_key y \<mapsto> x')"
    and "run_state (Update_Secret c y) s = (Some e, s') \<Longrightarrow> v s' = v s"
  using assms unfolding lawful_secrets_def hoare_def by (blast | fastforce)+

section \<open>The secret is a store of certificates\<close>

lemma secret_certs:
  "same_certs (secretToCerts (certsToSecret certs k)) certs" "secret_key (certsToSecret certs k) = k"
  by (simp_all add: same_certs_def secretToCerts_def certsToSecret_def secret_key_def zero_meta_def Let_def
      CAKeyName_def CACertName_def ServerKeyName_def ServerKeyName2_def ServerCertName_def ServerCertName2_def)

text \<open>C40: Reading back what a secret was built from gives the same certificates and keys, and the secret has the key of the writer; both names of the serving certificate and of its key hold the same bytes.\<close>

theorem secret_round_trip:
  "same_certs (secretToCerts (certsToSecret certs k)) certs \<and> secret_key (certsToSecret certs k) = k \<and>
   the (sec_Data (certsToSecret certs k)) ServerKeyName2 = the (sec_Data (certsToSecret certs k)) ServerKeyName \<and>
   the (sec_Data (certsToSecret certs k)) ServerCertName2 = the (sec_Data (certsToSecret certs k)) ServerCertName"
  using secret_certs
  by (simp add: certsToSecret_def CAKeyName_def CACertName_def ServerKeyName_def ServerKeyName2_def
      ServerCertName_def ServerCertName2_def)

lemma secret_data_certs: "same_data x y \<Longrightarrow> same_certs (secretToCerts x) (secretToCerts y)"
  by (simp add: same_data_def secretToCerts_def same_certs_def Let_def split: option.split)

definition secret_stored ::
  "('a \<Rightarrow> namespacedName \<Rightarrow> secret option) \<Rightarrow> namespacedName \<Rightarrow> ('a, 'r) world \<Rightarrow> artifacts option" where
  "secret_stored v k w = map_option secretToCerts (v (w_api w) k)"

text \<open>The CAs at hand, the generator's and the stored one, are sound.\<close>

definition secret_inv ::
  "os_env \<Rightarrow> ('k, 'p, 'c, 'r) crypto \<Rightarrow> ('p, 'c) x509_view \<Rightarrow> 'a secret_client \<Rightarrow>
   ('a \<Rightarrow> namespacedName \<Rightarrow> secret option) \<Rightarrow> namespacedName \<Rightarrow> ('a, 'r) world \<Rightarrow> bool" where
  "secret_inv E C X c v k w \<longleftrightarrow>
     clock E \<and> lawful_crypto C X \<and> lawful_secrets c v \<and>
     sound_CA C X (now_at E w) (w_caKey w) (w_caCert w) \<and>
     (\<forall>a. secret_stored v k w = Some a \<longrightarrow> sound_CA C X (now_at E w) (CAKey a) (CACert a))"

text \<open>The writer the controller makes: the self-signed generator, a client, a key.\<close>

abbreviation self_signed_secret ::
  "os_env \<Rightarrow> ('k, 'p, 'c, 'r) crypto \<Rightarrow> 'a secret_client \<Rightarrow> namespacedName \<Rightarrow> ('a, 'r) secretCertWriter" where
  "self_signed_secret E C c k \<equiv>
     \<lparr>scw_Client = c, scw_CertGenerator = SelfSignedCertGenerator E C, scw_Secret = k\<rparr>"

lemma secret_inv_drift:
  assumes "secret_inv E C X c v k w" "drift w w'"
  shows "secret_inv E C X c v k w'"
proof -
  have "now_at E w \<le> now_at E w'" using assms drift_now by (auto simp: secret_inv_def)
  then show ?thesis
    using assms by (auto simp: secret_inv_def drift_def secret_stored_def intro: sound_CA_later)
qed

lemma buildSecret_ok:
  assumes inv: "secret_inv E C X c v k w0"
  shows "hoare (\<lambda>w. w = w0) (buildSecret (self_signed_secret E C c k) h)
    (\<lambda>r w. drift w0 w \<and> (\<forall>x a. r = Inr (x, a) \<longrightarrow> x = certsToSecret a k \<and>
       good_artifacts C X (now_at E w0) (now_at E w) h a))"
proof -
  have g: "hoare (\<lambda>w. w = w0) (SelfSigned_Generate E C h)
    (\<lambda>r w. drift w0 w \<and> (\<forall>art. r = Inr art \<longrightarrow> good_artifacts C X (now_at E w0) (now_at E w) h art))"
    by (rule Generate_ok) (use inv in \<open>simp_all add: secret_inv_def\<close>)
  show ?thesis
    unfolding buildSecret_def
    by (rule hoare_bind, simp add: SelfSignedCertGenerator_def, rule g, rule hoare_return_pre)
      (auto split: sum.splits)
qed

text \<open>The effect of storing freshly generated certificates.\<close>

lemma secret_put:
  assumes inv: "secret_inv E C X c v k w0" and d: "drift w0 w1"
    and good: "good_artifacts C X (now_at E w0) (now_at E w1) h a"
    and x: "sec_Data x = sec_Data (certsToSecret a k)" "secret_key x = k"
    and st: "same_data x' x" "v s' = (v (w_api w1))(secret_key x \<mapsto> x')"
  shows "secret_inv E C X c v k (w1\<lparr>w_api := s'\<rparr>)"
    and "\<exists>a'. secret_stored v k (w1\<lparr>w_api := s'\<rparr>) = Some a' \<and> same_certs a a'"
proof -
  let ?w = "w1\<lparr>w_api := s'\<rparr>"
  have L: "lawful_crypto C X" using inv by (simp add: secret_inv_def)
  have "same_certs (secretToCerts x) a"
    using secret_certs(1) [of a k] x(1) by (simp add: secretToCerts_def same_certs_def Let_def certsToSecret_def)
  then have sc: "same_certs (secretToCerts x') a"
    using secret_data_certs [OF st(1)] by (simp add: same_certs_def)
  have stored: "secret_stored v k ?w = Some (secretToCerts x')"
    using st(2) x(2) by (simp add: secret_stored_def)
  with sc show "\<exists>a'. secret_stored v k ?w = Some a' \<and> same_certs a a'" by (auto simp: same_certs_def)
  have "sound_CA C X (now_at E w1) (CAKey a) (CACert a)" by (rule good_artifacts_sound [OF L good])
  then have "sound_CA C X (now_at E ?w) (CAKey (secretToCerts x')) (CACert (secretToCerts x'))"
    using sc by (simp add: same_certs_def)
  with secret_inv_drift [OF inv d] stored show "secret_inv E C X c v k ?w"
    by (simp add: secret_inv_def)
qed

lemma secret_read_ok:
  assumes inv: "secret_inv E C X c v k w0"
  shows "hoare (\<lambda>w. w = w0) (secret_read (self_signed_secret E C c k))
    (\<lambda>r w. secret_inv E C X c v k w \<and> later w0 w \<and> secret_stored v k w = secret_stored v k w0 \<and>
      (\<forall>a. r = Inr a \<longrightarrow> (\<exists>a'. secret_stored v k w0 = Some a' \<and> same_certs a a')))"
proof (rule hoareI)
  fix w r w'
  assume w: "w = w0" and run: "run_state (secret_read (self_signed_secret E C c k)) w = (r, w')"
  have L: "lawful_secrets c v" using inv by (simp add: secret_inv_def)
  obtain g s where g: "run_state (Get_Secret c k) (w_api w0) = (g, s)" by (rule prod.exhaust)
  have v: "v s = v (w_api w0)" by (rule lawful_secretsD(1) [OF L g])
  show "secret_inv E C X c v k w' \<and> later w0 w' \<and> secret_stored v k w' = secret_stored v k w0 \<and>
      (\<forall>a. r = Inr a \<longrightarrow> (\<exists>a'. secret_stored v k w0 = Some a' \<and> same_certs a a'))"
  proof (cases g)
    case (Inl e)
    with run w g have "w' = w0\<lparr>w_api := s\<rparr>" "\<forall>a. r \<noteq> Inr a" by (auto simp: secret_read_def split: if_splits)
    with inv v show ?thesis by (auto simp: secret_inv_def secret_stored_def)
  next
    case (Inr x)
    have vk: "v (w_api w0) k = Some x" using lawful_secretsD(2) [OF L] g Inr by blast
    let ?a = "secretToCerts x"
    from run w g Inr have w': "w' = w0\<lparr>w_api := s, w_caKey := CAKey ?a, w_caCert := CACert ?a\<rparr>" "r = Inr ?a"
      by (auto simp: secret_read_def SelfSignedCertGenerator_def SelfSigned_SetCA_def Let_def)
    have st: "secret_stored v k w0 = Some ?a" using vk by (simp add: secret_stored_def)
    with inv have "sound_CA C X (now_at E w0) (CAKey ?a) (CACert ?a)" by (simp add: secret_inv_def)
    with inv v w' st show ?thesis by (auto simp: secret_inv_def secret_stored_def)
  qed
qed

lemma secret_write_ok:
  assumes inv: "secret_inv E C X c v k w0"
  shows "hoare (\<lambda>w. w = w0) (secret_write (self_signed_secret E C c k) h)
    (\<lambda>r w. secret_inv E C X c v k w \<and> later w0 w \<and>
      (\<forall>a. r = Inr a \<longrightarrow> good_artifacts C X (now_at E w0) (now_at E w) h a \<and>
        (\<exists>a'. secret_stored v k w = Some a' \<and> same_certs a a')) \<and>
      (\<forall>e. r = Inl e \<and> isAlreadyExists e \<longrightarrow> secret_stored v k w = secret_stored v k w0))"
  unfolding secret_write_def
proof (rule hoare_bind_at [OF buildSecret_ok [OF inv]], rule hoare_sum, goal_cases)
  case (1 r w1 e)
  then show ?case
    using secret_inv_drift [OF inv] by (auto intro!: hoare_return_pre simp: drift_def isAlreadyExists_def)
next
  case (2 r w1 xa)
  obtain x a where xa: "xa = (x, a)" by (rule prod.exhaust)
  with 2 have d: "drift w0 w1" and x: "x = certsToSecret a k"
    and good: "good_artifacts C X (now_at E w0) (now_at E w1) h a" by auto
  have L: "lawful_secrets c v" using inv by (simp add: secret_inv_def)
  have keep: "secret_inv E C X c v k (w1\<lparr>w_api := s\<rparr>)" "secret_stored v k (w1\<lparr>w_api := s\<rparr>) = secret_stored v k w0"
    if "v s = v (w_api w1)" for s
    using secret_inv_drift [OF inv d] d that by (auto simp: secret_inv_def secret_stored_def drift_def)
  show ?case
  proof (rule hoareI)
    fix w r' w'
    assume "w = w1" and run: "run_state (case xa of (secret, certs) \<Rightarrow> do {
         err \<leftarrow> on_api (Create_Secret (scw_Client (self_signed_secret E C c k)) secret);
         State_Monad.return
           (case err of
              None \<Rightarrow> Inr certs
            | Some err \<Rightarrow>
                if IsAlreadyExists err then Inl (AlreadyExistError (FromApi err))
                else Inl (PlainError (FromApi err)))
       }) w = (r', w')"
    obtain e s where e: "run_state (Create_Secret c x) (w_api w1) = (e, s)" by (rule prod.exhaust)
    with run \<open>w = w1\<close> xa have w': "w' = w1\<lparr>w_api := s\<rparr>"
      and r': "r' = (case e of None \<Rightarrow> Inr a | Some err \<Rightarrow>
        if IsAlreadyExists err then Inl (AlreadyExistError (FromApi err)) else Inl (PlainError (FromApi err)))"
      by auto
    have lt: "later w0 w'" using d w' by (simp add: drift_def)
    have now: "now_at E w' = now_at E w1" using w' by simp
    show "secret_inv E C X c v k w' \<and> later w0 w' \<and>
      (\<forall>a. r' = Inr a \<longrightarrow> good_artifacts C X (now_at E w0) (now_at E w') h a \<and>
        (\<exists>a'. secret_stored v k w' = Some a' \<and> same_certs a a')) \<and>
      (\<forall>e. r' = Inl e \<and> isAlreadyExists e \<longrightarrow> secret_stored v k w' = secret_stored v k w0)"
    proof (cases e)
      case None
      with lawful_secretsD(3) [OF L] e obtain x' where st: "same_data x' x" "v s = (v (w_api w1))(secret_key x \<mapsto> x')"
        by blast
      from secret_put [OF inv d good _ _ st] x secret_certs(2) None w' r' lt good now show ?thesis by auto
    next
      case (Some err)
      with lawful_secretsD(4) [OF L] e have "v s = v (w_api w1)" by blast
      from keep [OF this] Some w' r' lt show ?thesis by auto
    qed
  qed
qed

lemma secret_overwrite_ok:
  assumes inv: "secret_inv E C X c v k w0"
  shows "hoare (\<lambda>w. w = w0) (secret_overwrite (self_signed_secret E C c k) h rv)
    (\<lambda>r w. secret_inv E C X c v k w \<and> later w0 w \<and>
      (\<forall>a. r = Inr a \<longrightarrow> good_artifacts C X (now_at E w0) (now_at E w) h a \<and>
        (\<exists>a'. secret_stored v k w = Some a' \<and> same_certs a a')))"
  unfolding secret_overwrite_def
proof (rule hoare_bind_at [OF buildSecret_ok [OF inv]], rule hoare_sum, goal_cases)
  case (1 r w1 e)
  then show ?case
    using secret_inv_drift [OF inv] by (auto intro!: hoare_return_pre simp: drift_def)
next
  case (2 r w1 xa)
  obtain x a where xa: "xa = (x, a)" by (rule prod.exhaust)
  with 2 have d: "drift w0 w1" and x: "x = certsToSecret a k"
    and good: "good_artifacts C X (now_at E w0) (now_at E w1) h a" by auto
  have L: "lawful_secrets c v" using inv by (simp add: secret_inv_def)
  let ?x = "x\<lparr>sec_meta := (sec_meta x)\<lparr>meta_ResourceVersion := rv\<rparr>\<rparr>"
  have x': "sec_Data ?x = sec_Data (certsToSecret a k)" "secret_key ?x = k"
    using x secret_certs(2) [of a k] by (simp_all add: secret_key_def)
  show ?case
  proof (rule hoareI)
    fix w r' w'
    assume "w = w1" and run: "run_state (case xa of (secret, certs) \<Rightarrow> do {
         err \<leftarrow> on_api (Update_Secret (scw_Client (self_signed_secret E C c k))
           (secret\<lparr>sec_meta := (sec_meta secret)\<lparr>meta_ResourceVersion := rv\<rparr>\<rparr>));
         State_Monad.return
           (case err of None \<Rightarrow> Inr certs | Some err \<Rightarrow> Inl (PlainError (FromApi err)))
       }) w = (r', w')"
    obtain e s where e: "run_state (Update_Secret c ?x) (w_api w1) = (e, s)" by (rule prod.exhaust)
    with run \<open>w = w1\<close> xa have w': "w' = w1\<lparr>w_api := s\<rparr>"
      and r': "r' = (case e of None \<Rightarrow> Inr a | Some err \<Rightarrow> Inl (PlainError (FromApi err)))" by auto
    have lt: "later w0 w'" using d w' by (simp add: drift_def)
    have now: "now_at E w' = now_at E w1" using w' by simp
    show "secret_inv E C X c v k w' \<and> later w0 w' \<and>
      (\<forall>a. r' = Inr a \<longrightarrow> good_artifacts C X (now_at E w0) (now_at E w') h a \<and>
        (\<exists>a'. secret_stored v k w' = Some a' \<and> same_certs a a'))"
    proof (cases e)
      case None
      with lawful_secretsD(5) [OF L] e obtain y where st: "same_data y ?x" "v s = (v (w_api w1))(secret_key ?x \<mapsto> y)"
        by blast
      from secret_put [OF inv d good x' st] None w' r' lt good now show ?thesis by auto
    next
      case (Some err)
      with lawful_secretsD(6) [OF L] e have "v s = v (w_api w1)" by blast
      with secret_inv_drift [OF inv d] d Some w' r' lt show ?thesis
        by (auto simp: secret_inv_def secret_stored_def drift_def)
    qed
  qed
qed

lemma secret_read_works:
  assumes "secret_reads_work c v" "secret_stored v k w0 = Some a"
  shows "hoare (\<lambda>w. w = w0) (secret_read (self_signed_secret E C c k)) (\<lambda>r w. \<exists>a'. r = Inr a')"
proof (rule hoareI)
  fix w r w'
  assume w: "w = w0" and run: "run_state (secret_read (self_signed_secret E C c k)) w = (r, w')"
  obtain g s where g: "run_state (Get_Secret c k) (w_api w0) = (g, s)" by (rule prod.exhaust)
  have "v (w_api w0) k \<noteq> None" using assms(2) by (auto simp: secret_stored_def)
  then obtain x where "g = Inr x"
    using assms(1) g unfolding secret_reads_work_def hoare_def by blast
  with run w g show "\<exists>a'. r = Inr a'" by (auto simp: secret_read_def Let_def split: prod.splits)
qed

interpretation secrets: cert_store E C X h "secretReadWriter (self_signed_secret E C c k) h"
  "secret_inv E C X c v k" "secret_stored v k" "secret_reads_work c v" for E C X h c v k
proof (unfold_locales, goal_cases)
  case (1 w)
  then show ?case by (simp add: secret_inv_def)
next
  case (2 w w')
  then show ?case by (rule secret_inv_drift)
next
  case (3 w w')
  then show ?case by (simp add: secret_stored_def drift_def)
next
  case (4 w0)
  then show ?case unfolding secretReadWriter_def certReadWriter.simps by (rule secret_read_ok)
next
  case (5 w0 a)
  then show ?case by (simp add: secretReadWriter_def secret_read_works)
next
  case (6 w0)
  then show ?case unfolding secretReadWriter_def certReadWriter.simps by (rule secret_write_ok)
next
  case (7 w0 v)
  then show ?case unfolding secretReadWriter_def certReadWriter.simps by (rule secret_overwrite_ok)
qed

section \<open>EnsureCert\<close>

text \<open>C10: When ensuring the certificates for a name succeeds, whatever other calls failed or raced, the certificates it returns are the ones in the secret, and they are valid for the name at some moment of the call (when the call takes less than half a year); if it reports no change, the secret's certificates are those it held before.\<close>

theorem secret_EnsureCert_provides:
  fixes C :: "('k, 'p, 'c, 'r) crypto"
  assumes inv: "secret_inv E C X c v k w0" and h: "servable h"
    and run: "run_state (secret_EnsureCert E C (self_signed_secret E C c k) h) w0 = ((changed, Inr a), w)"
    and dur: "now_at E w \<le> now_at E w0 + 180 * 86400"
  shows "(\<exists>a'. secret_stored v k w = Some a' \<and> same_certs a a') \<and>
    (\<exists>i. os_step (w_os w0) \<le> i \<and> i \<le> os_step (w_os w) \<and> valid_at C a h (env_now E i)) \<and>
    (changed \<or> secret_stored v k w = secret_stored v k w0)"
proof -
  have L: "lawful_crypto C X" and K: "clock E" using inv by (simp_all add: secret_inv_def)
  note out = secrets.handleCommon_run [OF inv run [unfolded secret_EnsureCert_def]]
  have "valid_at C a h (env_now E (os_step (w_os w)))" if "good_artifacts C X (now_at E w0) (now_at E w) h a"
    by (rule good_artifacts_valid [OF L that h clockD(2) [OF K]]) (use dur in simp_all)
  with out show ?thesis by blast
qed

text \<open>
  C27: Once ensuring the certificates has made new ones, because there was no secret or the
  stored certificates were replaced, ensuring them again within half a year changes nothing and
  returns the same certificates, provided that reads of a secret that exists do not fail and the
  name is one that generated certificates serve.  (Certificates that were found stored and still
  valid may be close to their end, and then the second call replaces them.)
\<close>

theorem secret_EnsureCert_settles:
  fixes C :: "('k, 'p, 'c, 'r) crypto"
  assumes inv: "secret_inv E C X c v k w0" and h: "servable h" "h \<noteq> []" and rd: "secret_reads_work c v"
    and dur: "\<forall>i. unix (env_now E i) \<le> now_at E w0 + 180 * 86400"
    and run1: "run_state (secret_EnsureCert E C (self_signed_secret E C c k) h) w0 = ((changed1, Inr a), w1)"
    and new: "secret_stored v k w1 \<noteq> secret_stored v k w0"
    and run2: "run_state (secret_EnsureCert E C (self_signed_secret E C c k) h) w1 = ((changed2, r2), w2)"
  shows "\<not> changed2 \<and> secret_stored v k w2 = secret_stored v k w1 \<and> (\<exists>a2. r2 = Inr a2 \<and> same_certs a2 a)"
proof -
  have L: "lawful_crypto C X" and K: "clock E" using inv by (simp_all add: secret_inv_def)
  note out = secrets.handleCommon_run [OF inv run1 [unfolded secret_EnsureCert_def]]
  have good: "good_artifacts C X (now_at E w0) (now_at E w1) h a" using out(4) new by auto
  from out(3) obtain a' where a': "secret_stored v k w1 = Some a'" "same_certs a a'" by blast
  have "valid_at C a' h (env_now E i)" if "os_step (w_os w1) \<le> i" for i
    using good_artifacts_valid [OF L good h(1) clockD(2) [OF K] clockD(1) [OF K that]] dur same_certs_valid [OF a'(2)]
    by blast
  from hoareD [OF secrets.handleCommon_quiet [OF out(1) rd a'(1) h(2) this] refl run2 [unfolded secret_EnsureCert_def]]
  show ?thesis using a'(2) by (auto simp: same_certs_def)
qed

end
