(* ===== verification/Cert_Example.thy ===== *)
theory Cert_Example
  imports Secret_Writer Atomic_Writer_Spec
begin

text \<open>
  Concrete libraries for the certificate code: a cryptography with one CA and two serving
  certificates, one for a service and one for an IPv6 address, and an API server that holds secrets in a map.  They satisfy what the code
  relies on, and the properties of the certificate components are applied to them.
\<close>

section \<open>A cryptography\<close>

datatype toy_key = Toy_CA_Key | Toy_Key
datatype toy_cert = Toy_CA | Toy_Cert | Toy_Cert6

text \<open>The names served, and the time on the clock.\<close>

definition toy_host :: string where
  "toy_host = ServiceToCommonName ''kube-system'' ''raven''"

definition toy_host6 :: string where
  "toy_host6 = ''::1''"

definition toy_date :: datetime where
  "toy_date = \<lparr>year = 2024, month = 1, day = 2, hour = 3, minute = 4, second = 5\<rparr>"

definition toy_x509 :: "(toy_key, toy_cert) x509_view" where
  "toy_x509 = \<lparr>xv_NotAfter = (\<lambda>_. unix toy_date + 10 * 365 * 86400),
     xv_DNSNames = (\<lambda>c. if c = Toy_Cert then [''localhost'', toy_host]
       else if c = Toy_Cert6 then [''localhost'', toy_host6] else []),
     xv_IPs = (\<lambda>_. []), xv_PublicKey = (\<lambda>c. if c = Toy_CA then Toy_CA_Key else Toy_Key),
     xv_ServerAuth = (\<lambda>_. True), xv_IsCA = (\<lambda>c. c = Toy_CA), xv_IssuedBy = (\<lambda>_ r. r = Toy_CA)\<rparr>"

definition toy_raw :: "toy_cert \<Rightarrow> bytes" where
  "toy_raw c = (case c of Toy_CA \<Rightarrow> [1] | Toy_Cert \<Rightarrow> [2] | Toy_Cert6 \<Rightarrow> [5])"

definition toy_key_bytes :: "toy_key \<Rightarrow> bytes" where
  "toy_key_bytes k = (case k of Toy_CA_Key \<Rightarrow> [3] | Toy_Key \<Rightarrow> [4])"

text \<open>The template of a serving certificate, up to its serial number.\<close>

definition toy_template :: "string \<Rightarrow> cert_template \<Rightarrow> bool" where
  "toy_template h tm \<longleftrightarrow> tm_DNSNames tm = [''localhost'', h] \<and> tm_IPAddresses tm = [] \<and>
     tm_NotBefore tm = unix toy_date \<and> tm_NotAfter tm = unix toy_date + 10 * 365 * 86400"

text \<open>The source of randomness hands out the two keys in turn.\<close>

definition toy_crypto :: "(toy_key, toy_key, toy_cert, nat) crypto" where
  "toy_crypto = \<lparr>
     X509KeyPair = (\<lambda>c k. c = [1, 0] \<and> k = [3, 0] \<or> c \<in> {[2, 0], [5, 0]} \<and> k = [4, 0]),
     AppendCertsFromPEM = (\<lambda>b. if b = [1, 0] then [Toy_CA] else if b = [2, 0] then [Toy_Cert]
       else if b = [5, 0] then [Toy_Cert6] else []),
     pem_Decode = (\<lambda>b. if b = [] then None else Some (butlast b)),
     pem_Encode = (\<lambda>_ b. b @ [0]),
     ParseCertificate = (\<lambda>b. if b = [1] then Inr Toy_CA else if b = [2] then Inr Toy_Cert
       else if b = [5] then Inr Toy_Cert6
       else Inl (ErrorText ''malformed certificate'')),
     Verify = (\<lambda>c h roots t. Toy_CA \<in> set roots \<and> unix toy_date \<le> t \<and>
       t \<le> unix toy_date + 10 * 365 * 86400 \<and> (h = [] \<or> hosts toy_x509 c h)),
     c_Raw = toy_raw,
     c_NotBefore = (\<lambda>_. unix toy_date),
     ParsePrivateKeyPEM = (\<lambda>b. if b = [3, 0] then Inr (Some Toy_CA_Key) else if b = [4, 0] then Inr (Some Toy_Key)
       else Inl (ErrorText ''data does not contain a valid private key'')),
     ParseCertsPEM = (\<lambda>b. if b = [1, 0] then Inr [Toy_CA] else if b = [2, 0] then Inr [Toy_Cert]
       else if b = [5, 0] then Inr [Toy_Cert6]
       else Inl (ErrorText ''data does not contain any valid certificates'')),
     MarshalPKCS1PrivateKey = toy_key_bytes,
     key_Public = (\<lambda>k. k),
     rsa_GenerateKey = (\<lambda>_. State (\<lambda>n. (Inr (if even n then Toy_CA_Key else Toy_Key), Suc n))),
     rand_Int = (\<lambda>_. State (\<lambda>n. (Inr 42, n))),
     NewSelfSignedCACert = (\<lambda>_ k t. State_Monad.return
       (if k = Toy_CA_Key \<and> unix t = unix toy_date then Inr Toy_CA else Inl (ErrorText ''unsupported''))),
     CreateCertificate = (\<lambda>tm parent pub priv. State_Monad.return
       (if parent \<noteq> Toy_CA \<or> pub \<noteq> Toy_Key then Inl (ErrorText ''unsupported'')
        else if toy_template toy_host tm then Inr [2]
        else if toy_template toy_host6 tm then Inr [5]
        else Inl (ErrorText ''unsupported'')))\<rparr>"

lemma toy_fields [simp]:
  "X509KeyPair toy_crypto c k \<longleftrightarrow> c = [1, 0] \<and> k = [3, 0] \<or> c \<in> {[2, 0], [5, 0]} \<and> k = [4, 0]"
  "AppendCertsFromPEM toy_crypto b = (if b = [1, 0] then [Toy_CA] else if b = [2, 0] then [Toy_Cert]
       else if b = [5, 0] then [Toy_Cert6] else [])"
  "pem_Decode toy_crypto b = (if b = [] then None else Some (butlast b))"
  "pem_Encode toy_crypto ty b = b @ [0]"
  "ParseCertificate toy_crypto b = (if b = [1] then Inr Toy_CA else if b = [2] then Inr Toy_Cert
       else if b = [5] then Inr Toy_Cert6
     else Inl (ErrorText ''malformed certificate''))"
  "Verify toy_crypto ct h roots t \<longleftrightarrow> Toy_CA \<in> set roots \<and> unix toy_date \<le> t \<and>
     t \<le> unix toy_date + 10 * 365 * 86400 \<and> (h = [] \<or> hosts toy_x509 ct h)"
  "c_NotBefore toy_crypto ct = unix toy_date" "key_Public toy_crypto ky = ky"
  "ParsePrivateKeyPEM toy_crypto b = (if b = [3, 0] then Inr (Some Toy_CA_Key) else if b = [4, 0] then Inr (Some Toy_Key)
     else Inl (ErrorText ''data does not contain a valid private key''))"
  "ParseCertsPEM toy_crypto b = (if b = [1, 0] then Inr [Toy_CA] else if b = [2, 0] then Inr [Toy_Cert]
       else if b = [5, 0] then Inr [Toy_Cert6]
     else Inl (ErrorText ''data does not contain any valid certificates''))"
  "rsa_GenerateKey toy_crypto sz = State (\<lambda>n. (Inr (if even n then Toy_CA_Key else Toy_Key), Suc n))"
  "rand_Int toy_crypto bound = State (\<lambda>n. (Inr 42, n))"
  "NewSelfSignedCACert toy_crypto cfg ky d = State_Monad.return
     (if ky = Toy_CA_Key \<and> unix d = unix toy_date then Inr Toy_CA else Inl (ErrorText ''unsupported''))"
  "CreateCertificate toy_crypto tm parent pub priv = State_Monad.return
     (if parent \<noteq> Toy_CA \<or> pub \<noteq> Toy_Key then Inl (ErrorText ''unsupported'')
      else if toy_template toy_host tm then Inr [2]
      else if toy_template toy_host6 tm then Inr [5]
      else Inl (ErrorText ''unsupported''))"
  by (simp_all add: toy_crypto_def)

lemma toy_simps [simp]:
  "EncodeCertPEM toy_crypto Toy_CA = [1, 0]" "EncodeCertPEM toy_crypto Toy_Cert = [2, 0]"
  "EncodeCertPEM toy_crypto Toy_Cert6 = [5, 0]"
  "EncodePrivateKeyPEM toy_crypto Toy_CA_Key = [3, 0]" "EncodePrivateKeyPEM toy_crypto Toy_Key = [4, 0]"
  by (simp_all add: EncodeCertPEM_def EncodePrivateKeyPEM_def toy_crypto_def toy_raw_def toy_key_bytes_def)

lemma toy_known: "known_cert toy_crypto c"
  by (cases c) (simp_all add: known_cert_def toy_crypto_def toy_raw_def)

lemma toy_lawful: "lawful_crypto toy_crypto toy_x509"
proof -
  have time: "in_time toy_crypto toy_x509 c t \<longleftrightarrow> unix toy_date \<le> t \<and> t \<le> unix toy_date + 10 * 365 * 86400" for c t
    by (simp add: in_time_def toy_x509_def)
  have pem: "pem_Decode toy_crypto (pem_Encode toy_crypto ty b) = Some b \<and> pem_Encode toy_crypto ty b \<noteq> []" for ty b
    by (simp add: toy_crypto_def)
  have append: "AppendCertsFromPEM toy_crypto (EncodeCertPEM toy_crypto c) = [c]" for c
    by (cases c) simp_all
  have pair: "xv_PublicKey toy_x509 c = key_Public toy_crypto k \<Longrightarrow>
      X509KeyPair toy_crypto (EncodeCertPEM toy_crypto c) (EncodePrivateKeyPEM toy_crypto k)" for c k
    by (cases c; cases k) (simp_all add: toy_x509_def)
  have certs: "ParseCertsPEM toy_crypto b = Inr [c] \<Longrightarrow> pem_Decode toy_crypto b = Some d \<Longrightarrow>
      ParseCertificate toy_crypto d = Inr c' \<Longrightarrow> c' = c" for b c d c'
    by (auto split: if_splits)
  have key: "ParsePrivateKeyPEM toy_crypto (EncodePrivateKeyPEM toy_crypto k) = Inr (Some k)" for k
    by (cases k) simp_all
  have create: "hoare (\<lambda>_. True) (CreateCertificate toy_crypto tm parent pub priv)
      (\<lambda>r _. \<forall>der c. r = Inr der \<and> ParseCertificate toy_crypto der = Inr c \<longrightarrow>
         made_from toy_crypto toy_x509 tm parent pub priv c)" for tm parent pub priv
    using toy_known [of Toy_Cert] toy_known [of Toy_Cert6]
    by (auto simp: hoare_def made_from_def toy_template_def toy_x509_def split: if_splits)
  have ca: "hoare (\<lambda>_. True) (NewSelfSignedCACert toy_crypto cfg k t)
      (\<lambda>r _. \<forall>c. r = Inr c \<longrightarrow> known_cert toy_crypto c \<and> xv_PublicKey toy_x509 c = key_Public toy_crypto k \<and>
         xv_IsCA toy_x509 c \<and> c_NotBefore toy_crypto c = unix t \<and>
         xv_NotAfter toy_x509 c = unix t + 10 * 365 * 86400)" for cfg k t
    using toy_known [of Toy_CA]
    by (auto simp: hoare_def toy_x509_def split: if_splits)
  have verify: "Verify toy_crypto c h roots t" if "xv_IssuedBy toy_x509 c r" "r \<in> set roots"
    "in_time toy_crypto toy_x509 c t" "h = [] \<or> hosts toy_x509 c h" for c h r roots t
    using that unfolding time by (simp add: toy_x509_def)
  have verified: "Verify toy_crypto c h roots t \<Longrightarrow>
      in_time toy_crypto toy_x509 c t \<and> (\<forall>ip. h \<noteq> [] \<and> host_IP h = Some ip \<longrightarrow> lists_IP toy_x509 c ip)"
    for c h roots t
    unfolding time by (auto simp: hosts_def)
  show ?thesis
  proof (unfold lawful_crypto_def, intro conjI, goal_cases)
    case 1
    show ?case using pem by simp
  next
    case 2
    show ?case using append by simp
  next
    case 3
    show ?case using pair by simp
  next
    case 4
    show ?case using certs toy_known by blast
  next
    case 5
    show ?case using key by simp
  next
    case 6
    show ?case by (intro allI create)
  next
    case 7
    show ?case by (intro allI ca)
  next
    case 8
    show ?case using verify by blast
  next
    case 9
    show ?case using verified by blast
  qed
qed

lemma toy_names: "altIPs toy_host = []" "altDNSNames toy_host = [''localhost'', toy_host]"
  "servable toy_host" "toy_host \<noteq> []"
proof -
  have h: "toy_host = ''raven.kube-system.svc''" by (simp add: toy_host_def ServiceToCommonName_def)
  have "parseIPv4 ''raven.kube-system.svc'' = None" by code_simp
  then have p: "ParseIP toy_host = None" "host_IP toy_host = None"
    by (simp_all add: ParseIP_def h host_IP_def)
  then show "altIPs toy_host = []" "altDNSNames toy_host = [''localhost'', toy_host]" "servable toy_host" "toy_host \<noteq> []"
    by (simp_all add: altIPs_def altDNSNames_def To4_def servable_def h)
qed

lemma calm_clock: "env_now calm_env i = toy_date" "clock calm_env"
  by (simp_all add: calm_env_def toy_date_def clock_def real_month_def)

section \<open>A renewal\<close>

definition toy_world :: "'a \<Rightarrow> nat \<Rightarrow> ('a, nat) world" where
  "toy_world a r = \<lparr>w_os = in_state certs_dir, w_api = a, w_rand = r, w_caKey = None, w_caCert = None\<rparr>"

definition toy_artifacts :: artifacts where
  "toy_artifacts = \<lparr>Key = Some [4, 0], Cert = Some [2, 0], CAKey = Some [3, 0], CACert = Some [1, 0],
     ResourceVersion = []\<rparr>"

lemma toy_times:
  "unix toy_date \<le> unix (AddDate toy_date 1 0 0)" "unix (AddDate toy_date 1 0 0) \<le> unix toy_date + 315360000"
  "unix toy_date \<le> unix (AddDate toy_date 0 6 0)" "unix (AddDate toy_date 0 6 0) \<le> unix toy_date + 315360000"
proof -
  have "real_month toy_date" by (simp add: toy_date_def real_month_def)
  from AddDate_year [OF this] AddDate_half_year [OF this]
  show "unix toy_date \<le> unix (AddDate toy_date 1 0 0)" "unix (AddDate toy_date 1 0 0) \<le> unix toy_date + 315360000"
    "unix toy_date \<le> unix (AddDate toy_date 0 6 0)" "unix (AddDate toy_date 0 6 0) \<le> unix toy_date + 315360000"
    by auto
qed

lemma toy_CA_valid:
  "ValidCACert toy_crypto (Some [3, 0]) (Some [1, 0]) (Some [1, 0]) [] (AddDate toy_date 1 0 0)"
  using toy_times by (simp add: ValidCACert_def)

lemma toy_usable: "usable_CA calm_env toy_crypto (w\<lparr>w_caKey := Some [3, 0], w_caCert := Some [1, 0]\<rparr>)"
proof -
  have "ParsePrivateKeyPEM toy_crypto [3, 0] = Inr (Some Toy_CA_Key)" "ParseCertsPEM toy_crypto [1, 0] = Inr [Toy_CA]"
    by simp_all
  then show ?thesis
    unfolding usable_CA_def calm_clock
    by (intro conjI exI [of _ Toy_CA_Key] exI [of _ Toy_CA]) (use toy_CA_valid in simp_all)
qed

lemma toy_renewal:
  assumes "odd (w_rand w)" "w_caKey w = Some [3, 0]" "w_caCert w = Some [1, 0]"
  shows "fst (run_state (SelfSigned_Generate calm_env toy_crypto toy_host) w) = Inr toy_artifacts"
proof -
  have "fst (run_state (validCACert calm_env toy_crypto) w) = Some (Toy_CA_Key, Toy_CA)"
    "w_rand (snd (run_state (validCACert calm_env toy_crypto) w)) = w_rand w"
    using assms toy_CA_valid by (simp_all add: validCACert_def time_Now_def calm_clock)
  then obtain w1 where w1: "run_state (validCACert calm_env toy_crypto) w = (Some (Toy_CA_Key, Toy_CA), w1)"
    "w_rand w1 = w_rand w" by (metis prod.collapse)
  then show ?thesis
    using assms(1)
    by (simp add: SelfSigned_Generate_def signingPair_def NewPrivateKey_def NewSignedCert_def toy_names time_Now_def
        calm_clock toy_artifacts_def Let_def toy_template_def)
qed

theorem renewal_keeps_CA_witness:
  "\<exists>w'. run_state (do { _ \<leftarrow> SelfSigned_SetCA (Some [3, 0]) (Some [1, 0]);
        SelfSigned_Generate calm_env toy_crypto toy_host }) (toy_world () 1) = (Inr toy_artifacts, w') \<and>
     CAKey toy_artifacts = Some [3, 0] \<and> CACert toy_artifacts = Some [1, 0] \<and>
     w_caKey w' = Some [3, 0] \<and> w_caCert w' = Some [1, 0] \<and>
     signed_by_bundle toy_crypto toy_x509 (Some [1, 0]) toy_artifacts toy_host (unix toy_date) (unix toy_date + 365 * 86400)"
proof -
  let ?m = "do { _ \<leftarrow> SelfSigned_SetCA (Some [3, 0]) (Some [1, 0]);
        SelfSigned_Generate calm_env toy_crypto toy_host }"
  have "fst (run_state ?m (toy_world () 1)) = Inr toy_artifacts"
    by (simp add: SelfSigned_SetCA_def toy_renewal toy_world_def)
  then obtain w' where run: "run_state ?m (toy_world () 1) = (Inr toy_artifacts, w')" by (metis prod.collapse)
  have "sound_CA toy_crypto toy_x509 t (Some [3, 0]) (Some [1, 0])" if "unix toy_date \<le> t" for t
    using that by (auto simp: sound_CA_def toy_x509_def)
  then have "sound_CA toy_crypto toy_x509 (now_at calm_env (toy_world () 1)) (Some [3, 0]) (Some [1, 0])"
    by (simp add: calm_clock)
  from renewal_keeps_CA [OF toy_lawful calm_clock(2) toy_names(3) this toy_usable run] run show ?thesis
    by (auto simp: calm_clock)
qed

section \<open>Secrets\<close>

text \<open>A server that keeps the secrets in a part of its state, which \<open>g\<close> reads and \<open>p\<close> writes.\<close>

definition lens_secrets ::
  "('a \<Rightarrow> namespacedName \<Rightarrow> secret option) \<Rightarrow> ((namespacedName \<Rightarrow> secret option) \<Rightarrow> 'a \<Rightarrow> 'a) \<Rightarrow> 'a secret_client" where
  "lens_secrets g p = \<lparr>
     Get_Secret = (\<lambda>k. State (\<lambda>s. (case g s k of None \<Rightarrow> Inl (ApiError ReasonNotFound) | Some x \<Rightarrow> Inr x, s))),
     Create_Secret = (\<lambda>x. State (\<lambda>s. if g s (secret_key x) = None then (None, p ((g s)(secret_key x \<mapsto> x)) s)
       else (Some (ApiError ReasonAlreadyExists), s))),
     Update_Secret = (\<lambda>x. State (\<lambda>s. if g s (secret_key x) = None then (Some (ApiError ReasonNotFound), s)
       else (None, p ((g s)(secret_key x \<mapsto> x)) s)))\<rparr>"

lemma lens_secrets_fields [simp]:
  "Get_Secret (lens_secrets g p) k = State (\<lambda>s. (case g s k of None \<Rightarrow> Inl (ApiError ReasonNotFound) | Some x \<Rightarrow> Inr x, s))"
  "Create_Secret (lens_secrets g p) x = State (\<lambda>s. if g s (secret_key x) = None then (None, p ((g s)(secret_key x \<mapsto> x)) s)
     else (Some (ApiError ReasonAlreadyExists), s))"
  by (simp_all add: lens_secrets_def)

lemma lens_secrets_lawful:
  assumes "\<And>m s. g (p m s) = m"
  shows "lawful_secrets (lens_secrets g p) g" "secret_reads_work (lens_secrets g p) g"
  using assms
  by (auto simp: lawful_secrets_def secret_reads_work_def lens_secrets_def hoare_def same_data_def
      split: option.splits if_splits)

abbreviation toy_secrets :: "(namespacedName \<rightharpoonup> secret) secret_client" where
  "toy_secrets \<equiv> lens_secrets (\<lambda>m. m) (\<lambda>m _. m)"

abbreviation toy_start :: "nat \<Rightarrow> (namespacedName \<rightharpoonup> secret, nat) world" where
  "toy_start r \<equiv> toy_world Map.empty r"

definition toy_key :: namespacedName where
  "toy_key = NamespacedName ''kube-system'' ''raven-webhook-certs''"

lemma toy_secret_inv: "secret_inv calm_env toy_crypto toy_x509 toy_secrets (\<lambda>m. m) toy_key (toy_start r)"
  by (simp add: secret_inv_def calm_clock toy_lawful lens_secrets_lawful toy_world_def secret_stored_def)

lemma toy_first_Generate:
  assumes "even (w_rand w)" "w_caKey w = None"
  shows "fst (run_state (SelfSigned_Generate calm_env toy_crypto toy_host) w) = Inr toy_artifacts"
proof -
  have "fst (run_state (validCACert calm_env toy_crypto) w) = None"
    "w_rand (snd (run_state (validCACert calm_env toy_crypto) w)) = w_rand w"
    using assms by (simp_all add: validCACert_def time_Now_def ValidCACert_def)
  then obtain w1 where w1: "run_state (validCACert calm_env toy_crypto) w = (None, w1)"
    "w_rand w1 = w_rand w" by (metis prod.collapse)
  then show ?thesis
    using assms(1)
    by (simp add: SelfSigned_Generate_def signingPair_def NewPrivateKey_def NewSignedCert_def toy_names time_Now_def
        calm_clock toy_artifacts_def Let_def toy_template_def)
qed

abbreviation toy_EnsureCert ::
  "(namespacedName \<rightharpoonup> secret, nat) world \<Rightarrow> (bool \<times> (cert_error + artifacts)) \<times> (namespacedName \<rightharpoonup> secret, nat) world" where
  "toy_EnsureCert w \<equiv> run_state (secret_EnsureCert calm_env toy_crypto
     (self_signed_secret calm_env toy_crypto toy_secrets toy_key) toy_host) w"

text \<open>On an empty cluster the certificates are made and stored.\<close>

lemma toy_hosted: "hosts toy_x509 Toy_Cert toy_host"
  by (rule servable_hosts [OF toy_names(3)]) (simp_all add: toy_names toy_x509_def)

lemma toy_valid: "valid_at toy_crypto toy_artifacts toy_host toy_date"
  using toy_times toy_hosted by (simp add: valid_at_def toy_artifacts_def)

lemma lens_first_EnsureCert:
  assumes "even r" and l: "\<And>m s. g (p m s) = m" and a: "g a = Map.empty"
  shows "fst (run_state (secret_EnsureCert calm_env toy_crypto
      (self_signed_secret calm_env toy_crypto (lens_secrets g p) key) toy_host) (toy_world a r)) = (True, Inr toy_artifacts)"
proof -
  let ?w = "toy_world a r" and ?s = "self_signed_secret calm_env toy_crypto (lens_secrets g p) key :: ('a, nat) secretCertWriter"
  have gen: "fst (run_state (SelfSigned_Generate calm_env toy_crypto toy_host) ?w) = Inr toy_artifacts"
    by (rule toy_first_Generate) (use assms in \<open>simp_all add: toy_world_def\<close>)
  have "hoare (\<lambda>w. w = ?w) (SelfSigned_Generate calm_env toy_crypto toy_host) (\<lambda>x w. drift ?w w)"
    by (rule hoare_post [OF Generate_ok [OF toy_lawful calm_clock(2)]]) (simp_all add: toy_world_def)
  from hoareD [OF this refl prod.collapse [symmetric]]
  have api: "w_api (snd (run_state (SelfSigned_Generate calm_env toy_crypto toy_host) ?w)) = a"
    by (simp add: drift_def toy_world_def)
  obtain w1 where w1: "run_state (SelfSigned_Generate calm_env toy_crypto toy_host) ?w = (Inr toy_artifacts, w1)" "w_api w1 = a"
    using gen api by (metis prod.collapse snd_conv)
  have w0: "w_api ?w = a" "?w\<lparr>w_api := a\<rparr> = ?w" by (simp_all add: toy_world_def)
  have read: "run_state (secret_read ?s) ?w = (Inl (NotFoundError (FromApi (ApiError ReasonNotFound))), ?w)"
    using a by (simp add: secret_read_def w0 IsNotFound_def)
  have wr: "run_state (secret_write ?s toy_host) ?w = (Inr toy_artifacts, w1\<lparr>w_api := p [key \<mapsto> certsToSecret toy_artifacts key] a\<rparr>)"
    using a by (simp add: secret_write_def buildSecret_def SelfSignedCertGenerator_def w1 secret_certs)
  have "run_state (createIfNotExists (secretReadWriter ?s toy_host)) ?w =
      ((True, Inr toy_artifacts), w1\<lparr>w_api := p [key \<mapsto> certsToSecret toy_artifacts key] a\<rparr>)"
    by (simp add: createIfNotExists_def secretReadWriter_def read wr isNotFound_def)
  moreover have "fst (run_state (validCert calm_env toy_crypto (Some toy_artifacts) toy_host) w)" for w :: "('a, nat) world"
    using hoareD [OF validCert_at [where E = calm_env] refl prod.collapse [symmetric], of w toy_crypto toy_artifacts toy_host]
      toy_valid by (simp add: calm_clock)
  ultimately show ?thesis
    by (simp add: secret_EnsureCert_def handleCommon_def toy_names split: prod.split) (metis fst_conv)
qed

lemma toy_first_EnsureCert: "even r \<Longrightarrow> fst (toy_EnsureCert (toy_start r)) = (True, Inr toy_artifacts)"
  by (rule lens_first_EnsureCert) simp_all

text \<open>The first and the second call.\<close>

lemma toy_two_calls:
  obtains w1 where "toy_EnsureCert (toy_start 0) = ((True, Inr toy_artifacts), w1)"
    and "toy_EnsureCert w1 = ((fst (fst (toy_EnsureCert w1)), snd (fst (toy_EnsureCert w1))), snd (toy_EnsureCert w1))"
  using toy_first_EnsureCert [of 0] by (metis prod.collapse even_zero)

theorem secret_EnsureCert_provides_witness:
  "\<exists>w. toy_EnsureCert (toy_start 0) = ((True, Inr toy_artifacts), w) \<and>
     (\<exists>a'. secret_stored (\<lambda>m. m) toy_key w = Some a' \<and> same_certs toy_artifacts a') \<and>
     (\<exists>i. valid_at toy_crypto toy_artifacts toy_host (env_now calm_env i))"
proof -
  obtain w where w: "toy_EnsureCert (toy_start 0) = ((True, Inr toy_artifacts), w)" using toy_two_calls by metis
  from secret_EnsureCert_provides [OF toy_secret_inv toy_names(3) w] w show ?thesis
    by (auto simp: calm_clock)
qed

theorem secret_EnsureCert_settles_witness:
  "\<exists>w. toy_EnsureCert (toy_start 0) = ((True, Inr toy_artifacts), w) \<and>
     \<not> fst (fst (toy_EnsureCert w)) \<and>
     (\<exists>a. snd (fst (toy_EnsureCert w)) = Inr a \<and> same_certs a toy_artifacts)"
proof -
  obtain w where w: "toy_EnsureCert (toy_start 0) = ((True, Inr toy_artifacts), w)"
    and w': "toy_EnsureCert w = ((fst (fst (toy_EnsureCert w)), snd (fst (toy_EnsureCert w))), snd (toy_EnsureCert w))"
    using toy_two_calls by metis
  have "secret_stored (\<lambda>m. m) toy_key (toy_start 0) = None" by (simp add: secret_stored_def toy_world_def)
  moreover have "secret_stored (\<lambda>m. m) toy_key w \<noteq> None"
    using secrets.handleCommon_run(3) [OF toy_secret_inv w [unfolded secret_EnsureCert_def]] by auto
  ultimately have new: "secret_stored (\<lambda>m. m) toy_key w \<noteq> secret_stored (\<lambda>m. m) toy_key (toy_start 0)" by simp
  from secret_EnsureCert_settles [OF toy_secret_inv toy_names(3,4) lens_secrets_lawful(2) [of "\<lambda>m. m" "\<lambda>m _. m", OF refl] _ w new w'] w show ?thesis
    by (auto simp: calm_clock)
qed

end
