(* ===== verification/Fs_Store.thy ===== *)
theory Fs_Store
  imports Fs_Writer_Spec Cert_Example
begin

text \<open>
  The directory writer of \<^verbatim>\<open>fs.go\<close> is an instance of the interface \<open>cert_store\<close>: what it
  holds is what a reader of the directory sees, what it relies on is a directory that the
  atomic writer manages and links that can be read.
\<close>

section \<open>The directory is a store of certificates\<close>

definition fs_stored :: "os_env \<Rightarrow> string \<Rightarrow> ('a, 'r) world \<Rightarrow> artifacts option" where
  "fs_stored E T w = fs_certs E T (os_fs (w_os w))"

definition fs_inv ::
  "os_env \<Rightarrow> ('k, 'p, 'c, 'r) crypto \<Rightarrow> ('p, 'c) x509_view \<Rightarrow> range_order \<Rightarrow> string \<Rightarrow> fpath \<Rightarrow>
   ('a, 'r) world \<Rightarrow> bool" where
  "fs_inv E C X rng T B w \<longleftrightarrow>
     clock E \<and> lawful_crypto C X \<and> dir_env E rng T B \<and> readlink_works E \<and>
     (\<exists>cur. managed B cur (os_fs (w_os w))) \<and>
     sound_CA C X (now_at E w) (w_caKey w) (w_caCert w)"

text \<open>The writer the controller makes.\<close>

abbreviation self_signed_dir ::
  "os_env \<Rightarrow> ('k, 'p, 'c, 'r) crypto \<Rightarrow> string \<Rightarrow> ('a, 'r) fsCertWriter" where
  "self_signed_dir E C T \<equiv> \<lparr>fcw_CertGenerator = SelfSignedCertGenerator E C, fcw_Path = T\<rparr>"

lemma NewFSCertWriter_self_signed:
  "T \<noteq> [] \<Longrightarrow> run_state (NewFSCertWriter E C \<lparr>fo_CertGenerator = None, fo_Path = T\<rparr>) w =
     (Inr (self_signed_dir E C T), w\<lparr>w_caKey := None, w_caCert := None\<rparr>)"
  by (simp add: NewFSCertWriter_def fs_setDefaults_def fs_new_SelfSigned_def fs_validate_def)

lemma fs_inv_drift:
  assumes "fs_inv E C X rng T B w" "drift w w'"
  shows "fs_inv E C X rng T B w'"
proof -
  have "now_at E w \<le> now_at E w'" using assms drift_now by (auto simp: fs_inv_def)
  then show ?thesis
    using assms by (auto simp: fs_inv_def drift_def intro: sound_CA_later)
qed

text \<open>A later moment, with a directory that is still managed and the same CA at hand.\<close>

lemma fs_inv_os:
  assumes "fs_inv E C X rng T B w" "os_step (w_os w) \<le> os_step s" "managed B cur (os_fs s)"
  shows "fs_inv E C X rng T B (w\<lparr>w_os := s\<rparr>)"
proof -
  have "now_at E w \<le> now_at E (w\<lparr>w_os := s\<rparr>)"
    by (rule now_later) (use assms in \<open>simp_all add: fs_inv_def\<close>)
  then show ?thesis using assms by (auto simp: fs_inv_def intro: sound_CA_later)
qed

text \<open>A triple of the file system over a run on the whole state, with the time that passes.\<close>

lemma hoare_fsh:
  assumes f: "fsh (\<lambda>_. True) (\<lambda>t. t = os_fs (w_os w0)) m Q" and adv: "advances m"
  shows "hoare (\<lambda>w. w = w0) (on_os m) (\<lambda>r w. \<exists>s. w = w0\<lparr>w_os := s\<rparr> \<and> later w0 w \<and> Q r (os_fs s))"
proof (rule hoareI)
  fix w r w' assume w: "w = w0" and run: "run_state (on_os m) w = (r, w')"
  obtain s where s: "run_state m (w_os w0) = (r, s)" "w' = w0\<lparr>w_os := s\<rparr>"
    using run w by (auto split: prod.splits)
  have "Q r (os_fs s)" "os_step (w_os w0) \<le> os_step s"
    using fshD [OF f refl _ s(1)] advancesD [OF adv s(1)] by simp_all
  with s(2) show "\<exists>s. w' = w0\<lparr>w_os := s\<rparr> \<and> later w0 w' \<and> Q r (os_fs s)"
    by (intro exI [of _ s]) simp
qed

lemma advances_read_certs [advance]: "advances (read_certs E T)"
proof -
  have "advances (ensureExist_loop E T ns)" for ns
    by (induction ns) (auto intro!: advance)
  then show ?thesis
    unfolding read_certs_def ensureExist_def read_cert_file_def by (intro advance)
qed

lemma advances_WriteCertsToDir [advance]: "advances (WriteCertsToDir E rng T a)"
proof -
  have loop: "advances (prepareToWrite_loop E T ns)" for ns
    by (induction ns) (auto intro!: advance simp: Let_def)
  show ?thesis
    unfolding WriteCertsToDir_def prepareToWrite_def NewAtomicWriter_def by (intro advance loop)
qed

lemma fs_read_ok:
  assumes inv: "fs_inv E C X rng T B w0"
  shows "hoare (\<lambda>w. w = w0) (fs_read E (self_signed_dir E C T))
    (\<lambda>r w. (fs_inv E C X rng T B w \<and> later w0 w \<and> fs_stored E T w = fs_stored E T w0 \<and>
      (\<forall>a. r = Inr a \<longrightarrow> fs_stored E T w0 = Some a)) \<and>
      (no_faults E \<and> fs_stored E T w0 \<noteq> None \<longrightarrow> (\<exists>a. r = Inr a)))"
proof -
  obtain cur where m: "managed B cur (os_fs (w_os w0))" using inv by (auto simp: fs_inv_def)
  show ?thesis
    unfolding fs_read_def fsCertWriter.simps
    by (rule hoare_post [OF hoare_fsh [OF fsh_read_certs advances_read_certs]])
      (use m fs_inv_os [OF inv] in \<open>auto simp: fs_stored_def\<close>)
qed

lemma good_artifacts_complete:
  "good_artifacts C X a b h art \<Longrightarrow>
     same_certs art \<lparr>Key = Some (slice_bytes (Key art)), Cert = Some (slice_bytes (Cert art)),
       CAKey = Some (slice_bytes (CAKey art)), CACert = Some (slice_bytes (CACert art)), ResourceVersion = []\<rparr>"
  unfolding good_artifacts_def by (auto simp: same_certs_def)

lemma fs_doWrite_ok:
  assumes inv: "fs_inv E C X rng T B w0"
  shows "hoare (\<lambda>w. w = w0) (fs_doWrite E rng (self_signed_dir E C T) h)
    (\<lambda>r w. fs_inv E C X rng T B w \<and> later w0 w \<and>
      (\<forall>a. r = Inr a \<longrightarrow> good_artifacts C X (now_at E w0) (now_at E w) h a \<and>
        (\<exists>a'. fs_stored E T w = Some a' \<and> same_certs a a')) \<and>
      (\<forall>e. r = Inl e \<longrightarrow> \<not> isAlreadyExists e))"
proof -
  have e: "dir_env E rng T B" "readlink_works E" and K: "clock E" using inv by (simp_all add: fs_inv_def)
  have g: "hoare (\<lambda>w. w = w0) (SelfSigned_Generate E C h)
    (\<lambda>r w. drift w0 w \<and> (\<forall>art. r = Inr art \<longrightarrow> good_artifacts C X (now_at E w0) (now_at E w) h art))"
    by (rule Generate_ok) (use inv in \<open>simp_all add: fs_inv_def\<close>)
  show ?thesis
    unfolding fs_doWrite_def fsCertWriter.simps SelfSignedCertGenerator_def certGenerator.simps
  proof (rule hoare_bind_at [OF g], rule hoare_sum, goal_cases)
    case (1 r w1 err)
    then show ?case
      using fs_inv_drift [OF inv] by (auto intro!: hoare_return_pre simp: drift_def isAlreadyExists_def)
  next
    case (2 r w1 a)
    then have d: "drift w0 w1" and good: "good_artifacts C X (now_at E w0) (now_at E w1) h a" by auto
    have inv1: "fs_inv E C X rng T B w1" by (rule fs_inv_drift [OF inv d])
    then obtain cur where m: "managed B cur (os_fs (w_os w1))" by (auto simp: fs_inv_def)
    let ?Q = "\<lambda>r t. certs_outcome E B cur (os_fs (w_os w1)) a (r = Inr ()) t \<and>
      (clear_way E B cur (os_fs (w_os w1)) \<longrightarrow> r = Inr ())"
    have w: "fsh (\<lambda>_. True) (\<lambda>t. t = os_fs (w_os w1)) (WriteCertsToDir E rng T a) ?Q"
      by (rule fsh_WriteCertsToDir [OF e m]) simp_all
    show ?case
    proof (rule hoare_bind_at [OF hoare_fsh [OF w advances_WriteCertsToDir]], rule hoare_return_pre, goal_cases)
      case (1 r w2 w3)
      then obtain s where s: "w3 = w1\<lparr>w_os := s\<rparr>" "later w1 w3" "?Q r (os_fs s)" by blast
      have "\<exists>cur'. managed B cur' (os_fs s)"
        using s(3) by (auto simp: certs_outcome_def phaseA_def phaseB_def)
      then have inv3: "fs_inv E C X rng T B w3" using fs_inv_os [OF inv1] s by auto
      have later: "later w0 w3" using d s(2) by (simp add: drift_def)
      have "fs_stored E T w3 = Some \<lparr>Key = Some (slice_bytes (Key a)), Cert = Some (slice_bytes (Cert a)),
          CAKey = Some (slice_bytes (CAKey a)), CACert = Some (slice_bytes (CACert a)), ResourceVersion = []\<rparr>"
        if "r = Inr ()"
        using projected_certs [OF dir_envD(1) [OF e(1)]] s that by (simp add: certs_outcome_def fs_stored_def)
      moreover have "good_artifacts C X (now_at E w0) (now_at E w3) h a"
        using good_artifacts_widen [OF good order_refl now_later [OF K s(2)]] .
      ultimately show ?case
        using inv3 later good_artifacts_complete [OF good]
        by (auto simp: isAlreadyExists_def split: sum.split)
    qed
  qed
qed

interpretation dirs: cert_store E C X h "fsReadWriter E rng (self_signed_dir E C T) h"
  "fs_inv E C X rng T B" "fs_stored E T" "no_faults E" for E C X h rng T B
proof (unfold_locales, goal_cases)
  case (1 w)
  then show ?case by (simp add: fs_inv_def)
next
  case (2 w w')
  then show ?case by (rule fs_inv_drift)
next
  case (3 w w')
  then show ?case by (simp add: fs_stored_def drift_def)
next
  case (4 w0)
  show ?case
    unfolding fsReadWriter_def certReadWriter.simps
    by (rule hoare_post [OF fs_read_ok [OF 4]]) auto
next
  case (5 w0 a)
  show ?case
    unfolding fsReadWriter_def certReadWriter.simps
    by (rule hoare_post [OF fs_read_ok [OF 5(1)]]) (use 5 in auto)
next
  case (6 w0)
  show ?case
    unfolding fsReadWriter_def certReadWriter.simps fs_write_def
    by (rule hoare_post [OF fs_doWrite_ok [OF 6]]) auto
next
  case (7 w0 v)
  show ?case
    unfolding fsReadWriter_def certReadWriter.simps fs_overwrite_def
    by (rule hoare_post [OF fs_doWrite_ok [OF 7]]) auto
qed

section \<open>EnsureCert\<close>

text \<open>C24: Ensuring the certificates in the directory, as long as links can be read and for a name that generated certificates serve (which an IPv6 address is not): when it succeeds, a reader of the directory sees the certificates it returns, they are valid for the name at some moment of the call (when the call takes less than half a year), the directory stays one that the atomic writer manages, and if no change is reported a reader sees what it saw before.\<close>

theorem fs_EnsureCert_provides:
  fixes C :: "('k, 'p, 'c, 'r) crypto"
  assumes inv: "fs_inv E C X rng T B w0" and h: "servable h"
    and run: "run_state (fs_EnsureCert E C rng (self_signed_dir E C T) h) w0 = ((changed, Inr a), w)"
    and dur: "now_at E w \<le> now_at E w0 + 180 * 86400"
  shows "(\<exists>a'. fs_certs E T (os_fs (w_os w)) = Some a' \<and> same_certs a a') \<and>
    (\<exists>i. os_step (w_os w0) \<le> i \<and> i \<le> os_step (w_os w) \<and> valid_at C a h (env_now E i)) \<and>
    (\<exists>cur. managed B cur (os_fs (w_os w))) \<and>
    (changed \<or> fs_certs E T (os_fs (w_os w)) = fs_certs E T (os_fs (w_os w0)))"
proof -
  have L: "lawful_crypto C X" and K: "clock E" using inv by (simp_all add: fs_inv_def)
  note out = dirs.handleCommon_run [OF inv run [unfolded fs_EnsureCert_def]]
  have "valid_at C a h (env_now E (os_step (w_os w)))" if "good_artifacts C X (now_at E w0) (now_at E w) h a"
    by (rule good_artifacts_valid [OF L that h clockD(2) [OF K]]) (use dur in simp_all)
  moreover have "\<exists>cur. managed B cur (os_fs (w_os w))" using out(1) by (simp add: fs_inv_def)
  ultimately show ?thesis using out unfolding fs_stored_def by blast
qed

text \<open>C25: For a name that is an IPv6 address, as long as links can be read, no certificates that the generator makes are ever accepted by the writer: every call that succeeds throws away what the directory holds and issues new certificates, which the next call will not accept either.\<close>

theorem fs_EnsureCert_IPv6_never_settles:
  fixes C :: "('k, 'p, 'c, 'r) crypto"
  assumes inv: "fs_inv E C X rng T B w0" and h: "unservable h"
    and old: "\<forall>a t. fs_certs E T (os_fs (w_os w0)) = Some a \<longrightarrow> \<not> valid_at C a h t"
    and run: "run_state (fs_EnsureCert E C rng (self_signed_dir E C T) h) w0 = ((changed, Inr a), w)"
  shows "changed \<and> good_artifacts C X (now_at E w0) (now_at E w) h a \<and>
    (\<forall>a t. fs_certs E T (os_fs (w_os w)) = Some a \<longrightarrow> \<not> valid_at C a h t)"
proof -
  have L: "lawful_crypto C X" using inv by (simp add: fs_inv_def)
  have nv: "never_valid C h (fs_stored E T w0)" using old by (simp add: never_valid_def fs_stored_def)
  from hoareD [OF dirs.handleCommon_replaces [OF L inv h nv] refl run [unfolded fs_EnsureCert_def]]
  show ?thesis by (simp add: never_valid_def fs_stored_def)
qed

section \<open>Examples\<close>

abbreviation toy_dir :: "(nat, nat) fsCertWriter" where
  "toy_dir \<equiv> self_signed_dir calm_env toy_crypto ''/certs''"

lemma calm_dir: "dir_env calm_env sorted_range ''/certs'' [''certs'']"
  using certs_path sorted_range_ok by (simp add: dir_env_def calm_env_def)

lemma calm_clear: "clear_way calm_env [''certs''] None certs_dir"
  by (simp add: clear_way_def no_faults_def calm_env_def fresh_names_def certs_get)

lemma toy_fs_inv: "fs_inv calm_env toy_crypto toy_x509 sorted_range ''/certs'' [''certs''] (toy_world () r)"
  using managed_fresh(1) by (auto simp: fs_inv_def calm_clock toy_lawful calm_dir cert_readlink toy_world_def in_state_def)

text \<open>The certificates for the IPv6 address.\<close>

lemma toy_host6_names: "altIPs toy_host6 = []" "altDNSNames toy_host6 = [''localhost'', toy_host6]" "unservable toy_host6"
  using unservable_loopback by (auto simp: toy_host6_def unservable_def altIPs_def altDNSNames_def)

definition toy_artifacts6 :: artifacts where
  "toy_artifacts6 = toy_artifacts\<lparr>Cert := Some [5, 0]\<rparr>"

lemma toy_first_Generate6:
  assumes "even (w_rand w)" "w_caKey w = None"
  shows "fst (run_state (SelfSigned_Generate calm_env toy_crypto toy_host6) w) = Inr toy_artifacts6"
proof -
  have "fst (run_state (validCACert calm_env toy_crypto) w) = None"
    "w_rand (snd (run_state (validCACert calm_env toy_crypto) w)) = w_rand w"
    using assms by (simp_all add: validCACert_def time_Now_def ValidCACert_def)
  then obtain w1 where w1: "run_state (validCACert calm_env toy_crypto) w = (None, w1)"
    "w_rand w1 = w_rand w" by (metis prod.collapse)
  have "toy_host6 \<noteq> toy_host" "toy_host6 \<noteq> []" by (simp_all add: toy_host6_def toy_host_def ServiceToCommonName_def)
  with w1 show ?thesis
    using assms(1)
    by (simp add: SelfSigned_Generate_def signingPair_def NewPrivateKey_def NewSignedCert_def toy_host6_names time_Now_def
        calm_clock toy_artifacts_def toy_artifacts6_def Let_def toy_template_def)
qed

end
