(* ===== verification/Fs_Example.thy ===== *)
theory Fs_Example
  imports Fs_Store
begin

text \<open>
  The properties of the directory writer applied to concrete directories: a new one, one that
  holds certificates, and one in which a plain file has taken the place of a link.
\<close>

section \<open>The directories\<close>

definition certs_version :: string where
  "certs_version = ''..1''"

definition certs_files :: "artifacts \<Rightarrow> (string \<times> bytes) list" where
  "certs_files a =
     [(CAKeyName, slice_bytes (CAKey a)), (CACertName, slice_bytes (CACert a)),
      (ServerCertName, slice_bytes (Cert a)), (ServerCertName2, slice_bytes (Cert a)),
      (ServerKeyName, slice_bytes (Key a)), (ServerKeyName2, slice_bytes (Key a))]"

text \<open>What the writer left last year.\<close>

definition certs_filled :: "artifacts \<Rightarrow> fs" where
  "certs_filled a = certs_dir @
     ([''certs'', dataDirName], Link certs_version) # ([''certs'', certs_version], Dir 0x1ED) #
     map (\<lambda>n. ([''certs'', n], Link (dataDirName @ CHR ''/'' # n))) cert_filenames @
     map (\<lambda>(n, d). ([''certs'', certs_version, n], File d 0x1A4)) (certs_files a)"

lemma certs_version_name: "version_name certs_version" "\<not> user_name certs_version" "plain_comp dataDirName"
  "certs_version \<noteq> dataDirName"
  by (simp_all add: version_name_def certs_version_def plain_comp_def dataDirName_def newDataDirName_def user_name_def)

lemma names_differ:
  "certs_version \<notin> set cert_filenames" "dataDirName \<notin> set cert_filenames" "certs_version \<noteq> dataDirName"
  using cert_filenames_user certs_version_name not_user_name by blast+

lemma map_of_links:
  "map_of (map (\<lambda>n. ([b, n], g n)) ns) p =
     (case p of [b', n] \<Rightarrow> if b' = b \<and> n \<in> set ns then Some (g n) else None | _ \<Rightarrow> None)"
  by (induction ns) (auto split: list.split)

lemma map_of_files:
  "map_of (map (\<lambda>(n, d). ([b, v, n], f d)) xs) p =
     (case p of [b', v', n] \<Rightarrow> if b' = b \<and> v' = v then map_option f (map_of xs n) else None | _ \<Rightarrow> None)"
  by (induction xs) (auto split: list.split)

lemma filled_get:
  "fs_get (certs_filled a) p =
     (case p of
        [] \<Rightarrow> Some (Dir 0x1ED)
      | [b] \<Rightarrow> if b = ''certs'' then Some (Dir 0x1ED) else None
      | [b, n] \<Rightarrow>
          if b \<noteq> ''certs'' then None
          else if n = dataDirName then Some (Link certs_version)
          else if n = certs_version then Some (Dir 0x1ED)
          else if n \<in> set cert_filenames then Some (Link (dataDirName @ CHR ''/'' # n))
          else None
      | [b, v, n] \<Rightarrow>
          if b = ''certs'' \<and> v = certs_version then map_option (\<lambda>d. File d 0x1A4) (map_of (certs_files a) n)
          else None
      | _ \<Rightarrow> None)"
  using names_differ
  by (auto simp: certs_filled_def certs_dir_def fs_get_def map_of_links map_of_files map_add_def
      split: list.split option.split)

lemma certs_files_dom: "map_of (certs_files a) n \<noteq> None \<longleftrightarrow> n \<in> set cert_filenames"
  by (auto simp: certs_files_def cert_filenames_def)

lemma filled_tree: "tree (certs_filled a)"
proof -
  have u: "n \<in> set cert_filenames \<Longrightarrow> plain_comp n" for n
    using cert_filenames_user by (simp add: user_name_plain)
  have f: "map_of (certs_files a) n = Some d \<Longrightarrow> plain_comp n" for n d
    using u certs_files_dom [of a n] by simp
  have v: "plain_comp certs_version" using certs_version_name(1) by (simp add: version_name_def)
  have c: "plain_comp ''certs''" by (simp add: plain_comp_def)
  show ?thesis
    unfolding tree_def is_dir_def
  proof (intro allI impI, goal_cases)
    case (1 p n)
    then show ?case
      using u f v c certs_version_name(3,4)
      by (auto simp: filled_get Cons_eq_append_conv split: list.splits if_splits)
  qed
qed

lemma managed_filled: "managed [''certs''] (Some certs_version) (certs_filled a)"
proof -
  have u: "n \<in> set cert_filenames \<Longrightarrow> user_name n" for n by (rule cert_filenames_user)
  show ?thesis
    unfolding managed_def
    using filled_tree certs_version_name(1,2) u certs_files_dom [of a] not_user_name
    by (auto simp: is_dir_def is_link_def filled_get certs_version_def dataDirName_def split: list.splits)
qed

lemma toy_timestamp: "timestamp toy_date = ''..2024_01_02_03_04_05.''"
  by (simp add: timestamp_def toy_date_def pad_def itoa.simps digit_char_def) code_simp

lemma filled_clear: "clear_way calm_env [''certs''] (Some certs_version) (certs_filled a)"
proof -
  have "\<not> prefix ''..2024'' dataDirName" "\<not> prefix ''..2024'' certs_version" "n \<in> set cert_filenames \<Longrightarrow> \<not> prefix ''..2024'' n" for n
    using cert_filenames_user [of n] prefix_order.trans [of "''..''" "''..2024''" n]
    by (auto simp: dataDirName_def certs_version_def user_name_def Cons_prefix_Cons)
  moreover have "prefix ''..2024'' (timestamp (env_now calm_env i) @ s)" for i s
    using toy_timestamp by (simp add: calm_clock Cons_prefix_Cons)
  ultimately have "timestamp (env_now calm_env i) @ s \<notin> insert dataDirName (insert certs_version (set cert_filenames))" for i s
    by (metis insert_iff)
  then have "fresh_names calm_env [''certs''] (certs_filled a)"
    unfolding fresh_names_def by (auto simp: filled_get)
  moreover have "newDataDirName \<notin> set cert_filenames" using cert_filenames_user not_user_name by blast
  ultimately show ?thesis
    by (auto simp: clear_way_def no_faults_def calm_env_def filled_get is_dir_def newDataDirName_def dataDirName_def
        certs_version_def split: option.splits)
qed

section \<open>Writing\<close>


text \<open>With nothing in the way, what was generated is written.\<close>

lemma toy_doWrite:
  fixes w :: "('a, nat) world"
  assumes m: "managed [''certs''] cur (os_fs (w_os w))" and c: "clear_way calm_env [''certs''] cur (os_fs (w_os w))"
    and g: "fst (run_state (SelfSigned_Generate calm_env toy_crypto h) w) = Inr a"
    and ca: "sound_CA toy_crypto toy_x509 (now_at calm_env w) (w_caKey w) (w_caCert w)"
  shows "fst (run_state (fs_doWrite calm_env sorted_range (self_signed_dir calm_env toy_crypto ''/certs'') h) w) = Inr a"
proof -
  obtain w1 where w1: "run_state (SelfSigned_Generate calm_env toy_crypto h) w = (Inr a, w1)"
    using g by (metis prod.collapse)
  have "hoare (\<lambda>v. v = w) (SelfSigned_Generate calm_env toy_crypto h) (\<lambda>x v. drift w v)"
    by (rule hoare_post [OF Generate_ok [OF toy_lawful calm_clock(2) ca]]) simp
  from hoareD [OF this refl w1] have t: "os_fs (w_os w1) = os_fs (w_os w)" by (simp add: drift_def)
  have "fsh (\<lambda>_. True) (\<lambda>t. t = os_fs (w_os w)) (WriteCertsToDir calm_env sorted_range ''/certs'' a)
      (\<lambda>r t. certs_outcome calm_env [''certs''] cur (os_fs (w_os w)) a (r = Inr ()) t \<and>
        (clear_way calm_env [''certs''] cur (os_fs (w_os w)) \<longrightarrow> r = Inr ()))"
    by (rule fsh_WriteCertsToDir [OF calm_dir cert_readlink(1) m]) simp_all
  from fshD [OF this t _ prod.collapse [symmetric]] c
  have "fst (run_state (WriteCertsToDir calm_env sorted_range ''/certs'' a) (w_os w1)) = Inr ()" by simp
  then obtain s where "run_state (WriteCertsToDir calm_env sorted_range ''/certs'' a) (w_os w1) = (Inr (), s)"
    by (metis prod.collapse)
  then show ?thesis
    by (simp add: fs_doWrite_def SelfSignedCertGenerator_def w1)
qed

section \<open>EnsureCert\<close>

abbreviation toy_dir_EnsureCert ::
  "string \<Rightarrow> (unit, nat) world \<Rightarrow> (bool \<times> (cert_error + artifacts)) \<times> (unit, nat) world" where
  "toy_dir_EnsureCert h w \<equiv> run_state (fs_EnsureCert calm_env toy_crypto sorted_range
     (self_signed_dir calm_env toy_crypto ''/certs'') h) w"

lemma toy_empty_read:
  "fst (run_state (fs_read calm_env (self_signed_dir calm_env toy_crypto ''/certs'')) (toy_world () r)) =
     Inl (NotFoundError (FromOs ENOENT))"
proof -
  have "fst (run_state (read_certs calm_env ''/certs'') (in_state certs_dir)) = Inl (NotFoundError (FromOs ENOENT))"
    by code_simp
  then show ?thesis by (simp add: fs_read_def toy_world_def split_beta)
qed

text \<open>In a new directory the certificates are made and written.\<close>

lemma toy_dir_first: "fst (toy_dir_EnsureCert toy_host (toy_world () 0)) = (True, Inr toy_artifacts)"
proof -
  let ?f = "self_signed_dir calm_env toy_crypto ''/certs'' :: (unit, nat) fsCertWriter"
  let ?w = "toy_world () 0"
  obtain w1 where read: "run_state (fs_read calm_env ?f) ?w = (Inl (NotFoundError (FromOs ENOENT)), w1)"
    using toy_empty_read by (metis prod.collapse)
  have w1: "os_fs (w_os w1) = certs_dir" "w_rand w1 = 0" "w_caKey w1 = None" "w_caCert w1 = None"
  proof -
    have "hoare (\<lambda>w. w = ?w) (fs_read calm_env ?f) (\<lambda>r w. \<exists>s. w = ?w\<lparr>w_os := s\<rparr> \<and> later ?w w \<and> os_fs s = certs_dir)"
      unfolding fs_read_def fsCertWriter.simps
      by (rule hoare_post [OF hoare_fsh [OF fsh_read_certs advances_read_certs]]) (auto simp: toy_world_def in_state_def)
    from hoareD [OF this refl read]
    show "os_fs (w_os w1) = certs_dir" "w_rand w1 = 0" "w_caKey w1 = None" "w_caCert w1 = None"
      by (auto simp: toy_world_def)
  qed
  have "fst (run_state (fs_doWrite calm_env sorted_range ?f toy_host) w1) = Inr toy_artifacts"
    by (rule toy_doWrite [where cur = None])
      (use w1 managed_fresh(1) calm_clear toy_first_Generate [of w1] in \<open>simp_all add: sound_CA_def\<close>)
  then obtain w2 where wr: "run_state (fs_doWrite calm_env sorted_range ?f toy_host) w1 = (Inr toy_artifacts, w2)"
    by (metis prod.collapse)
  have "run_state (createIfNotExists (fsReadWriter calm_env sorted_range ?f toy_host)) ?w = ((True, Inr toy_artifacts), w2)"
    by (simp add: createIfNotExists_def fsReadWriter_def fs_write_def read wr isNotFound_def)
  moreover have "fst (run_state (validCert calm_env toy_crypto (Some toy_artifacts) toy_host) w)" for w :: "(unit, nat) world"
    using hoareD [OF validCert_at [where E = calm_env] refl prod.collapse [symmetric], of w toy_crypto toy_artifacts toy_host]
      toy_valid by (simp add: calm_clock)
  ultimately show ?thesis
    by (simp add: fs_EnsureCert_def handleCommon_def toy_names split: prod.split) (metis fst_conv)
qed

theorem fs_EnsureCert_provides_witness:
  "\<exists>w. toy_dir_EnsureCert toy_host (toy_world () 0) = ((True, Inr toy_artifacts), w) \<and>
     (\<exists>a'. fs_certs calm_env ''/certs'' (os_fs (w_os w)) = Some a' \<and> same_certs toy_artifacts a') \<and>
     (\<exists>i. valid_at toy_crypto toy_artifacts toy_host (env_now calm_env i))"
proof -
  obtain w where w: "toy_dir_EnsureCert toy_host (toy_world () 0) = ((True, Inr toy_artifacts), w)"
    using toy_dir_first by (metis prod.collapse)
  from fs_EnsureCert_provides [OF toy_fs_inv toy_names(3) w] w show ?thesis
    by (auto simp: calm_clock)
qed

text \<open>In a directory that holds certificates for an IPv6 address they are replaced.\<close>

definition toy_world6 :: "(unit, nat) world" where
  "toy_world6 = toy_world () 0\<lparr>w_os := in_state (certs_filled toy_artifacts6)\<rparr>"

lemma toy_world6_simps:
  "os_fs (w_os toy_world6) = certs_filled toy_artifacts6" "w_rand toy_world6 = 0"
  "w_caKey toy_world6 = None" "w_caCert toy_world6 = None"
  by (simp_all add: toy_world6_def toy_world_def in_state_def)

lemma toy_fs_inv6: "fs_inv calm_env toy_crypto toy_x509 sorted_range ''/certs'' [''certs''] toy_world6"
  using managed_filled [of toy_artifacts6]
  by (auto simp: fs_inv_def calm_clock toy_lawful calm_dir cert_readlink toy_world6_simps)

lemma toy_fs_certs6: "fs_certs calm_env ''/certs'' (certs_filled toy_artifacts6) = Some toy_artifacts6"
proof -
  have "fst (run_state (read_certs calm_env ''/certs'') (in_state (certs_filled toy_artifacts6))) = Inr toy_artifacts6"
    by code_simp
  then obtain s where "run_state (read_certs calm_env ''/certs'') (in_state (certs_filled toy_artifacts6)) = (Inr toy_artifacts6, s)"
    by (metis prod.collapse)
  from fshD [OF fsh_read_certs [of "\<lambda>_. True"] _ _ this, of "certs_filled toy_artifacts6"]
  show ?thesis by (simp add: in_state_def)
qed

lemma toy_invalid6: "\<not> valid_at toy_crypto toy_artifacts6 toy_host6 t"
proof -
  have "host_IP toy_host6 \<noteq> None" "toy_host6 \<noteq> []" using toy_host6_names(3) by (auto simp: unservable_def)
  then have "\<not> hosts toy_x509 c toy_host6" for c by (auto simp: hosts_def lists_IP_def toy_x509_def)
  with \<open>toy_host6 \<noteq> []\<close> show ?thesis by (auto simp: valid_at_def toy_artifacts6_def toy_artifacts_def split: option.splits sum.splits)
qed

lemma toy_dir_again6: "fst (toy_dir_EnsureCert toy_host6 toy_world6) = (True, Inr toy_artifacts6)"
proof -
  let ?f = "self_signed_dir calm_env toy_crypto ''/certs'' :: (unit, nat) fsCertWriter"
  let ?v = "validCert calm_env toy_crypto (Some toy_artifacts6) toy_host6 :: ((unit, nat) world, bool) state"
  have h: "toy_host6 \<noteq> []" using toy_host6_names(3) by (auto simp: unservable_def)
  have nf: "no_faults calm_env" by (simp add: no_faults_def calm_env_def)
  obtain r w1 where read: "run_state (fs_read calm_env ?f) toy_world6 = (r, w1)" by (rule prod.exhaust)
  have "hoare (\<lambda>w. w = toy_world6) (fs_read calm_env ?f) (\<lambda>r w. (\<exists>s. w = toy_world6\<lparr>w_os := s\<rparr> \<and> os_fs s = certs_filled toy_artifacts6) \<and> r = Inr toy_artifacts6)"
    unfolding fs_read_def fsCertWriter.simps
    by (rule hoare_post [OF hoare_fsh [OF fsh_read_certs advances_read_certs]])
      (use toy_fs_certs6 nf in \<open>auto simp: toy_world6_simps\<close>)
  from hoareD [OF this refl read] have r: "r = Inr toy_artifacts6"
    and w1: "os_fs (w_os w1) = certs_filled toy_artifacts6" "w_rand w1 = 0" "w_caKey w1 = None" "w_caCert w1 = None"
    by (auto simp: toy_world6_simps)
  obtain b w2 where v: "run_state ?v w1 = (b, w2)" by (rule prod.exhaust)
  from hoareD [OF validCert_at refl v] have b: "\<not> b" and d: "drift w1 w2" using toy_invalid6 by auto
  have "w_rand w2 = w_rand w1"
    using v by (auto simp: validCert_def time_Now_def Let_def split: if_splits option.splits sum.splits)
  then have w2: "os_fs (w_os w2) = certs_filled toy_artifacts6" "w_rand w2 = 0" "w_caKey w2 = None" "w_caCert w2 = None"
    using d w1 by (simp_all add: drift_def)
  have "fst (run_state (fs_doWrite calm_env sorted_range ?f toy_host6) w2) = Inr toy_artifacts6"
    by (rule toy_doWrite [where cur = "Some certs_version"])
      (use w2 managed_filled filled_clear toy_first_Generate6 [of w2] in \<open>simp_all add: sound_CA_def\<close>)
  then obtain w3 where "run_state (fs_doWrite calm_env sorted_range ?f toy_host6) w2 = (Inr toy_artifacts6, w3)"
    by (metis prod.collapse)
  then show ?thesis
    using read r v b h
    by (simp add: fs_EnsureCert_def handleCommon_def createIfNotExists_def fsReadWriter_def fs_overwrite_def)
qed

theorem fs_EnsureCert_IPv6_never_settles_witness:
  "\<exists>w. toy_dir_EnsureCert toy_host6 toy_world6 = ((True, Inr toy_artifacts6), w) \<and>
     (\<forall>a t. fs_certs calm_env ''/certs'' (os_fs (w_os w)) = Some a \<longrightarrow> \<not> valid_at toy_crypto a toy_host6 t)"
proof -
  obtain w where w: "toy_dir_EnsureCert toy_host6 toy_world6 = ((True, Inr toy_artifacts6), w)"
    using toy_dir_again6 by (metis prod.collapse)
  from fs_EnsureCert_IPv6_never_settles [OF toy_fs_inv6 toy_host6_names(3) _ w] w toy_fs_certs6 toy_invalid6
  show ?thesis by (simp add: toy_world6_simps)
qed

section \<open>A plain file in the place of a link\<close>

text \<open>
  \<^verbatim>\<open>prepareToWrite\<close> removes a plain file; the atomic writer, which compares the certificates with
  the version directory only, then finds nothing to do: the write reports success, and the file
  is gone.
\<close>

definition certs_lost :: fs where
  "certs_lost = fs_put [''certs'', ServerKeyName] (File [9] 0x1A4) (certs_filled toy_artifacts)"

definition certs_gone :: fs where
  "certs_gone = fs_del [''certs'', ServerKeyName] certs_lost"

lemma lost_prepare:
  "fst (run_state (prepareToWrite calm_env ''/certs'') (in_state certs_lost)) = None"
  "os_fs (snd (run_state (prepareToWrite calm_env ''/certs'') (in_state certs_lost))) = certs_gone"
  by code_simp+

lemma lost_new_writer:
  "fst (run_state (NewAtomicWriter calm_env ''/certs'') \<lparr>os_fs = certs_gone, os_hist = h, os_step = i\<rparr>) = Inr ''/certs''"
  "os_fs (snd (run_state (NewAtomicWriter calm_env ''/certs'') \<lparr>os_fs = certs_gone, os_hist = h, os_step = i\<rparr>)) = certs_gone"
  by code_simp+

lemma lost_write:
  "(case run_state (writeCleanPayload calm_env sorted_range ''/certs'' (certToProjectionMap toy_artifacts))
      \<lparr>os_fs = certs_gone, os_hist = h, os_step = i\<rparr> of (r, s) \<Rightarrow> r = Inr () \<and> os_fs s = certs_gone)"
  by code_simp

theorem WriteCertsToDir_loses_a_file:
  "\<exists>s. run_state (WriteCertsToDir calm_env sorted_range ''/certs'' toy_artifacts) (in_state certs_lost) = (Inr (), s) \<and>
     read_path calm_env certs_lost ''/certs/key.pem'' = Some [9] \<and> node_of calm_env (os_fs s) ''/certs/key.pem'' = None"
proof -
  obtain s1 where s1: "run_state (prepareToWrite calm_env ''/certs'') (in_state certs_lost) = (None, s1)" "os_fs s1 = certs_gone"
    using lost_prepare by (metis prod.collapse)
  have eta: "s = \<lparr>os_fs = certs_gone, os_hist = os_hist s, os_step = os_step s\<rparr>" if "os_fs s = certs_gone" for s
    using that by simp
  obtain s2 where s2: "run_state (NewAtomicWriter calm_env ''/certs'') s1 = (Inr ''/certs'', s2)" "os_fs s2 = certs_gone"
    using lost_new_writer eta [OF s1(2)] by (metis prod.collapse)
  obtain r s3 where s3: "run_state (writeCleanPayload calm_env sorted_range ''/certs'' (certToProjectionMap toy_artifacts)) s2 =
      (r, s3)" by (rule prod.exhaust)
  have r: "r = Inr () \<and> os_fs s3 = certs_gone"
    using lost_write [of "os_hist s2" "os_step s2"] unfolding eta [OF s2(2), symmetric] s3 by simp
  have "read_path calm_env certs_lost ''/certs/key.pem'' = Some [9]" "node_of calm_env certs_gone ''/certs/key.pem'' = None"
    by code_simp+
  with s1 s2 s3 r show ?thesis
    by (simp add: WriteCertsToDir_def Write_def certs_payload_valid [OF sorted_range_ok] os_result_def)
qed

end
