(* ===== verification/Readlink_Faults.thy ===== *)
theory Readlink_Faults
  imports Fs_Example
begin

text \<open>
  What the writers do when a link cannot be read, by running them: \<^verbatim>\<open>createUserVisibleFiles\<close> of
  \<^verbatim>\<open>atomic_writer.go\<close> and \<^verbatim>\<open>prepareToWrite\<close> of \<^verbatim>\<open>fs.go\<close> take every error of \<^verbatim>\<open>os.Readlink\<close> other
  than a missing name for an answer.  This is why the properties of the writers ask for
  \<open>readlink_works\<close>.
\<close>

section \<open>A link that cannot be read\<close>

text \<open>
  Without failures, and with an I/O error for every attempt to read a link but the first, which
  is the one to read the data link; no other call fails.  The clock stands at Go's zero time.
\<close>

definition zero_env :: os_env where
  "zero_env = calm_env\<lparr>env_now := (\<lambda>_. \<lparr>year = 1, month = 1, day = 1, hour = 0, minute = 0, second = 0\<rparr>)\<rparr>"

definition eio_env :: os_env where
  "eio_env = zero_env\<lparr>env_fault := (\<lambda>i k. if k = SYS_readlink \<and> 0 < i then Some EIO else None)\<rparr>"

definition one_file :: payload where
  "one_file = fmap_of_list [(''key.pem'', \<lparr>Data = [3], Mode = 0x180\<rparr>)]"

definition two_files :: payload where
  "two_files = fmap_of_list [(''ca.pem'', \<lparr>Data = [5], Mode = 0x180\<rparr>), (''key.pem'', \<lparr>Data = [4], Mode = 0x180\<rparr>)]"

text \<open>The directory after a write of the one file without failures.\<close>

definition one_dir :: fs where
  "one_dir = os_fs (snd (run_state (Write zero_env sorted_range ''/certs'' one_file) (in_state certs_dir)))"

lemma file_keys: "fset (fmdom one_file) = {''key.pem''}" "fset (fmdom two_files) = {''ca.pem'', ''key.pem''}"
  by (simp_all add: one_file_def two_files_def fmap_of_list.rep_eq fmdom.rep_eq)

lemma file_keys_visible: "visible_keys one_file" "visible_keys two_files"
proof -
  have "user_comps (path_comps ''key.pem'')" "user_comps (path_comps ''ca.pem'')" by code_simp+
  then show "visible_keys one_file" "visible_keys two_files"
    unfolding visible_keys_iff using file_keys by auto
qed

lemma one_dir_managed: "\<exists>cur. managed [''certs''] cur one_dir"
proof -
  have call: "write_call zero_env sorted_range ''/certs'' [''certs''] None one_file (in_state certs_dir)"
    using file_keys_visible sorted_range_ok certs_path managed_fresh(1)
    by (simp add: write_call_def in_state_def zero_env_def calm_env_def)
  have rl: "readlink_works zero_env" by (simp add: readlink_works_def zero_env_def calm_env_def)
  have "validatePath ''key.pem'' = None" by code_simp
  then obtain cp where cp: "validatePayload sorted_range one_file = Inr cp"
    using validatePayload_valid [OF _ sorted_range_ok, of one_file] file_keys by auto
  show ?thesis
    using Write_outcome(2) [where g = False, OF call rl _ prod.collapse [symmetric] cp]
    by (auto simp: one_dir_def write_outcome_def phaseA_def phaseB_def)
qed

lemma two_files_written:
  "(case run_state (Write eio_env sorted_range ''/certs'' two_files) (in_state one_dir) of (r, s) \<Rightarrow>
     r = Inr () \<and>
     read_path eio_env (os_fs s) ''/certs/key.pem'' = Some [4] \<and> read_path eio_env (os_fs s) ''/certs/ca.pem'' = None) \<and>
   read_path eio_env one_dir ''/certs/key.pem'' = Some [3]"
  by code_simp

text \<open>
  C36: A failure to read a link is lost.  On a directory that an earlier write left with
  \<^verbatim>\<open>key.pem\<close> in it, a write of a new \<^verbatim>\<open>key.pem\<close> and of a further file \<^verbatim>\<open>ca.pem\<close>, during which every
  attempt to read the links of the two files meets an I/O error, reports success, and leaves a
  reader with the new \<^verbatim>\<open>key.pem\<close> and no \<^verbatim>\<open>ca.pem\<close>: neither the old files nor the payload.
\<close>

theorem Write_swallows_readlink_errors:
  "\<exists>cur s'. write_call eio_env sorted_range ''/certs'' [''certs''] cur two_files (in_state one_dir) \<and>
     env_fault eio_env = (\<lambda>i k. if k = SYS_readlink \<and> 0 < i then Some EIO else None) \<and>
     run_state (Write eio_env sorted_range ''/certs'' two_files) (in_state one_dir) = (Inr (), s') \<and>
     read_path eio_env one_dir ''/certs/key.pem'' = Some [3] \<and>
     read_path eio_env (os_fs s') ''/certs/key.pem'' = Some [4] \<and>
     fmlookup two_files ''ca.pem'' = Some \<lparr>Data = [5], Mode = 0x180\<rparr> \<and>
     read_path eio_env (os_fs s') ''/certs/ca.pem'' = None"
proof -
  obtain cur where "managed [''certs''] cur one_dir" using one_dir_managed by blast
  then have "write_call eio_env sorted_range ''/certs'' [''certs''] cur two_files (in_state one_dir)"
    using file_keys_visible sorted_range_ok certs_path
    by (simp add: write_call_def in_state_def eio_env_def zero_env_def calm_env_def)
  moreover have "fmlookup two_files ''ca.pem'' = Some \<lparr>Data = [5], Mode = 0x180\<rparr>"
    by (simp add: two_files_def fmlookup_of_list)
  ultimately show ?thesis using two_files_written by (auto simp: eio_env_def split: prod.splits)
qed

section \<open>Preparing a directory\<close>

text \<open>
  \<^verbatim>\<open>prepareToWrite\<close> takes a link that cannot be read for a plain file, and removes it: before
  anything is written, the certificates that an earlier write left are gone, and no error is
  reported.
\<close>

lemma prepareToWrite_removes_links:
  "(case run_state (prepareToWrite eio_env ''/certs'') (in_state (certs_filled toy_artifacts)) of (r, s) \<Rightarrow>
     r = None \<and> list_all (\<lambda>n. node_of eio_env (os_fs s) (path_Join [''/certs'', n]) = None) cert_filenames)"
  by code_simp

end
