(* ===== verification/Webhook_Controller.thy ===== *)
theory Webhook_Controller
  imports Fs_Writer Secret_Writer Webhook_Config
begin

text \<open>
  The controller that keeps the webhook's certificates and configurations in line
  (\<^verbatim>\<open>webhook/util/controller/webhook_controller.go\<close>), and the start of the webhook
  (\<^verbatim>\<open>webhook/webhook.go\<close>).  The work queue is a library's: its calls are a parameter, and
  \<open>lawful_queue\<close> states what it documents.
\<close>

section \<open>What the controller is made of\<close>

text \<open>
  \<^verbatim>\<open>workqueue.RateLimitingInterface\<close>.  \<^verbatim>\<open>Get\<close> waits: \<open>None\<close> while there is nothing to hand out,
  otherwise the key and whether the queue was shut down.  \<open>q_Elapse\<close> is no call of the program: it is
  what the queue's own goroutine does as time passes, when keys that were added with a delay
  become ready.
\<close>

record 'q workqueue =
  q_Add :: "string \<Rightarrow> ('q, unit) state"
  q_Get :: "('q, (string \<times> bool) option) state"
  q_Done :: "string \<Rightarrow> ('q, unit) state"
  q_Forget :: "string \<Rightarrow> ('q, unit) state"
  q_AddRateLimited :: "string \<Rightarrow> ('q, unit) state"
  q_ShutDown :: "('q, unit) state"
  q_Elapse :: "('q, unit) state"

text \<open>Everything that is fixed while the controller runs.\<close>

record ('a, 'r, 'k, 'p, 'c, 'm, 'v, 'q) setting =
  cs_os :: os_env
  cs_crypto :: "('k, 'p, 'c, 'r) crypto"
  cs_range :: range_order
  cs_getenv :: getenv
  cs_Jm :: "'m json"
  cs_Jv :: "'v json"
  cs_secrets :: "'a secret_client"
  cs_configs :: "('a, 'm, 'v) config_client"
  cs_queue :: "'q workqueue"

text \<open>
  The state: the world, the queue, and the two package variables \<^verbatim>\<open>uninit\<close> (has the channel been
  closed?) and \<^verbatim>\<open>onceInit\<close> (has it run?).
\<close>

record ('a, 'r, 'q) controller =
  c_world :: "('a, 'r) world"
  c_queue :: 'q
  c_uninit_closed :: bool
  c_onceInit :: bool

text \<open>\<^verbatim>\<open>New\<close>: a new queue \<open>q\<close>; the informers and their handlers are below.\<close>

definition New :: "'q \<Rightarrow> ('a, 'r) world \<Rightarrow> ('a, 'r, 'q) controller" where
  "New q w = \<lparr>c_world = w, c_queue = q, c_uninit_closed = False, c_onceInit = False\<rparr>"

definition on_world :: "(('a, 'r) world, 'x) state \<Rightarrow> (('a, 'r, 'q) controller, 'x) state" where
  "on_world m = State (\<lambda>s. let (x, w) = run_state m (c_world s) in (x, s\<lparr>c_world := w\<rparr>))"

definition on_queue :: "('q, 'x) state \<Rightarrow> (('a, 'r, 'q) controller, 'x) state" where
  "on_queue m = State (\<lambda>s. let (x, q) = run_state m (c_queue s) in (x, s\<lparr>c_queue := q\<rparr>))"

lemma run_lifted [simp]:
  "run_state (on_world f) s = (let (x, w) = run_state f (c_world s) in (x, s\<lparr>c_world := w\<rparr>))"
  "run_state (on_queue g) s = (let (x, q) = run_state g (c_queue s) in (x, s\<lparr>c_queue := q\<rparr>))"
  by (simp_all add: on_world_def on_queue_def)

section \<open>Inited\<close>

text \<open>Closing a closed channel panics; \<^verbatim>\<open>sync.Once\<close> runs its function once.\<close>

definition close_uninit :: "(('a, 'r, 'q) controller, go_panic option) state" where
  "close_uninit = State (\<lambda>s. if c_uninit_closed s then (Some CloseOfClosedChannel, s)
     else (None, s\<lparr>c_uninit_closed := True\<rparr>))"

definition onceInit_Do ::
  "(('a, 'r, 'q) controller, go_panic option) state \<Rightarrow> (('a, 'r, 'q) controller, go_panic option) state" where
  "onceInit_Do f = do {
     s \<leftarrow> State_Monad.get;
     if c_onceInit s then State_Monad.return None
     else do {
       _ \<leftarrow> State_Monad.set (s\<lparr>c_onceInit := True\<rparr>);
       f
     }
   }"

text \<open>A receive from the channel returns once it is closed.\<close>

definition Inited :: "('a, 'r, 'q) controller \<Rightarrow> bool" where
  "Inited s = c_uninit_closed s"

section \<open>Events\<close>

datatype ('m, 'v) event =
  SecretAdded secret
| SecretUpdated secret secret
| MutatingAdded "'m webhookConfiguration"
| MutatingUpdated "'m webhookConfiguration" "'m webhookConfiguration"
| ValidatingAdded "'v webhookConfiguration"
| ValidatingUpdated "'v webhookConfiguration" "'v webhookConfiguration"

text \<open>The six handlers that \<^verbatim>\<open>New\<close> registers.\<close>

definition handle ::
  "('a, 'r, 'k, 'p, 'c, 'm, 'v, 'q) setting \<Rightarrow> ('m, 'v) event \<Rightarrow> (('a, 'r, 'q) controller, unit) state" where
  "handle S ev =
     (let Add = on_queue (q_Add (cs_queue S) []) in
      case ev of
        SecretAdded secret \<Rightarrow>
          if meta_Name (sec_meta secret) = GetSecretName (cs_getenv S) then Add else State_Monad.return ()
      | SecretUpdated old secret \<Rightarrow>
          if meta_Name (sec_meta secret) = GetSecretName (cs_getenv S) then Add else State_Monad.return ()
      | MutatingAdded conf \<Rightarrow>
          if meta_Name (wc_meta conf) = mutatingWebhookConfigurationName then Add else State_Monad.return ()
      | MutatingUpdated old conf \<Rightarrow>
          if meta_Name (wc_meta conf) = mutatingWebhookConfigurationName then Add else State_Monad.return ()
      | ValidatingAdded conf \<Rightarrow>
          if meta_Name (wc_meta conf) = validatingWebhookConfigurationName then Add else State_Monad.return ()
      | ValidatingUpdated old conf \<Rightarrow>
          if meta_Name (wc_meta conf) = validatingWebhookConfigurationName then Add else State_Monad.return ())"

section \<open>sync\<close>

datatype sync_error =
  CreateWriterFailed string
| EnsureCertsFailed cert_error
| WriteToDirFailed cause
| EnsureConfigurationFailed error

text \<open>\<^verbatim>\<open>writer.CertWriter\<close>: its one method.\<close>

record 's certWriter =
  EnsureCert :: "string \<Rightarrow> ('s, bool \<times> (cert_error + artifacts)) state"

text \<open>The DNS name, and the writer that goes with it.\<close>

definition chooseCertWriter ::
  "('a, 'r, 'k, 'p, 'c, 'm, 'v, 'q) setting \<Rightarrow>
   (('a, 'r) world, string \<times> (string + ('a, 'r) world certWriter)) state" where
  "chooseCertWriter S =
     (let E = cs_os S; C = cs_crypto S; env = cs_getenv S; dnsName = GetHost env
      in if length dnsName > 0 then do {
           r \<leftarrow> NewFSCertWriter E C \<lparr>fo_CertGenerator = None, fo_Path = GetCertDir env\<rparr>;
           State_Monad.return (dnsName,
             case r of Inl err \<Rightarrow> Inl err | Inr f \<Rightarrow> Inr \<lparr>EnsureCert = fs_EnsureCert E C (cs_range S) f\<rparr>)
         }
         else do {
           let dnsName = ServiceToCommonName (GetNamespace env) (GetServiceName env);
           r \<leftarrow> NewSecretCertWriter E C
             \<lparr>sw_Client = Some (cs_secrets S), sw_CertGenerator = None,
              sw_Secret = Some (NamespacedName (GetNamespace env) (GetSecretName env))\<rparr>;
           State_Monad.return (dnsName,
             case r of Inl err \<Rightarrow> Inl err | Inr s \<Rightarrow> Inr \<lparr>EnsureCert = secret_EnsureCert E C s\<rparr>)
         })"

text \<open>Lines 198 to 228: everything up to \<^verbatim>\<open>onceInit.Do\<close>.\<close>

definition syncCerts ::
  "('a, 'r, 'k, 'p, 'c, 'm, 'v, 'q) setting \<Rightarrow> (('a, 'r) world, crash + sync_error option) state" where
  "syncCerts S = do {
     (dnsName, certWriter) \<leftarrow> chooseCertWriter S;
     case certWriter of
       Inl err \<Rightarrow> State_Monad.return (Inr (Some (CreateWriterFailed err)))
     | Inr certWriter \<Rightarrow> do {
         (_, certs) \<leftarrow> EnsureCert certWriter dnsName;
         case certs of
           Inl err \<Rightarrow> State_Monad.return (Inr (Some (EnsureCertsFailed err)))
         | Inr certs \<Rightarrow> do {
             r \<leftarrow> on_os (WriteCertsToDir (cs_os S) (cs_range S) (GetCertDir (cs_getenv S)) certs);
             case r of
               Inl err \<Rightarrow> State_Monad.return (Inr (Some (WriteToDirFailed err)))
             | Inr _ \<Rightarrow> do {
                 r \<leftarrow> on_api (Ensure (cs_getenv S) (cs_Jm S) (cs_Jv S) (cs_configs S) (CACert certs));
                 State_Monad.return
                   (case r of
                      Inl crash \<Rightarrow> Inl crash
                    | Inr (Some err) \<Rightarrow> Inr (Some (EnsureConfigurationFailed err))
                    | Inr None \<Rightarrow> Inr None)
               }
           }
       }
   }"

definition sync ::
  "('a, 'r, 'k, 'p, 'c, 'm, 'v, 'q) setting \<Rightarrow>
   (('a, 'r, 'q) controller, crash + sync_error option) state" where
  "sync S = do {
     r \<leftarrow> on_world (syncCerts S);
     if r = Inr None then do {
       p \<leftarrow> onceInit_Do close_uninit;
       State_Monad.return (case p of Some p \<Rightarrow> Inl (Panic p) | None \<Rightarrow> Inr None)
     }
     else State_Monad.return r
   }"

section \<open>processNextWorkItem\<close>

text \<open>
  From the key on: a panic still runs the deferred \<^verbatim>\<open>Done\<close>, the end of the process does not.
\<close>

definition processItem ::
  "('a, 'r, 'k, 'p, 'c, 'm, 'v, 'q) setting \<Rightarrow> string \<Rightarrow> (('a, 'r, 'q) controller, crash + bool) state" where
  "processItem S key = do {
     err \<leftarrow> sync S;
     case err of
       Inl Exit \<Rightarrow> State_Monad.return (Inl Exit)
     | Inl (Panic p) \<Rightarrow> do {
         _ \<leftarrow> on_queue (q_Done (cs_queue S) key);
         State_Monad.return (Inl (Panic p))
       }
     | Inr None \<Rightarrow> do {
         _ \<leftarrow> on_queue (q_Forget (cs_queue S) key);
         _ \<leftarrow> on_queue (q_Done (cs_queue S) key);
         State_Monad.return (Inr True)
       }
     | Inr (Some err) \<Rightarrow> do {
         _ \<leftarrow> on_queue (q_AddRateLimited (cs_queue S) key);
         _ \<leftarrow> on_queue (q_Done (cs_queue S) key);
         State_Monad.return (Inr True)
       }
   }"

text \<open>\<open>None\<close>: still waiting in \<^verbatim>\<open>Get\<close>.\<close>

definition processNextWorkItem ::
  "('a, 'r, 'k, 'p, 'c, 'm, 'v, 'q) setting \<Rightarrow> (('a, 'r, 'q) controller, (crash + bool) option) state" where
  "processNextWorkItem S = do {
     g \<leftarrow> on_queue (q_Get (cs_queue S));
     case g of
       None \<Rightarrow> State_Monad.return None
     | Some (key, quit) \<Rightarrow>
         if quit then State_Monad.return (Some (Inr False))
         else do {
           r \<leftarrow> processItem S key;
           State_Monad.return (Some r)
         }
   }"

section \<open>Start, and the interleaving of its goroutines\<close>

text \<open>
  The worker, the informers and the main goroutine run side by side.  A state of the process is
  the controller with the place the worker has reached; \<open>p_owed\<close> and \<open>p_synced\<close> only record
  what has happened: a change was reported or a sync failed and none has started since, and a
  sync has succeeded.
\<close>

datatype phase = Starting | Idle | Syncing string | Stopped | Crashed crash

record ('a, 'r, 'q) process =
  p_ctl :: "('a, 'r, 'q) controller"
  p_phase :: phase
  p_stopped :: bool
  p_owed :: bool
  p_synced :: bool

definition Start :: "('a, 'r, 'q) controller \<Rightarrow> ('a, 'r, 'q) process" where
  "Start s = \<lparr>p_ctl = s, p_phase = Starting, p_stopped = False, p_owed = False, p_synced = False\<rparr>"

text \<open>An event of an object that the handlers watch.\<close>

definition watched :: "('a, 'r, 'k, 'p, 'c, 'm, 'v, 'q) setting \<Rightarrow> ('m, 'v) event \<Rightarrow> bool" where
  "watched S ev =
     (case ev of
        SecretAdded x \<Rightarrow> meta_Name (sec_meta x) = GetSecretName (cs_getenv S)
      | SecretUpdated _ x \<Rightarrow> meta_Name (sec_meta x) = GetSecretName (cs_getenv S)
      | MutatingAdded x \<Rightarrow> meta_Name (wc_meta x) = mutatingWebhookConfigurationName
      | MutatingUpdated _ x \<Rightarrow> meta_Name (wc_meta x) = mutatingWebhookConfigurationName
      | ValidatingAdded x \<Rightarrow> meta_Name (wc_meta x) = validatingWebhookConfigurationName
      | ValidatingUpdated _ x \<Rightarrow> meta_Name (wc_meta x) = validatingWebhookConfigurationName)"

text \<open>The state after an item: the next one, or the end of the process.\<close>

definition afterItem ::
  "('a, 'r, 'q) process \<Rightarrow> crash + bool \<Rightarrow> ('a, 'r, 'q) controller \<Rightarrow> bool \<Rightarrow> ('a, 'r, 'q) process" where
  "afterItem p r s success =
     p\<lparr>p_ctl := s, p_phase := (case r of Inl c \<Rightarrow> Crashed c | Inr _ \<Rightarrow> Idle),
       p_owed := p_owed p \<or> \<not> success, p_synced := p_synced p \<or> success\<rparr>"

inductive start_step ::
  "('a, 'r, 'k, 'p, 'c, 'm, 'v, 'q) setting \<Rightarrow> ('a, 'r, 'q) process \<Rightarrow> ('a, 'r, 'q) process \<Rightarrow> bool"
  for S where
  event: "run_state (handle S ev) (p_ctl p) = ((), s) \<Longrightarrow>
     start_step S p (p\<lparr>p_ctl := s, p_owed := p_owed p \<or> watched S ev\<rparr>)"
| others: "start_step S p (p\<lparr>p_ctl := (p_ctl p)\<lparr>c_world := w\<rparr>\<rparr>)"
| cache_synced: "p_phase p = Starting \<Longrightarrow> start_step S p (p\<lparr>p_phase := Idle\<rparr>)"
| cache_failed: "p_phase p = Starting \<Longrightarrow> p_stopped p \<Longrightarrow> start_step S p (p\<lparr>p_phase := Stopped\<rparr>)"
| get: "p_phase p = Idle \<Longrightarrow> run_state (on_queue (q_Get (cs_queue S))) (p_ctl p) = (Some (key, False), s) \<Longrightarrow>
     start_step S p (p\<lparr>p_ctl := s, p_phase := Syncing key, p_owed := False\<rparr>)"
| quit: "p_phase p = Idle \<Longrightarrow> run_state (on_queue (q_Get (cs_queue S))) (p_ctl p) = (Some (key, True), s) \<Longrightarrow>
     start_step S p (p\<lparr>p_ctl := s, p_phase := Stopped\<rparr>)"
| item: "p_phase p = Syncing key \<Longrightarrow> run_state (processItem S key) (p_ctl p) = (r, s) \<Longrightarrow>
     start_step S p (afterItem p r s (fst (run_state (sync S) (p_ctl p)) = Inr None))"
| stop: "run_state (on_queue (q_ShutDown (cs_queue S))) (p_ctl p) = ((), s) \<Longrightarrow>
     start_step S p (p\<lparr>p_ctl := s, p_stopped := True\<rparr>)"
| elapse: "run_state (on_queue (q_Elapse (cs_queue S))) (p_ctl p) = ((), s) \<Longrightarrow> start_step S p (p\<lparr>p_ctl := s\<rparr>)"

section \<open>Initialize\<close>

text \<open>
  The manager's clients are made by libraries: \<open>cli\<close> and \<open>kubeCli\<close> are the errors of making them.
  Then \<^verbatim>\<open>Initialize\<close> waits for the first sync or five seconds; when both have come, either
  branch of the \<^verbatim>\<open>select\<close> may be taken (\<open>pick\<close>).
\<close>

datatype initialize_result = ClientFailed error | Started | TimedOut | Waiting

definition Initialize ::
  "error option \<Rightarrow> error option \<Rightarrow> bool \<Rightarrow> bool \<Rightarrow> ('a, 'r, 'q) controller \<Rightarrow> initialize_result" where
  "Initialize cli kubeCli timer pick s =
     (case cli of
        Some err \<Rightarrow> ClientFailed err
      | None \<Rightarrow>
          (case kubeCli of
             Some err \<Rightarrow> ClientFailed err
           | None \<Rightarrow>
               if Inited s \<and> (\<not> timer \<or> pick) then Started
               else if timer then TimedOut
               else Waiting))"

end
