(* ===== verification/Webhook_Controller_Spec.thy ===== *)
theory Webhook_Controller_Spec
  imports Webhook_Controller Fs_Store
begin

text \<open>
  What the webhook controller promises: a successful sync leaves the certificate directory, the
  secret and the webhook configurations agreeing on one CA; no change that is reported is lost
  between the goroutines; and the channel that \<^verbatim>\<open>Initialize\<close> waits for is closed by the first
  successful sync, and once.
\<close>

section \<open>What the certificate writers leave alone\<close>

text \<open>A property of the files and of the API server.\<close>

abbreviation outside :: "(fs \<Rightarrow> 'a \<Rightarrow> bool) \<Rightarrow> ('a, 'r) world \<Rightarrow> bool" where
  "outside J w \<equiv> J (os_fs (w_os w)) (w_api w)"

named_theorems keep

lemma keep_on_rand [keep]: "keeps (outside J) (on_rand m)"
  by (rule hoare_on_rand) (simp add: hoare_def)

lemma keep_time_Now [keep]: "keeps (outside J) (time_Now E)"
  unfolding time_Now_def by (rule hoare_on_os) (simp add: hoare_def)

lemma keep_on_api: "(\<And>t. keeps (J t) m) \<Longrightarrow> keeps (outside J) (on_api m)"
  by (rule hoare_on_api) (auto simp: hoare_def)

lemma keep_on_os: "(\<And>t t' a. J t a \<Longrightarrow> J t' a) \<Longrightarrow> keeps (outside J) (on_os m)"
  by (rule hoare_on_os) (auto simp: hoare_def)

lemma keep_return [keep]: "keeps I (State_Monad.return x)"
  by (simp add: hoare_def)

lemma keep_bind [keep]: "keeps I m \<Longrightarrow> (\<And>x. keeps I (f x)) \<Longrightarrow> keeps I (State_Monad.bind m f)"
  by (rule hoare_bind)

lemma keep_if [keep]: "keeps I m \<Longrightarrow> keeps I n \<Longrightarrow> keeps I (if b then m else n)"
  by simp

lemma keep_sum [keep]:
  "(\<And>e. keeps I (f e)) \<Longrightarrow> (\<And>y. keeps I (g y)) \<Longrightarrow> keeps I (case x of Inl e \<Rightarrow> f e | Inr y \<Rightarrow> g y)"
  by (cases x) auto

lemma keep_option [keep]:
  "keeps I m \<Longrightarrow> (\<And>y. keeps I (g y)) \<Longrightarrow> keeps I (case x of None \<Rightarrow> m | Some y \<Rightarrow> g y)"
  by (cases x) auto

lemma keep_prod [keep]: "(\<And>y z. keeps I (f y z)) \<Longrightarrow> keeps I (case x of (y, z) \<Rightarrow> f y z)"
  by (cases x) auto

lemma keep_get [keep]: "keeps I State_Monad.get"
  by (simp add: hoare_def State_Monad.get_def)

lemma keep_Generate [keep]: "keeps (outside J) (SelfSigned_Generate E C h)"
  unfolding SelfSigned_Generate_def signingPair_def validCACert_def NewPrivateKey_def NewSignedCert_def Let_def
  by (intro keep)

lemma keep_SetCA [keep]: "keeps (outside J) (SelfSigned_SetCA a b)"
  by (simp add: hoare_def SelfSigned_SetCA_def)

lemma keep_validCert [keep]: "keeps (outside J) (validCert E C certs h)"
  unfolding validCert_def Let_def by (intro keep)

lemma keep_handleCommon:
  assumes "keeps (outside J) (crw_read ch)" "keeps (outside J) (crw_write ch)" "\<And>v. keeps (outside J) (crw_overwrite ch v)"
  shows "keeps (outside J) (handleCommon E C h (Some ch))"
  unfolding handleCommon_def createIfNotExists_def option.case by (intro keep assms)

lemma keep_secret_EnsureCert:
  assumes "\<And>t k. keeps (J t) (Get_Secret c k)" "\<And>t x. keeps (J t) (Create_Secret c x)" "\<And>t x. keeps (J t) (Update_Secret c x)"
  shows "keeps (outside J) (secret_EnsureCert E C (self_signed_secret E C c k) h)"
  unfolding secret_EnsureCert_def
proof (rule keep_handleCommon)
  show "keeps (outside J) (crw_read (secretReadWriter (self_signed_secret E C c k) h))"
    "keeps (outside J) (crw_write (secretReadWriter (self_signed_secret E C c k) h))"
    "keeps (outside J) (crw_overwrite (secretReadWriter (self_signed_secret E C c k) h) v)" for v
    unfolding secretReadWriter_def certReadWriter.simps secret_read_def secret_write_def secret_overwrite_def
      buildSecret_def secretCertWriter.simps SelfSignedCertGenerator_def certGenerator.simps Let_def
    by (intro keep keep_on_api assms)+
qed

lemma keep_fs_EnsureCert:
  assumes "\<And>t t' a. J t a \<Longrightarrow> J t' a"
  shows "keeps (outside J) (fs_EnsureCert E C rng (self_signed_dir E C T) h)"
  unfolding fs_EnsureCert_def
proof (rule keep_handleCommon)
  show "keeps (outside J) (crw_read (fsReadWriter E rng (self_signed_dir E C T) h))"
    "keeps (outside J) (crw_write (fsReadWriter E rng (self_signed_dir E C T) h))"
    "keeps (outside J) (crw_overwrite (fsReadWriter E rng (self_signed_dir E C T) h) v)" for v
    unfolding fsReadWriter_def certReadWriter.simps fs_read_def fs_write_def fs_overwrite_def fs_doWrite_def
      fsCertWriter.simps SelfSignedCertGenerator_def certGenerator.simps
    by (intro keep keep_on_os; fact assms)+
qed

section \<open>What a sync relies on\<close>

text \<open>Secrets and webhook configurations are different objects of the server.\<close>

definition lawful_apart ::
  "'a secret_client \<Rightarrow> ('a \<Rightarrow> namespacedName \<Rightarrow> secret option) \<Rightarrow> ('a, 'm, 'v) config_client \<Rightarrow>
   ('a \<Rightarrow> string \<Rightarrow> 'm webhookConfiguration option) \<Rightarrow> ('a \<Rightarrow> string \<Rightarrow> 'v webhookConfiguration option) \<Rightarrow> bool" where
  "lawful_apart c v k vm vv \<longleftrightarrow>
     (\<forall>x m n. keeps (\<lambda>s. vm s = m \<and> vv s = n) (Get_Secret c x)) \<and>
     (\<forall>x m n. keeps (\<lambda>s. vm s = m \<and> vv s = n) (Create_Secret c x)) \<and>
     (\<forall>x m n. keeps (\<lambda>s. vm s = m \<and> vv s = n) (Update_Secret c x)) \<and>
     (\<forall>x m. keeps (\<lambda>s. v s = m) (Get_Mutating k x)) \<and>
     (\<forall>x m. keeps (\<lambda>s. v s = m) (Get_Validating k x)) \<and>
     (\<forall>x m. keeps (\<lambda>s. v s = m) (Update_Mutating k x)) \<and>
     (\<forall>x m. keeps (\<lambda>s. v s = m) (Update_Validating k x))"

text \<open>The name that is served, and the secret's key.\<close>

definition sync_name :: "getenv \<Rightarrow> string" where
  "sync_name env =
     (if GetHost env = [] then ServiceToCommonName (GetNamespace env) (GetServiceName env) else GetHost env)"

definition sync_key :: "getenv \<Rightarrow> namespacedName" where
  "sync_key env = NamespacedName (GetNamespace env) (GetSecretName env)"

text \<open>The views of the three kinds of objects.\<close>

record ('a, 'm, 'v) views =
  vw_secrets :: "'a \<Rightarrow> namespacedName \<Rightarrow> secret option"
  vw_mutating :: "'a \<Rightarrow> string \<Rightarrow> 'm webhookConfiguration option"
  vw_validating :: "'a \<Rightarrow> string \<Rightarrow> 'v webhookConfiguration option"

text \<open>What the libraries document, for all times, and links that can be read.\<close>

definition lawful_setting ::
  "('a, 'r, 'k, 'p, 'c, 'm, 'v, 'q) setting \<Rightarrow> ('p, 'c) x509_view \<Rightarrow> ('a, 'm, 'v) views \<Rightarrow> fpath \<Rightarrow> bool" where
  "lawful_setting S X V B \<longleftrightarrow>
     clock (cs_os S) \<and> lawful_crypto (cs_crypto S) X \<and>
     dir_env (cs_os S) (cs_range S) (GetCertDir (cs_getenv S)) B \<and> readlink_works (cs_os S) \<and>
     lawful_secrets (cs_secrets S) (vw_secrets V) \<and>
     lawful_apart (cs_secrets S) (vw_secrets V) (cs_configs S) (vw_mutating V) (vw_validating V)"

text \<open>The directory is the atomic writer's, the configurations are readable, and the CA in the secret is sound.\<close>

definition sync_inv ::
  "('a, 'r, 'k, 'p, 'c, 'm, 'v, 'q) setting \<Rightarrow> ('p, 'c) x509_view \<Rightarrow> ('a, 'm, 'v) views \<Rightarrow> fpath \<Rightarrow>
   ('a, 'r) world \<Rightarrow> bool" where
  "sync_inv S X V B w \<longleftrightarrow>
     (\<exists>cur. managed B cur (os_fs (w_os w))) \<and>
     config_inv (cs_Jm S) (cs_Jv S) (cs_configs S) (vw_mutating V) (vw_validating V) (w_api w) \<and>
     (\<forall>a. secret_stored (vw_secrets V) (sync_key (cs_getenv S)) w = Some a \<longrightarrow>
        sound_CA (cs_crypto S) X (now_at (cs_os S) w) (CAKey a) (CACert a))"

lemma config_inv_cong:
  "config_inv Jm Jv c vm vv s \<Longrightarrow> vm s' = vm s \<Longrightarrow> vv s' = vv s \<Longrightarrow> config_inv Jm Jv c vm vv s'"
  by (simp add: config_inv_def)

lemma secret_stored_cong: "v (w_api w') = v (w_api w) \<Longrightarrow> secret_stored v k w' = secret_stored v k w"
  by (simp add: secret_stored_def)

lemma keep_Ensure:
  assumes "lawful_apart c v k vm vv"
  shows "keeps (\<lambda>s. v s = m) (Ensure env Jm Jv k ca)"
proof -
  have "keeps (\<lambda>s. v s = m) (Get_Mutating k x)" "keeps (\<lambda>s. v s = m) (Get_Validating k x)"
    "keeps (\<lambda>s. v s = m) (Update_Mutating k y)" "keeps (\<lambda>s. v s = m) (Update_Validating k z)" for x y z
    using assms by (simp_all add: lawful_apart_def)
  then show ?thesis unfolding Ensure_def by (intro keep)
qed

section \<open>The certificates of a sync\<close>

lemma GetCertDir_nonempty: "GetCertDir env \<noteq> []"
  by (simp add: GetCertDir_def Let_def)

text \<open>The writer that is chosen, with a new generator.\<close>

definition sync_EnsureCert ::
  "('a, 'r, 'k, 'p, 'c, 'm, 'v, 'q) setting \<Rightarrow> (('a, 'r) world, bool \<times> (cert_error + artifacts)) state" where
  "sync_EnsureCert S =
     (let E = cs_os S; C = cs_crypto S; env = cs_getenv S
      in if GetHost env = [] then
           secret_EnsureCert E C (self_signed_secret E C (cs_secrets S) (sync_key env)) (sync_name env)
         else fs_EnsureCert E C (cs_range S) (self_signed_dir E C (GetCertDir env)) (sync_name env))"

lemma chooseCertWriter_run:
  "\<exists>cw. run_state (chooseCertWriter S) w = ((sync_name (cs_getenv S), Inr cw), w\<lparr>w_caKey := None, w_caCert := None\<rparr>) \<and>
     EnsureCert cw (sync_name (cs_getenv S)) = sync_EnsureCert S"
  by (simp add: chooseCertWriter_def Let_def sync_EnsureCert_def NewFSCertWriter_self_signed GetCertDir_nonempty
      NewSecretCertWriter_def secret_setDefaults_def new_SelfSigned_def secret_validate_def sync_name_def sync_key_def)

text \<open>The certificates of a run: made in it, or valid at one of its moments.\<close>

definition served ::
  "('a, 'r, 'k, 'p, 'c, 'm, 'v, 'q) setting \<Rightarrow> ('p, 'c) x509_view \<Rightarrow> ('a, 'r) world \<Rightarrow> ('a, 'r) world \<Rightarrow> artifacts \<Rightarrow> bool" where
  "served S X w0 w a \<longleftrightarrow>
     good_artifacts (cs_crypto S) X (now_at (cs_os S) w0) (now_at (cs_os S) w) (sync_name (cs_getenv S)) a \<or>
     (\<exists>i. os_step (w_os w0) \<le> i \<and> i \<le> os_step (w_os w) \<and>
        valid_at (cs_crypto S) a (sync_name (cs_getenv S)) (env_now (cs_os S) i))"

lemma served_later:
  assumes "served S X w0 w a" "clock (cs_os S)" "later w w'"
  shows "served S X w0 w' a"
  using assms now_later [OF assms(2,3)] order_trans unfolding served_def by (blast intro: good_artifacts_widen)

text \<open>In the secret, when the secret is where they are kept.\<close>

definition kept ::
  "('a, 'r, 'k, 'p, 'c, 'm, 'v, 'q) setting \<Rightarrow> ('a, 'm, 'v) views \<Rightarrow> ('a, 'r) world \<Rightarrow> artifacts \<Rightarrow> bool" where
  "kept S V w a \<longleftrightarrow>
     (GetHost (cs_getenv S) = [] \<longrightarrow>
        (\<exists>a'. secret_stored (vw_secrets V) (sync_key (cs_getenv S)) w = Some a' \<and> same_certs a a'))"

definition same_configs :: "('a, 'm, 'v) views \<Rightarrow> ('a, 'r) world \<Rightarrow> ('a, 'r) world \<Rightarrow> bool" where
  "same_configs V w0 w \<longleftrightarrow>
     vw_mutating V (w_api w) = vw_mutating V (w_api w0) \<and> vw_validating V (w_api w) = vw_validating V (w_api w0)"

lemma sync_EnsureCert_secret:
  assumes L: "lawful_setting S X V B" and inv: "sync_inv S X V B w0" and ca: "w_caKey w0 = None" "w_caCert w0 = None"
    and h: "GetHost (cs_getenv S) = []"
  shows "hoare (\<lambda>w. w = w0) (sync_EnsureCert S)
    (\<lambda>(_, r) w. sync_inv S X V B w \<and> later w0 w \<and> same_configs V w0 w \<and>
      (\<forall>a. r = Inr a \<longrightarrow> served S X w0 w a \<and> kept S V w a))"
proof -
  let ?E = "cs_os S" and ?C = "cs_crypto S" and ?k = "sync_key (cs_getenv S)" and ?h = "sync_name (cs_getenv S)"
  let ?m = "secret_EnsureCert ?E ?C (self_signed_secret ?E ?C (cs_secrets S) ?k) ?h"
  have si: "secret_inv ?E ?C X (cs_secrets S) (vw_secrets V) ?k w0"
    using L inv ca by (simp add: secret_inv_def lawful_setting_def sync_inv_def sound_CA_def)
  note run = secrets.handleCommon_provides [OF si, folded secret_EnsureCert_def, of ?h]
  let ?J = "\<lambda>t s. t = os_fs (w_os w0) \<and> vw_mutating V s = vw_mutating V (w_api w0) \<and>
    vw_validating V s = vw_validating V (w_api w0)"
  have "keeps (outside ?J) ?m"
    by (rule keep_secret_EnsureCert) (use L in \<open>auto simp: lawful_setting_def lawful_apart_def hoare_def\<close>)
  then have "hoare (\<lambda>w. w = w0) ?m (\<lambda>_. outside ?J)" by (rule hoare_pre) simp
  from hoare_conj [OF run this] show ?thesis
    unfolding sync_EnsureCert_def Let_def if_P [OF h]
    by (rule hoare_post)
      (use inv in \<open>auto simp: secrets.provided_def secret_inv_def sync_inv_def same_configs_def served_def kept_def
        intro: config_inv_cong\<close>)
qed

lemma sync_EnsureCert_dir:
  assumes L: "lawful_setting S X V B" and inv: "sync_inv S X V B w0" and ca: "w_caKey w0 = None" "w_caCert w0 = None"
    and h: "GetHost (cs_getenv S) \<noteq> []"
  shows "hoare (\<lambda>w. w = w0) (sync_EnsureCert S)
    (\<lambda>(_, r) w. sync_inv S X V B w \<and> later w0 w \<and> same_configs V w0 w \<and>
      (\<forall>a. r = Inr a \<longrightarrow> served S X w0 w a \<and> kept S V w a))"
proof -
  let ?E = "cs_os S" and ?C = "cs_crypto S" and ?T = "GetCertDir (cs_getenv S)" and ?h = "sync_name (cs_getenv S)"
  let ?m = "fs_EnsureCert ?E ?C (cs_range S) (self_signed_dir ?E ?C ?T) ?h"
  have fi: "fs_inv ?E ?C X (cs_range S) ?T B w0"
    using L inv ca by (simp add: fs_inv_def lawful_setting_def sync_inv_def sound_CA_def)
  note run = dirs.handleCommon_provides [OF fi, folded fs_EnsureCert_def, of ?h]
  have K: "clock ?E" using L by (simp add: lawful_setting_def)
  have "keeps (outside (\<lambda>t s. s = w_api w0)) ?m" by (rule keep_fs_EnsureCert)
  then have "hoare (\<lambda>w. w = w0) ?m (\<lambda>_ w. w_api w = w_api w0)" by (rule hoare_pre) simp
  from hoare_conj [OF run this] show ?thesis
    unfolding sync_EnsureCert_def Let_def if_not_P [OF h]
  proof (rule hoare_post, goal_cases)
    case (1 br w)
    then have w: "fs_inv ?E ?C X (cs_range S) ?T B w" "later w0 w" "w_api w = w_api w0"
      by (auto simp: dirs.provided_def)
    from w(3) have "secret_stored (vw_secrets V) k w = secret_stored (vw_secrets V) k w0" for k
      by (simp add: secret_stored_def)
    with inv w now_later [OF K w(2)] have "sync_inv S X V B w"
      by (auto simp: sync_inv_def fs_inv_def intro: sound_CA_later)
    with 1 w h show ?case by (auto simp: dirs.provided_def same_configs_def served_def kept_def)
  qed
qed

lemma sync_EnsureCert_ok:
  assumes L: "lawful_setting S X V B" and inv: "sync_inv S X V B w0" and ca: "w_caKey w0 = None" "w_caCert w0 = None"
  shows "hoare (\<lambda>w. w = w0) (sync_EnsureCert S)
    (\<lambda>(_, r) w. sync_inv S X V B w \<and> later w0 w \<and> same_configs V w0 w \<and>
      (\<forall>a. r = Inr a \<longrightarrow> served S X w0 w a \<and> kept S V w a))"
  using sync_EnsureCert_secret [OF assms] sync_EnsureCert_dir [OF assms]
  by (cases "GetHost (cs_getenv S) = []") simp_all

section \<open>A sync\<close>

text \<open>The six files of the directory hold the certificates.\<close>

definition installed ::
  "('a, 'r, 'k, 'p, 'c, 'm, 'v, 'q) setting \<Rightarrow> fpath \<Rightarrow> ('a, 'r) world \<Rightarrow> artifacts \<Rightarrow> bool" where
  "installed S B w a \<longleftrightarrow> projected (cs_os S) B (certToProjectionMap a) (os_fs (w_os w))"

text \<open>The configurations, as they were or with the CA of \<open>a\<close>.\<close>

definition published_mutating ::
  "('a, 'r, 'k, 'p, 'c, 'm, 'v, 'q) setting \<Rightarrow> ('a, 'm, 'v) views \<Rightarrow> ('a, 'r) world \<Rightarrow> ('a, 'r) world \<Rightarrow> artifacts \<Rightarrow> bool" where
  "published_mutating S V w0 w a \<longleftrightarrow>
     stored_as (vw_mutating V (w_api w0)) mutating_name (cs_getenv S) (cs_Jm S) (CACert a) (vw_mutating V (w_api w))"

definition published_validating ::
  "('a, 'r, 'k, 'p, 'c, 'm, 'v, 'q) setting \<Rightarrow> ('a, 'm, 'v) views \<Rightarrow> ('a, 'r) world \<Rightarrow> ('a, 'r) world \<Rightarrow> artifacts \<Rightarrow> bool" where
  "published_validating S V w0 w a \<longleftrightarrow>
     stored_as (vw_validating V (w_api w0)) validating_name (cs_getenv S) (cs_Jv S) (CACert a) (vw_validating V (w_api w))"

definition sync_outcome ::
  "('a, 'r, 'k, 'p, 'c, 'm, 'v, 'q) setting \<Rightarrow> ('p, 'c) x509_view \<Rightarrow> ('a, 'm, 'v) views \<Rightarrow> fpath \<Rightarrow>
   ('a, 'r) world \<Rightarrow> bool \<Rightarrow> ('a, 'r) world \<Rightarrow> bool" where
  "sync_outcome S X V B w0 success w \<longleftrightarrow>
     sync_inv S X V B w \<and> later w0 w \<and>
     (if success then
        \<exists>a. served S X w0 w a \<and> kept S V w a \<and> installed S B w a \<and>
          published_mutating S V w0 w a \<and> published_validating S V w0 w a
      else vw_mutating V (w_api w) = vw_mutating V (w_api w0) \<and>
        (vw_validating V (w_api w) = vw_validating V (w_api w0) \<or>
         (\<exists>a. installed S B w a \<and> published_validating S V w0 w a)))"

lemma sync_outcome_unchanged:
  "sync_inv S X V B w \<Longrightarrow> later w0 w \<Longrightarrow> same_configs V w0 w \<Longrightarrow> sync_outcome S X V B w0 False w"
  by (simp add: sync_outcome_def same_configs_def)

lemma sync_inv_os:
  assumes "sync_inv S X V B w" "clock (cs_os S)" "os_step (w_os w) \<le> os_step s" "managed B cur (os_fs s)"
  shows "sync_inv S X V B (w\<lparr>w_os := s\<rparr>)"
proof -
  have "now_at (cs_os S) w \<le> now_at (cs_os S) (w\<lparr>w_os := s\<rparr>)" by (rule now_later) (use assms in simp_all)
  then show ?thesis using assms by (auto simp: sync_inv_def secret_stored_def intro: sound_CA_later)
qed

text \<open>Writing the certificates to the directory.\<close>

lemma sync_write:
  assumes L: "lawful_setting S X V B" and inv: "sync_inv S X V B w0"
  shows "hoare (\<lambda>w. w = w0) (on_os (WriteCertsToDir (cs_os S) (cs_range S) (GetCertDir (cs_getenv S)) a))
    (\<lambda>r w. sync_inv S X V B w \<and> later w0 w \<and> w_api w = w_api w0 \<and> (r = Inr () \<longrightarrow> installed S B w a))"
proof -
  have e: "dir_env (cs_os S) (cs_range S) (GetCertDir (cs_getenv S)) B" "readlink_works (cs_os S)" and K: "clock (cs_os S)"
    using L by (simp_all add: lawful_setting_def)
  obtain cur where m: "managed B cur (os_fs (w_os w0))" using inv by (auto simp: sync_inv_def)
  let ?Q = "\<lambda>r t. certs_outcome (cs_os S) B cur (os_fs (w_os w0)) a (r = Inr ()) t \<and>
    (clear_way (cs_os S) B cur (os_fs (w_os w0)) \<longrightarrow> r = Inr ())"
  have w: "fsh (\<lambda>_. True) (\<lambda>t. t = os_fs (w_os w0)) (WriteCertsToDir (cs_os S) (cs_range S) (GetCertDir (cs_getenv S)) a) ?Q"
    by (rule fsh_WriteCertsToDir [OF e m]) simp_all
  show ?thesis
  proof (rule hoare_post [OF hoare_fsh [OF w advances_WriteCertsToDir]], goal_cases)
    case (1 r w)
    then obtain s where s: "w = w0\<lparr>w_os := s\<rparr>" "later w0 w" "?Q r (os_fs s)" by blast
    have "\<exists>cur'. managed B cur' (os_fs s)" using s(3) by (auto simp: certs_outcome_def phaseA_def phaseB_def)
    with sync_inv_os [OF inv K] s show ?case by (auto simp: installed_def certs_outcome_def)
  qed
qed

text \<open>Publishing the CA.\<close>

lemma sync_publish:
  assumes L: "lawful_setting S X V B" and inv: "sync_inv S X V B w0"
  shows "hoare (\<lambda>w. w = w0) (on_api (Ensure (cs_getenv S) (cs_Jm S) (cs_Jv S) (cs_configs S) (CACert a)))
    (\<lambda>r w. sync_inv S X V B w \<and> w_os w = w_os w0 \<and> vw_secrets V (w_api w) = vw_secrets V (w_api w0) \<and>
      (r = Inr None \<longrightarrow> published_mutating S V w0 w a) \<and>
      (r \<noteq> Inr None \<longrightarrow> vw_mutating V (w_api w) = vw_mutating V (w_api w0)) \<and>
      (vw_validating V (w_api w) = vw_validating V (w_api w0) \<and> r \<noteq> Inr None \<or> published_validating S V w0 w a))"
proof (rule hoare_on_api)
  fix w assume w: "w = w0"
  let ?m = "Ensure (cs_getenv S) (cs_Jm S) (cs_Jv S) (cs_configs S) (CACert a)"
  have ci: "config_inv (cs_Jm S) (cs_Jv S) (cs_configs S) (vw_mutating V) (vw_validating V) (w_api w)"
    using inv w by (simp add: sync_inv_def)
  have keep: "keeps (\<lambda>s. vw_secrets V s = vw_secrets V (w_api w)) ?m"
    by (rule keep_Ensure [of "cs_secrets S" _ _ "vw_mutating V" "vw_validating V"])
      (use L in \<open>simp add: lawful_setting_def\<close>)
  show "hoare (\<lambda>s. s = w_api w) ?m (\<lambda>r s. sync_inv S X V B (w\<lparr>w_api := s\<rparr>) \<and> w_os (w\<lparr>w_api := s\<rparr>) = w_os w0 \<and>
      vw_secrets V (w_api (w\<lparr>w_api := s\<rparr>)) = vw_secrets V (w_api w0) \<and>
      (r = Inr None \<longrightarrow> published_mutating S V w0 (w\<lparr>w_api := s\<rparr>) a) \<and>
      (r \<noteq> Inr None \<longrightarrow> vw_mutating V (w_api (w\<lparr>w_api := s\<rparr>)) = vw_mutating V (w_api w0)) \<and>
      (vw_validating V (w_api (w\<lparr>w_api := s\<rparr>)) = vw_validating V (w_api w0) \<and> r \<noteq> Inr None \<or>
        published_validating S V w0 (w\<lparr>w_api := s\<rparr>) a))"
  proof (rule hoareI)
    fix s r s' assume s: "s = w_api w" and run: "run_state ?m s = (r, s')"
    note out = hoareD [OF Ensure_outcome [OF ci] s run] and sec = hoareD [OF keep _ run]
      and ci' = Ensure_keeps_inv [OF ci run [unfolded s]]
    have "sync_inv S X V B (w\<lparr>w_api := s'\<rparr>)"
      using inv ci' sec s w by (simp add: sync_inv_def secret_stored_def)
    with out sec s w show "sync_inv S X V B (w\<lparr>w_api := s'\<rparr>) \<and> w_os (w\<lparr>w_api := s'\<rparr>) = w_os w0 \<and>
      vw_secrets V (w_api (w\<lparr>w_api := s'\<rparr>)) = vw_secrets V (w_api w0) \<and>
      (r = Inr None \<longrightarrow> published_mutating S V w0 (w\<lparr>w_api := s'\<rparr>) a) \<and>
      (r \<noteq> Inr None \<longrightarrow> vw_mutating V (w_api (w\<lparr>w_api := s'\<rparr>)) = vw_mutating V (w_api w0)) \<and>
      (vw_validating V (w_api (w\<lparr>w_api := s'\<rparr>)) = vw_validating V (w_api w0) \<and> r \<noteq> Inr None \<or>
        published_validating S V w0 (w\<lparr>w_api := s'\<rparr>) a)"
      by (simp add: published_mutating_def published_validating_def)
  qed
qed

lemma syncCerts_outcome:
  assumes L: "lawful_setting S X V B" and inv: "sync_inv S X V B w0"
  shows "hoare (\<lambda>w. w = w0) (syncCerts S) (\<lambda>r w. sync_outcome S X V B w0 (r = Inr None) w)"
proof -
  have K: "clock (cs_os S)" using L by (simp add: lawful_setting_def)
  let ?w = "w0\<lparr>w_caKey := None, w_caCert := None\<rparr>"
  obtain cw where cw: "run_state (chooseCertWriter S) w0 = ((sync_name (cs_getenv S), Inr cw), ?w)"
    "EnsureCert cw (sync_name (cs_getenv S)) = sync_EnsureCert S" using chooseCertWriter_run by blast
  have inv': "sync_inv S X V B ?w" using inv by (simp add: sync_inv_def secret_stored_def)
  have start: "hoare (\<lambda>w. w = w0) (chooseCertWriter S) (\<lambda>r w. r = (sync_name (cs_getenv S), Inr cw) \<and> w = ?w)"
    using cw(1) by (simp add: hoare_def)
  show ?thesis
    unfolding syncCerts_def
  proof (rule hoare_bind_at [OF start], goal_cases)
    case (1 x w)
    then have x: "x = (sync_name (cs_getenv S), Inr cw)" and w: "w = ?w" by auto
    show ?case
      unfolding x w prod.case sum.case cw(2)
    proof (rule hoare_bind_at [OF sync_EnsureCert_ok [OF L inv']], simp, simp, goal_cases)
      case (1 br w1)
      obtain b r where br: "br = (b, r)" by (rule prod.exhaust)
      with 1 have w1: "sync_inv S X V B w1" "later w0 w1" "same_configs V w0 w1"
        and a1: "\<And>a. r = Inr a \<Longrightarrow> served S X w0 w1 a \<and> kept S V w1 a"
        by (auto simp: same_configs_def served_def)
      note fail = sync_outcome_unchanged [OF w1]
      show ?case
        unfolding br prod.case
      proof (rule hoare_sum, goal_cases)
        case (1 err)
        then show ?case using fail by (auto intro!: hoare_return_pre)
      next
        case (2 a)
        then have made: "served S X w0 w1 a" "kept S V w1 a" using a1 by simp_all
        show ?case
        proof (rule hoare_bind_at [OF sync_write [OF L w1(1)]], rule hoare_sum, goal_cases)
          case (1 r w2 err)
          with w1 show ?case
            by (auto intro!: hoare_return_pre sync_outcome_unchanged simp: same_configs_def)
        next
          case (2 r w2 u)
          then have w2: "sync_inv S X V B w2" "later w1 w2" "w_api w2 = w_api w1" "installed S B w2 a" by auto
          show ?case
          proof (rule hoare_bind_at [OF sync_publish [OF L w2(1)]], rule hoare_return_pre, goal_cases)
            case (1 r3 w3 w)
            then have w3: "sync_inv S X V B w3" "w_os w3 = w_os w2" "vw_secrets V (w_api w3) = vw_secrets V (w_api w2)"
              and w: "w = w3" by auto
            have "installed S B w3 a" using w2(4) w3(2) by (simp add: installed_def)
            moreover have "later w0 w3" using w1(2) w2(2) w3(2) by simp
            moreover have "served S X w0 w3 a"
              by (rule served_later [OF _ K, of X w0 w1]) (use made w2 w3 in auto)
            moreover have "kept S V w3 a"
              using made w2(3) w3(3) by (simp add: kept_def secret_stored_def)
            ultimately show ?case
              using 1 w w1(3) w2(3) w3(1)
              by (auto simp: sync_outcome_def same_configs_def published_mutating_def published_validating_def
                  split: sum.splits option.splits if_splits)
          qed
        qed
      qed
    qed
  qed
qed

section \<open>The channel\<close>

text \<open>The channel is closed by the first successful sync, and only then.\<close>

lemma syncCerts_no_close: "fst (run_state (syncCerts S) w) \<noteq> Inl (Panic CloseOfClosedChannel)"
proof -
  have c: "c \<noteq> Panic CloseOfClosedChannel" if "pointing_crash env wh = Some c" for env and wh :: "'x webhook" and c
    using that by (auto simp: pointing_crash_def split: option.splits if_splits)
  have f: "c \<noteq> Panic CloseOfClosedChannel" if "first_crash env whs = Some c" for env and whs :: "'x webhook list" and c
    using that c by (induction whs) (auto split: option.splits)
  have w: "wantedConfigs env Jm Jv ca m v \<noteq> Inl (Panic CloseOfClosedChannel)" for env Jm Jv ca and m :: "'m webhookConfiguration"
    and v :: "'v webhookConfiguration"
    by (auto simp: wantedConfigs_def mutating.loop_eq validating.loop_eq dest: f split: sum.splits option.splits prod.splits)
  have e: "hoare (\<lambda>_. True) (Ensure env Jm Jv c ca) (\<lambda>r _. r \<noteq> Inl (Panic CloseOfClosedChannel))"
    for env Jm Jv ca and c :: "('a, 'm, 'v) config_client"
    unfolding Ensure_def
    by (intro hoare_bind [OF hoare_True] hoare_sum hoare_option hoare_return_pre; (simp split: prod.split)?)
      (auto intro!: hoare_bind [OF hoare_True] hoare_return_pre hoare_option simp: w split: sum.split prod.split)
  have "hoare (\<lambda>_. True) (syncCerts S) (\<lambda>r _. r \<noteq> Inl (Panic CloseOfClosedChannel))"
    unfolding syncCerts_def
  proof (rule hoare_bind [OF hoare_True], goal_cases)
    case (1 x)
    obtain h cw where x: "x = (h, cw)" by (rule prod.exhaust)
    show ?case
      unfolding x prod.case
    proof (rule hoare_sum, simp add: hoare_return_pre, rule hoare_bind [OF hoare_True], goal_cases)
      case (1 w y)
      obtain b r where y: "y = (b, r)" by (rule prod.exhaust)
      show ?case
        unfolding y prod.case
      proof (rule hoare_sum, simp add: hoare_return_pre, rule hoare_bind [OF hoare_True], rule hoare_sum,
          simp add: hoare_return_pre, goal_cases)
        case (1 a r u)
        have "hoare (\<lambda>_. True) (on_api (Ensure (cs_getenv S) (cs_Jm S) (cs_Jv S) (cs_configs S) (CACert a)))
            (\<lambda>r _. r \<noteq> Inl (Panic CloseOfClosedChannel))"
          by (rule hoare_on_api, rule hoare_pre [OF e]) simp
        from this show ?case
          by (rule hoare_bind) (auto intro!: hoare_return_pre split: sum.split option.split)
      qed
    qed
  qed
  then show ?thesis unfolding hoare_def by (metis prod.collapse)
qed

definition once_ok :: "('a, 'r, 'q) controller \<Rightarrow> bool" where
  "once_ok s \<longleftrightarrow> c_onceInit s = c_uninit_closed s"

lemma sync_run:
  assumes "once_ok s" "run_state (sync S) s = (r, s')"
  obtains w where "run_state (syncCerts S) (c_world s) = (r, w)"
    "s' = s\<lparr>c_world := w, c_uninit_closed := c_uninit_closed s \<or> r = Inr None, c_onceInit := c_onceInit s \<or> r = Inr None\<rparr>"
  using assms
  by (auto simp: sync_def onceInit_Do_def close_uninit_def once_ok_def State_Monad.get_def State_Monad.set_def
      split: prod.splits if_splits)

text \<open>C3: A successful sync, as long as links can be read and whatever other calls failed on the way, for a host that generated certificates serve (which an IPv6 address is not): the six files of the certificate directory, the secret when there is one, and the CA bundles of both webhook configurations all belong to one set of certificates, which is valid for the name the webhook is reached by at some moment of the sync (when it takes less than half a year), and the channel that the start waits for is closed.\<close>

theorem sync_correct:
  assumes L: "lawful_setting S X V B" and inv: "sync_inv S X V B (c_world s)" and once: "once_ok s"
    and h: "servable (sync_name (cs_getenv S))"
    and run: "run_state (sync S) s = (Inr None, s')"
    and dur: "now_at (cs_os S) (c_world s') \<le> now_at (cs_os S) (c_world s) + 180 * 86400"
  shows "\<exists>a. (\<forall>n d. fmlookup (certToProjectionMap a) n = Some d \<longrightarrow>
        read_path (cs_os S) (os_fs (w_os (c_world s'))) (path_Join [GetCertDir (cs_getenv S), n]) = Some (Data d)) \<and>
      (GetHost (cs_getenv S) = [] \<longrightarrow> (\<exists>a'. secret_stored (vw_secrets V) (sync_key (cs_getenv S)) (c_world s') = Some a' \<and>
        same_certs a a')) \<and>
      published_mutating S V (c_world s) (c_world s') a \<and> published_validating S V (c_world s) (c_world s') a \<and>
      (\<exists>i. os_step (w_os (c_world s)) \<le> i \<and> i \<le> os_step (w_os (c_world s')) \<and>
        valid_at (cs_crypto S) a (sync_name (cs_getenv S)) (env_now (cs_os S) i)) \<and>
      Inited s'"
proof -
  obtain w where w: "run_state (syncCerts S) (c_world s) = (Inr None, w)" and s': "c_world s' = w" "c_uninit_closed s'"
    by (rule sync_run [OF once run]) auto
  from hoareD [OF syncCerts_outcome [OF L inv] refl w] obtain a where later: "later (c_world s) w"
    and a: "served S X (c_world s) w a" "kept S V w a" "installed S B w a"
    "published_mutating S V (c_world s) w a" "published_validating S V (c_world s) w a"
    by (auto simp: sync_outcome_def)
  have lw: "lawful_crypto (cs_crypto S) X" "clock (cs_os S)" "abs_path (GetCertDir (cs_getenv S)) B"
    using L by (auto simp: lawful_setting_def dir_env_def)
  have "valid_at (cs_crypto S) a (sync_name (cs_getenv S)) (env_now (cs_os S) (os_step (w_os w)))"
    if "good_artifacts (cs_crypto S) X (now_at (cs_os S) (c_world s)) (now_at (cs_os S) w) (sync_name (cs_getenv S)) a"
    by (rule good_artifacts_valid [OF lw(1) that h clockD(2) [OF lw(2)]]) (use dur s' in simp_all)
  with a(1) later have "\<exists>i. os_step (w_os (c_world s)) \<le> i \<and> i \<le> os_step (w_os w) \<and>
      valid_at (cs_crypto S) a (sync_name (cs_getenv S)) (env_now (cs_os S) i)" unfolding served_def by blast
  with a(2-5) s' projected_read [OF lw(3)] show ?thesis
    unfolding kept_def installed_def Inited_def by (intro exI [of _ a]) blast
qed

text \<open>C13: As long as links can be read, and whatever the outcome of a sync, the validating configuration is only ever changed after the certificates of the CA it is given are in the directory, and the mutating configuration only when the sync succeeds; a failed sync never undoes what the next one relies on.\<close>

theorem sync_installs_before_publishing:
  assumes L: "lawful_setting S X V B" and inv: "sync_inv S X V B (c_world s)" and once: "once_ok s"
    and run: "run_state (sync S) s = (r, s')"
  shows "(vw_validating V (w_api (c_world s')) = vw_validating V (w_api (c_world s)) \<or>
      (\<exists>a. published_validating S V (c_world s) (c_world s') a \<and>
        (\<forall>n d. fmlookup (certToProjectionMap a) n = Some d \<longrightarrow>
          read_path (cs_os S) (os_fs (w_os (c_world s'))) (path_Join [GetCertDir (cs_getenv S), n]) = Some (Data d)))) \<and>
    (vw_mutating V (w_api (c_world s')) \<noteq> vw_mutating V (w_api (c_world s)) \<longrightarrow> r = Inr None) \<and>
    sync_inv S X V B (c_world s') \<and> once_ok s'"
proof -
  obtain w where w: "run_state (syncCerts S) (c_world s) = (r, w)" and s': "c_world s' = w" "once_ok s'"
    by (rule sync_run [OF once run]) (use once in \<open>auto simp: once_ok_def\<close>)
  have T: "abs_path (GetCertDir (cs_getenv S)) B" using L by (auto simp: lawful_setting_def dir_env_def)
  from hoareD [OF syncCerts_outcome [OF L inv] refl w] s' projected_read [OF T] show ?thesis
    unfolding sync_outcome_def installed_def by (auto split: if_splits)
qed

end
