(* ===== verification/Webhook_Process.thy ===== *)
theory Webhook_Process
  imports Webhook_Controller_Spec
begin

text \<open>
  The goroutines of the webhook controller side by side: every interleaving of the event
  handlers, the worker, the stop signal, the queue's timer and whoever else changes the cluster.  The invariant
  \<open>start_inv\<close> holds in every state that can be reached.
\<close>

section \<open>The work queue\<close>

text \<open>
  What the work queue documents, over the keys that are due (added, at once or after a delay,
  and not handed out since): an addition makes its key due unless the queue is shut down, a
  \<^verbatim>\<open>Get\<close> hands out a key that was due and drops no other, a queue says that it is shut down
  only when it is, and time makes no key due or undue.
\<close>

definition lawful_queue :: "'q workqueue \<Rightarrow> ('q \<Rightarrow> string set) \<Rightarrow> ('q \<Rightarrow> bool) \<Rightarrow> bool" where
  "lawful_queue Q due shut \<longleftrightarrow>
     (\<forall>k D b. hoare (\<lambda>q. due q = D \<and> shut q = b) (q_Add Q k)
        (\<lambda>_ q. shut q = b \<and> D \<subseteq> due q \<and> due q \<subseteq> insert k D \<and> (b \<or> k \<in> due q))) \<and>
     (\<forall>k D b. hoare (\<lambda>q. due q = D \<and> shut q = b) (q_AddRateLimited Q k)
        (\<lambda>_ q. shut q = b \<and> D \<subseteq> due q \<and> due q \<subseteq> insert k D \<and> (b \<or> k \<in> due q))) \<and>
     (\<forall>D b. hoare (\<lambda>q. due q = D \<and> shut q = b) (q_Get Q)
        (\<lambda>r q. shut q = b \<and> due q \<subseteq> D \<and>
           (case r of
              None \<Rightarrow> due q = D
            | Some (k, quit) \<Rightarrow> if quit then b else k \<in> D \<and> D - {k} \<subseteq> due q))) \<and>
     (\<forall>k D b. hoare (\<lambda>q. due q = D \<and> shut q = b) (q_Done Q k) (\<lambda>_ q. shut q = b \<and> due q = D)) \<and>
     (\<forall>k D b. hoare (\<lambda>q. due q = D \<and> shut q = b) (q_Forget Q k) (\<lambda>_ q. shut q = b \<and> due q = D)) \<and>
     (\<forall>D. hoare (\<lambda>q. due q = D) (q_ShutDown Q) (\<lambda>_ q. shut q \<and> due q \<subseteq> D)) \<and>
     (\<forall>D b. hoare (\<lambda>q. due q = D \<and> shut q = b) (q_Elapse Q) (\<lambda>_ q. shut q = b \<and> due q = D))"

lemma lawful_queueH:
  assumes "lawful_queue Q due shut"
  shows "hoare (\<lambda>q. due q = D \<and> shut q = b) (q_Add Q k)
      (\<lambda>_ q. shut q = b \<and> D \<subseteq> due q \<and> due q \<subseteq> insert k D \<and> (b \<or> k \<in> due q))"
    and "hoare (\<lambda>q. due q = D \<and> shut q = b) (q_AddRateLimited Q k)
      (\<lambda>_ q. shut q = b \<and> D \<subseteq> due q \<and> due q \<subseteq> insert k D \<and> (b \<or> k \<in> due q))"
    and "hoare (\<lambda>q. due q = D \<and> shut q = b) (q_Get Q)
      (\<lambda>r q. shut q = b \<and> due q \<subseteq> D \<and>
         (case r of None \<Rightarrow> due q = D | Some (k, quit) \<Rightarrow> if quit then b else k \<in> D \<and> D - {k} \<subseteq> due q))"
    and "hoare (\<lambda>q. due q = D \<and> shut q = b) (q_Done Q k) (\<lambda>_ q. shut q = b \<and> due q = D)"
    and "hoare (\<lambda>q. due q = D \<and> shut q = b) (q_Forget Q k) (\<lambda>_ q. shut q = b \<and> due q = D)"
    and "hoare (\<lambda>q. due q = D) (q_ShutDown Q) (\<lambda>_ q. shut q \<and> due q \<subseteq> D)"
    and "hoare (\<lambda>q. due q = D \<and> shut q = b) (q_Elapse Q) (\<lambda>_ q. shut q = b \<and> due q = D)"
  using assms unfolding lawful_queue_def by (elim conjE; simp only:)+

lemma lawful_queueD:
  assumes "lawful_queue Q due shut"
  shows "run_state (q_Add Q k) q = (u, q') \<Longrightarrow>
      shut q' = shut q \<and> due q \<subseteq> due q' \<and> due q' \<subseteq> insert k (due q) \<and> (shut q \<or> k \<in> due q')"
    and "run_state (q_AddRateLimited Q k) q = (u, q') \<Longrightarrow>
      shut q' = shut q \<and> due q \<subseteq> due q' \<and> due q' \<subseteq> insert k (due q) \<and> (shut q \<or> k \<in> due q')"
    and "run_state (q_Get Q) q = (r, q') \<Longrightarrow> shut q' = shut q \<and> due q' \<subseteq> due q \<and>
      (case r of None \<Rightarrow> due q' = due q | Some (k, quit) \<Rightarrow> if quit then shut q else k \<in> due q \<and> due q - {k} \<subseteq> due q')"
    and "run_state (q_Done Q k) q = (u, q') \<Longrightarrow> shut q' = shut q \<and> due q' = due q"
    and "run_state (q_Forget Q k) q = (u, q') \<Longrightarrow> shut q' = shut q \<and> due q' = due q"
    and "run_state (q_ShutDown Q) q = (u, q') \<Longrightarrow> shut q' \<and> due q' \<subseteq> due q"
    and "run_state (q_Elapse Q) q = (u, q') \<Longrightarrow> shut q' = shut q \<and> due q' = due q"
  by (fact
      hoareD [OF lawful_queueH(1) [OF assms] conjI [OF refl refl]]
      hoareD [OF lawful_queueH(2) [OF assms] conjI [OF refl refl]]
      hoareD [OF lawful_queueH(3) [OF assms] conjI [OF refl refl]]
      hoareD [OF lawful_queueH(4) [OF assms] conjI [OF refl refl]]
      hoareD [OF lawful_queueH(5) [OF assms] conjI [OF refl refl]]
      hoareD [OF lawful_queueH(6) [OF assms] refl]
      hoareD [OF lawful_queueH(7) [OF assms] conjI [OF refl refl]])+

section \<open>The handlers and the items\<close>

text \<open>A handler adds the one key, exactly for the objects that are watched.\<close>

lemma handle_eq:
  "handle S ev = (if watched S ev then on_queue (q_Add (cs_queue S) []) else State_Monad.return ())"
  by (simp add: handle_def watched_def Let_def split: event.split)

lemma handle_run:
  assumes Q: "lawful_queue (cs_queue S) due shut" and run: "run_state (handle S ev) s = (u, s')"
  obtains q where "s' = s\<lparr>c_queue := q\<rparr>" "shut q = shut (c_queue s)" "due (c_queue s) \<subseteq> due q"
    "due q \<subseteq> insert [] (due (c_queue s))" "watched S ev \<Longrightarrow> shut q \<or> [] \<in> due q"
proof (cases "watched S ev")
  case True
  then obtain q where q: "run_state (q_Add (cs_queue S) []) (c_queue s) = ((), q)" "s' = s\<lparr>c_queue := q\<rparr>"
    using run by (auto simp: handle_eq split: prod.splits)
  with lawful_queueD(1) [OF Q q(1)] show thesis by (intro that [of q]) auto
next
  case False
  then have "s' = s" using run by (simp add: handle_eq)
  then show thesis using False by (intro that [of "c_queue s"]) auto
qed

text \<open>An item: the key is due again unless the sync succeeded.\<close>

lemma processItem_run:
  assumes Q: "lawful_queue (cs_queue S) due shut" and once: "once_ok s"
    and run: "run_state (processItem S key) s = (r, s')"
  obtains r0 where "fst (run_state (sync S) s) = r0" "once_ok s'"
    "c_uninit_closed s' = (c_uninit_closed s \<or> r0 = Inr None)"
    "shut (c_queue s') = shut (c_queue s)" "due (c_queue s) \<subseteq> due (c_queue s')"
    "due (c_queue s') \<subseteq> insert key (due (c_queue s))"
    "\<And>c. r = Inl c \<longleftrightarrow> r0 = Inl c" "\<And>e. r0 = Inr (Some e) \<Longrightarrow> shut (c_queue s') \<or> key \<in> due (c_queue s')"
proof -
  obtain r0 s1 where r0: "run_state (sync S) s = (r0, s1)" by (rule prod.exhaust)
  then have s1: "once_ok s1" "c_queue s1 = c_queue s" "c_uninit_closed s1 = (c_uninit_closed s \<or> r0 = Inr None)"
    by (rule sync_run [OF once]; use once in \<open>simp add: once_ok_def\<close>)+
  consider (exit) "r0 = Inl Exit" | (panic) p where "r0 = Inl (Panic p)" | (ok) "r0 = Inr None" | (err) e where "r0 = Inr (Some e)"
    by (metis crash.exhaust old.sum.exhaust option.exhaust)
  then show thesis
  proof cases
    case exit
    with run r0 have "s' = s1" "r = Inl Exit" by (simp_all add: processItem_def)
    with exit s1 r0 show thesis by (intro that [of r0]) auto
  next
    case panic
    obtain q where q: "run_state (q_Done (cs_queue S) key) (c_queue s) = ((), q)" by (metis old.unit.exhaust prod.exhaust)
    with panic run r0 s1 have "s' = s1\<lparr>c_queue := q\<rparr>" "r = Inl (Panic p)" by (simp_all add: processItem_def)
    with panic s1 r0 lawful_queueD(4) [OF Q q] show thesis by (intro that [of r0]) (auto simp: once_ok_def)
  next
    case ok
    obtain q q' where q: "run_state (q_Forget (cs_queue S) key) (c_queue s) = ((), q)"
      "run_state (q_Done (cs_queue S) key) q = ((), q')" by (metis old.unit.exhaust prod.exhaust)
    with ok run r0 s1 have "s' = s1\<lparr>c_queue := q'\<rparr>" "r = Inr True" by (simp_all add: processItem_def)
    with ok s1 r0 lawful_queueD(5) [OF Q q(1)] lawful_queueD(4) [OF Q q(2)] show thesis
      by (intro that [of r0]) (auto simp: once_ok_def)
  next
    case err
    obtain q q' where q: "run_state (q_AddRateLimited (cs_queue S) key) (c_queue s) = ((), q)"
      "run_state (q_Done (cs_queue S) key) q = ((), q')" by (metis old.unit.exhaust prod.exhaust)
    with err run r0 s1 have "s' = s1\<lparr>c_queue := q'\<rparr>" "r = Inr True" by (simp_all add: processItem_def)
    with err s1 r0 lawful_queueD(2) [OF Q q(1)] lawful_queueD(4) [OF Q q(2)] show thesis
      by (intro that [of r0]) (auto simp: once_ok_def)
  qed
qed

section \<open>The invariant\<close>

inductive_cases start_stepE: "start_step S p p'"

definition start_inv ::
  "('q \<Rightarrow> string set) \<Rightarrow> ('q \<Rightarrow> bool) \<Rightarrow> ('a, 'r, 'q) process \<Rightarrow> bool" where
  "start_inv due shut p \<longleftrightarrow>
     once_ok (p_ctl p) \<and> c_uninit_closed (p_ctl p) = p_synced p \<and>
     due (c_queue (p_ctl p)) \<subseteq> {[]} \<and> (\<forall>key. p_phase p = Syncing key \<longrightarrow> key = []) \<and>
     (p_stopped p \<or> p_phase p = Stopped \<longrightarrow> shut (c_queue (p_ctl p))) \<and>
     p_phase p \<noteq> Crashed (Panic CloseOfClosedChannel) \<and>
     (p_owed p \<longrightarrow> shut (c_queue (p_ctl p)) \<or> (\<exists>c. p_phase p = Crashed c) \<or> [] \<in> due (c_queue (p_ctl p)))"

lemma start_inv_initial:
  assumes "due q = {}"
  shows "start_inv due shut (Start (New q w))"
  using assms by (simp add: start_inv_def Start_def New_def once_ok_def)

lemma sync_no_close:
  assumes "once_ok s" "run_state (sync S) s = (r, s')"
  shows "r \<noteq> Inl (Panic CloseOfClosedChannel)"
  by (rule sync_run [OF assms]) (metis syncCerts_no_close fst_conv)

lemma start_inv_step:
  assumes Q: "lawful_queue (cs_queue S) due shut" and inv: "start_inv due shut p" and step: "start_step S p p'"
  shows "start_inv due shut p'"
  using step
proof (cases rule: start_stepE [consumes 1, case_names event others synced failed get quit item stop elapse])
  case (event ev s)
  from event(2) show ?thesis
    by (rule handle_run [OF Q]) (use inv event(1) in \<open>auto simp: start_inv_def once_ok_def\<close>)
next
  case (others w)
  then show ?thesis using inv by (simp add: start_inv_def once_ok_def)
next
  case synced
  then show ?thesis using inv by (auto simp: start_inv_def)
next
  case failed
  then show ?thesis using inv by (auto simp: start_inv_def)
next
  case (get key s)
  then obtain q where q: "run_state (q_Get (cs_queue S)) (c_queue (p_ctl p)) = (Some (key, False), q)" "s = (p_ctl p)\<lparr>c_queue := q\<rparr>"
    by (auto split: prod.splits)
  with get lawful_queueD(3) [OF Q q(1)] inv show ?thesis by (auto simp: start_inv_def once_ok_def)
next
  case (quit key s)
  then obtain q where q: "run_state (q_Get (cs_queue S)) (c_queue (p_ctl p)) = (Some (key, True), q)" "s = (p_ctl p)\<lparr>c_queue := q\<rparr>"
    by (auto split: prod.splits)
  with quit lawful_queueD(3) [OF Q q(1)] inv show ?thesis by (auto simp: start_inv_def once_ok_def)
next
  case (item key r s)
  have once: "once_ok (p_ctl p)" and key: "key = []" using inv item(2) by (auto simp: start_inv_def)
  obtain r0 s0 where r0: "run_state (sync S) (p_ctl p) = (r0, s0)" by (rule prod.exhaust)
  have nc: "r0 \<noteq> Inl (Panic CloseOfClosedChannel)" by (rule sync_no_close [OF once r0])
  from item(3) show ?thesis
    by (rule processItem_run [OF Q once])
      (use inv item(1,2) r0 nc key in \<open>cases r0; cases r; auto simp: start_inv_def afterItem_def\<close>)
next
  case (stop s)
  then obtain q where q: "run_state (q_ShutDown (cs_queue S)) (c_queue (p_ctl p)) = ((), q)" "s = (p_ctl p)\<lparr>c_queue := q\<rparr>"
    by (auto split: prod.splits)
  with stop lawful_queueD(6) [OF Q q(1)] inv show ?thesis by (auto simp: start_inv_def once_ok_def)
next
  case (elapse s)
  then obtain q where q: "run_state (q_Elapse (cs_queue S)) (c_queue (p_ctl p)) = ((), q)" "s = (p_ctl p)\<lparr>c_queue := q\<rparr>"
    by (auto split: prod.splits)
  with elapse lawful_queueD(7) [OF Q q(1)] inv show ?thesis by (auto simp: start_inv_def once_ok_def)
qed

lemma start_inv_reachable:
  assumes "lawful_queue (cs_queue S) due shut" "due q = {}" "(start_step S)\<^sup>*\<^sup>* (Start (New q w)) p"
  shows "start_inv due shut p"
  using assms(3)
proof (induction rule: rtranclp_induct)
  case base
  then show ?case by (rule start_inv_initial [of due q, OF assms(2)])
next
  case (step p p')
  show ?case by (rule start_inv_step [OF assms(1) step.IH step.hyps(2)])
qed

section \<open>What holds in every interleaving\<close>

text \<open>A run of the process, from a new controller with an empty queue.\<close>

definition started ::
  "('a, 'r, 'k, 'p, 'c, 'm, 'v, 'q) setting \<Rightarrow> ('q \<Rightarrow> string set) \<Rightarrow> ('q \<Rightarrow> bool) \<Rightarrow> ('a, 'r, 'q) process \<Rightarrow> bool" where
  "started S due shut p \<longleftrightarrow>
     lawful_queue (cs_queue S) due shut \<and> (\<exists>q w. due q = {} \<and> (start_step S)\<^sup>*\<^sup>* (Start (New q w)) p)"

lemma started_inv: "started S due shut p \<Longrightarrow> start_inv due shut p"
  unfolding started_def using start_inv_reachable [of S due shut] by blast

text \<open>C7: No change is lost between the goroutines: in every state that any interleaving of the event handlers, the worker, the stop signal and other clients can reach, if a change of a watched object was reported, or a sync failed, and no sync has started since, then the key is due in the queue, unless the queue was shut down or the process crashed.\<close>

theorem no_change_lost:
  assumes "started S due shut p" "p_owed p"
  shows "[] \<in> due (c_queue (p_ctl p)) \<or> shut (c_queue (p_ctl p)) \<or> (\<exists>c. p_phase p = Crashed c)"
  using started_inv [OF assms(1)] assms(2) by (auto simp: start_inv_def)

text \<open>C14: The channel that the start waits for is closed exactly when a sync has succeeded; it is never closed twice, so the worker never dies of that; and \<^verbatim>\<open>Initialize\<close> reports a start only after a sync that succeeded.\<close>

theorem inited_iff_synced:
  assumes "started S due shut p"
  shows "Inited (p_ctl p) = p_synced p \<and> p_phase p \<noteq> Crashed (Panic CloseOfClosedChannel) \<and>
    (Initialize cli kubeCli timer pick (p_ctl p) = Started \<longrightarrow> p_synced p)"
  using started_inv [OF assms] by (auto simp: start_inv_def Inited_def Initialize_def split: option.splits if_splits)

section \<open>The worker is served\<close>

text \<open>
  What the work queue documents beyond that, over the keys that are busy (handed out and not yet
  done): a \<^verbatim>\<open>Get\<close> makes the key it hands out busy, \<^verbatim>\<open>Done\<close> ends that, and nothing else
  changes it.  A \<^verbatim>\<open>Get\<close> waits while the delay of a key runs and while the key is busy, but a
  key that is due and not busy is handed out once time enough has passed, and a queue that was
  shut down does not make a \<^verbatim>\<open>Get\<close> wait for ever.
\<close>

definition elapsed :: "'q workqueue \<Rightarrow> 'q \<Rightarrow> 'q" where
  "elapsed Q q = snd (run_state (q_Elapse Q) q)"

definition serving_queue :: "'q workqueue \<Rightarrow> ('q \<Rightarrow> string set) \<Rightarrow> ('q \<Rightarrow> string set) \<Rightarrow> ('q \<Rightarrow> bool) \<Rightarrow> bool" where
  "serving_queue Q due busy shut \<longleftrightarrow>
     (\<forall>k K. hoare (\<lambda>q. busy q = K) (q_Add Q k) (\<lambda>_ q. busy q = K)) \<and>
     (\<forall>k K. hoare (\<lambda>q. busy q = K) (q_AddRateLimited Q k) (\<lambda>_ q. busy q = K)) \<and>
     (\<forall>K. hoare (\<lambda>q. busy q = K) (q_Get Q)
        (\<lambda>r q. busy q = (case r of Some (k, False) \<Rightarrow> insert k K | _ \<Rightarrow> K))) \<and>
     (\<forall>k K. hoare (\<lambda>q. busy q = K) (q_Done Q k) (\<lambda>_ q. busy q = K - {k})) \<and>
     (\<forall>k K. hoare (\<lambda>q. busy q = K) (q_Forget Q k) (\<lambda>_ q. busy q = K)) \<and>
     (\<forall>K. hoare (\<lambda>q. busy q = K) (q_ShutDown Q) (\<lambda>_ q. busy q = K)) \<and>
     (\<forall>K. hoare (\<lambda>q. busy q = K) (q_Elapse Q) (\<lambda>_ q. busy q = K)) \<and>
     (\<forall>q. due q - busy q \<noteq> {} \<or> shut q \<longrightarrow> (\<exists>n. fst (run_state (q_Get Q) ((elapsed Q ^^ n) q)) \<noteq> None))"

lemma serving_queueH:
  assumes "serving_queue Q due busy shut"
  shows "hoare (\<lambda>q. busy q = K) (q_Add Q k) (\<lambda>_ q. busy q = K)"
    and "hoare (\<lambda>q. busy q = K) (q_AddRateLimited Q k) (\<lambda>_ q. busy q = K)"
    and "hoare (\<lambda>q. busy q = K) (q_Get Q) (\<lambda>r q. busy q = (case r of Some (k, False) \<Rightarrow> insert k K | _ \<Rightarrow> K))"
    and "hoare (\<lambda>q. busy q = K) (q_Done Q k) (\<lambda>_ q. busy q = K - {k})"
    and "hoare (\<lambda>q. busy q = K) (q_Forget Q k) (\<lambda>_ q. busy q = K)"
    and "hoare (\<lambda>q. busy q = K) (q_ShutDown Q) (\<lambda>_ q. busy q = K)"
    and "hoare (\<lambda>q. busy q = K) (q_Elapse Q) (\<lambda>_ q. busy q = K)"
    and "due q - busy q \<noteq> {} \<or> shut q \<Longrightarrow> \<exists>n. fst (run_state (q_Get Q) ((elapsed Q ^^ n) q)) \<noteq> None"
  using assms unfolding serving_queue_def by (elim conjE; simp only: simp_thms)+

lemma serving_queueD:
  assumes "serving_queue Q due busy shut"
  shows "run_state (q_Add Q k) q = (u, q') \<Longrightarrow> busy q' = busy q"
    and "run_state (q_AddRateLimited Q k) q = (u, q') \<Longrightarrow> busy q' = busy q"
    and "run_state (q_Get Q) q = (r, q') \<Longrightarrow> busy q' = (case r of Some (k, False) \<Rightarrow> insert k (busy q) | _ \<Rightarrow> busy q)"
    and "run_state (q_Done Q k) q = (u, q') \<Longrightarrow> busy q' = busy q - {k}"
    and "run_state (q_Forget Q k) q = (u, q') \<Longrightarrow> busy q' = busy q"
    and "run_state (q_ShutDown Q) q = (u, q') \<Longrightarrow> busy q' = busy q"
    and "run_state (q_Elapse Q) q = (u, q') \<Longrightarrow> busy q' = busy q"
    and "due q - busy q \<noteq> {} \<or> shut q \<Longrightarrow> \<exists>n. fst (run_state (q_Get Q) ((elapsed Q ^^ n) q)) \<noteq> None"
  by (fact
      hoareD [OF serving_queueH(1) [OF assms] refl]
      hoareD [OF serving_queueH(2) [OF assms] refl]
      hoareD [OF serving_queueH(3) [OF assms] refl]
      hoareD [OF serving_queueH(4) [OF assms] refl]
      hoareD [OF serving_queueH(5) [OF assms] refl]
      hoareD [OF serving_queueH(6) [OF assms] refl]
      hoareD [OF serving_queueH(7) [OF assms] refl]
      serving_queueH(8) [OF assms])+

text \<open>The worker holds the key it works on, and no other.\<close>

definition worker_holds :: "('q \<Rightarrow> string set) \<Rightarrow> ('a, 'r, 'q) process \<Rightarrow> bool" where
  "worker_holds busy p \<longleftrightarrow>
     (case p_phase p of
        Starting \<Rightarrow> busy (c_queue (p_ctl p)) = {}
      | Idle \<Rightarrow> busy (c_queue (p_ctl p)) = {}
      | Syncing k \<Rightarrow> busy (c_queue (p_ctl p)) = {k}
      | _ \<Rightarrow> True)"

lemma processItem_busy:
  assumes Q: "serving_queue (cs_queue S) due busy shut" and once: "once_ok s"
    and run: "run_state (processItem S key) s = (Inr b, s')"
  shows "busy (c_queue s') = busy (c_queue s) - {key}"
proof -
  obtain r0 s1 where r0: "run_state (sync S) s = (r0, s1)" by (rule prod.exhaust)
  have s1: "c_queue s1 = c_queue s" by (rule sync_run [OF once r0]) simp
  have "\<exists>q q' u u'. (run_state (q_Forget (cs_queue S) key) (c_queue s) = (u, q) \<or>
        run_state (q_AddRateLimited (cs_queue S) key) (c_queue s) = (u, q)) \<and>
      run_state (q_Done (cs_queue S) key) q = (u', q') \<and> c_queue s' = q'"
  proof (cases r0)
    case (Inl c)
    with run r0 show ?thesis by (cases c) (simp_all add: processItem_def split: prod.splits)
  next
    case (Inr e)
    with run r0 s1 show ?thesis by (cases e) (auto simp: processItem_def split: prod.splits)
  qed
  with serving_queueD(2,4,5) [OF Q] show ?thesis by metis
qed

lemma worker_holds_step:
  assumes Q: "serving_queue (cs_queue S) due busy shut" and once: "once_ok (p_ctl p)"
    and inv: "worker_holds busy p" and step: "start_step S p p'"
  shows "worker_holds busy p'"
  using step
proof (cases rule: start_stepE [consumes 1, case_names event others synced failed get quit item stop elapse])
  case (event ev s)
  have "busy (c_queue s) = busy (c_queue (p_ctl p))"
    using event(2) serving_queueD(1) [OF Q] by (auto simp: handle_eq split: if_splits prod.splits)
  with event inv show ?thesis by (cases "p_phase p") (simp_all add: worker_holds_def)
next
  case (others w)
  with inv show ?thesis by (cases "p_phase p") (simp_all add: worker_holds_def)
next
  case (get key s)
  then obtain q where q: "run_state (q_Get (cs_queue S)) (c_queue (p_ctl p)) = (Some (key, False), q)" "s = (p_ctl p)\<lparr>c_queue := q\<rparr>"
    by (auto split: prod.splits)
  with get inv serving_queueD(3) [OF Q q(1)] show ?thesis by (simp add: worker_holds_def)
next
  case (item key r s)
  show ?thesis
  proof (cases r)
    case (Inr b)
    with item processItem_busy [OF Q once, of key b s] inv show ?thesis by (simp add: worker_holds_def afterItem_def)
  qed (use item in \<open>simp add: worker_holds_def afterItem_def\<close>)
next
  case (stop s)
  then have "busy (c_queue s) = busy (c_queue (p_ctl p))"
    using serving_queueD(6) [OF Q] by (auto split: prod.splits)
  with stop inv show ?thesis by (cases "p_phase p") (simp_all add: worker_holds_def)
next
  case (elapse s)
  then have "busy (c_queue s) = busy (c_queue (p_ctl p))"
    using serving_queueD(7) [OF Q] by (auto split: prod.splits)
  with elapse inv show ?thesis by (cases "p_phase p") (simp_all add: worker_holds_def)
qed (use inv in \<open>simp_all add: worker_holds_def\<close>)

lemma worker_holds_reachable:
  assumes Q: "lawful_queue (cs_queue S) due shut" "serving_queue (cs_queue S) due busy shut"
    and start: "due q = {}" "busy q = {}" and run: "(start_step S)\<^sup>*\<^sup>* (Start (New q w)) p"
  shows "worker_holds busy p"
  using run
proof (induction rule: rtranclp_induct)
  case base
  show ?case using start(2) by (simp add: worker_holds_def Start_def New_def)
next
  case (step p p')
  have "once_ok (p_ctl p)"
    using start_inv_reachable [of S due shut, OF Q(1) start(1) step.hyps(1)] by (simp add: start_inv_def)
  from worker_holds_step [OF Q(2) this step.IH step.hyps(2)] show ?case .
qed

text \<open>A moment of time passes and nothing else happens; it is a step of the process.\<close>

definition time_passes ::
  "('a, 'r, 'k, 'p, 'c, 'm, 'v, 'q) setting \<Rightarrow> ('a, 'r, 'q) process \<Rightarrow> ('a, 'r, 'q) process" where
  "time_passes S p = p\<lparr>p_ctl := (p_ctl p)\<lparr>c_queue := elapsed (cs_queue S) (c_queue (p_ctl p))\<rparr>\<rparr>"

lemma time_passes_step: "start_step S p (time_passes S p)"
proof -
  have "run_state (on_queue (q_Elapse (cs_queue S))) (p_ctl p) =
      ((), (p_ctl p)\<lparr>c_queue := elapsed (cs_queue S) (c_queue (p_ctl p))\<rparr>)"
    by (auto simp: elapsed_def split: prod.split)
  from start_step.elapse [OF this] show ?thesis by (simp add: time_passes_def)
qed

lemma time_passes_n:
  "(time_passes S ^^ n) p = p\<lparr>p_ctl := (p_ctl p)\<lparr>c_queue := (elapsed (cs_queue S) ^^ n) (c_queue (p_ctl p))\<rparr>\<rparr>"
  by (induction n) (simp_all add: time_passes_def)

lemma elapsed_n:
  assumes "lawful_queue Q due shut"
  shows "due ((elapsed Q ^^ n) q) = due q" "shut ((elapsed Q ^^ n) q) = shut q"
proof -
  have "due (elapsed Q q) = due q" "shut (elapsed Q q) = shut q" for q
    using lawful_queueD(7) [OF assms prod.collapse [symmetric], of q] by (auto simp: elapsed_def)
  then show "due ((elapsed Q ^^ n) q) = due q" "shut ((elapsed Q ^^ n) q) = shut q"
    by (induction n) simp_all
qed

text \<open>A step of the worker.\<close>

definition worker_moves ::
  "('a, 'r, 'k, 'p, 'c, 'm, 'v, 'q) setting \<Rightarrow> ('a, 'r, 'q) process \<Rightarrow> ('a, 'r, 'q) process \<Rightarrow> bool" where
  "worker_moves S p p' \<longleftrightarrow> start_step S p p' \<and> p_phase p' \<noteq> p_phase p"

lemma worker_Starting: "p_phase p = Starting \<Longrightarrow> \<exists>p'. worker_moves S p p'"
  using start_step.cache_synced [of p S] by (auto simp: worker_moves_def)

lemma worker_Syncing: "p_phase p = Syncing key \<Longrightarrow> \<exists>p'. worker_moves S p p' \<and> (p_phase p' = Idle \<or> (\<exists>c. p_phase p' = Crashed c))"
proof -
  assume ph: "p_phase p = Syncing key"
  obtain r s where r: "run_state (processItem S key) (p_ctl p) = (r, s)" by (rule prod.exhaust)
  let ?p' = "afterItem p r s (fst (run_state (sync S) (p_ctl p)) = Inr None)"
  have "p_phase ?p' = Idle \<or> (\<exists>c. p_phase ?p' = Crashed c)" by (auto simp: afterItem_def split: sum.split)
  with start_step.item [OF ph r] ph show ?thesis
    unfolding worker_moves_def by (intro exI [of _ ?p']) auto
qed

lemma worker_Idle:
  assumes ph: "p_phase p = Idle" and g: "run_state (q_Get (cs_queue S)) (c_queue (p_ctl p)) = (Some (key, b), q)"
  shows "\<exists>p'. worker_moves S p p' \<and> (if b then p_phase p' = Stopped else p_phase p' = Syncing key \<and> \<not> p_owed p')"
proof (cases b)
  case True
  with g have "run_state (on_queue (q_Get (cs_queue S))) (p_ctl p) = (Some (key, True), (p_ctl p)\<lparr>c_queue := q\<rparr>)" by simp
  from start_step.quit [OF ph this] True ph show ?thesis
    unfolding worker_moves_def
    by (intro exI [of _ "p\<lparr>p_ctl := (p_ctl p)\<lparr>c_queue := q\<rparr>, p_phase := Stopped\<rparr>"]) simp
next
  case False
  with g have "run_state (on_queue (q_Get (cs_queue S))) (p_ctl p) = (Some (key, False), (p_ctl p)\<lparr>c_queue := q\<rparr>)" by simp
  from start_step.get [OF ph this] False ph show ?thesis
    unfolding worker_moves_def
    by (intro exI [of _ "p\<lparr>p_ctl := (p_ctl p)\<lparr>c_queue := q\<rparr>, p_phase := Syncing key, p_owed := False\<rparr>"]) simp
qed

text \<open>
  C26: The worker is never stuck.  With a queue that serves keys as documented, delays included,
  in every state that any interleaving can reach the worker has ended (after a crash or a
  shut-down), or can take a step at once, or waits with nothing owed, or waits with a change owed
  and can take a step after time enough has passed, with nothing else happening; and when a change
  is owed while the worker is idle and the queue is open, that step starts a sync that takes the
  change up.
\<close>

theorem worker_never_stuck:
  assumes Q: "lawful_queue (cs_queue S) due shut" "serving_queue (cs_queue S) due busy shut"
    and start: "due q = {}" "busy q = {}" and run: "(start_step S)\<^sup>*\<^sup>* (Start (New q w)) p"
  shows "((\<exists>c. p_phase p = Crashed c) \<or> p_phase p = Stopped \<and> shut (c_queue (p_ctl p)) \<or>
      (\<exists>p'. worker_moves S p p') \<or> p_phase p = Idle \<and> \<not> p_owed p \<or>
      p_phase p = Idle \<and> p_owed p \<and> (\<exists>n p'. worker_moves S ((time_passes S ^^ n) p) p')) \<and>
    (p_phase p = Idle \<and> p_owed p \<and> \<not> shut (c_queue (p_ctl p)) \<longrightarrow>
      (\<exists>n p'. worker_moves S ((time_passes S ^^ n) p) p' \<and> p_phase p' = Syncing [] \<and> \<not> p_owed p'))"
proof -
  note inv = start_inv_reachable [of S due shut, OF Q(1) start(1) run, unfolded start_inv_def]
  note holds = worker_holds_reachable [OF Q start run]
  have owed: "\<exists>n p'. worker_moves S ((time_passes S ^^ n) p) p' \<and>
      (\<not> shut (c_queue (p_ctl p)) \<longrightarrow> p_phase p' = Syncing [] \<and> \<not> p_owed p')"
    if idle: "p_phase p = Idle" "p_owed p"
  proof -
    let ?q = "c_queue (p_ctl p)"
    have "due ?q - busy ?q \<noteq> {} \<or> shut ?q" using inv holds idle by (auto simp: worker_holds_def)
    then obtain n where "fst (run_state (q_Get (cs_queue S)) ((elapsed (cs_queue S) ^^ n) ?q)) \<noteq> None"
      using serving_queueD(8) [OF Q(2)] by blast
    then obtain key b q' where
      g: "run_state (q_Get (cs_queue S)) ((elapsed (cs_queue S) ^^ n) ?q) = (Some (key, b), q')"
      by (cases "run_state (q_Get (cs_queue S)) ((elapsed (cs_queue S) ^^ n) ?q)") auto
    have "\<not> b \<and> key = []" if "\<not> shut ?q"
      using lawful_queueD(3) [OF Q(1) g] that inv elapsed_n [OF Q(1), of n ?q] by (auto split: if_splits)
    moreover obtain p' where "worker_moves S ((time_passes S ^^ n) p) p'"
      "if b then p_phase p' = Stopped else p_phase p' = Syncing key \<and> \<not> p_owed p'"
      using worker_Idle [of "(time_passes S ^^ n) p" S key b q'] idle(1) g by (auto simp: time_passes_n)
    ultimately show ?thesis by (metis (no_types, lifting))
  qed
  have "(\<exists>c. p_phase p = Crashed c) \<or> p_phase p = Stopped \<and> shut (c_queue (p_ctl p)) \<or>
      (\<exists>p'. worker_moves S p p') \<or> p_phase p = Idle \<and> \<not> p_owed p \<or>
      p_phase p = Idle \<and> p_owed p \<and> (\<exists>n p'. worker_moves S ((time_passes S ^^ n) p) p')"
  proof (cases "p_phase p")
    case Starting
    from worker_Starting [OF this] show ?thesis by blast
  next
    case Idle
    with owed show ?thesis by blast
  next
    case (Syncing key)
    from worker_Syncing [OF this] show ?thesis by blast
  next
    case Stopped
    moreover from this have "shut (c_queue (p_ctl p))" using inv by simp
    ultimately show ?thesis by blast
  next
    case (Crashed c)
    then show ?thesis by blast
  qed
  with owed show ?thesis by blast
qed

end
