(* ===== verification/Webhook_Example.thy ===== *)
theory Webhook_Example
  imports Webhook_Process Fs_Example
begin

text \<open>
  The webhook controller on a concrete cluster, with one webhook of each kind, no secret, a new
  certificate directory and a work queue with lists of the keys that are ready, delayed and busy;
  the controller's properties are applied to it.
\<close>

section \<open>The setting\<close>

type_synonym toy_api = "(namespacedName \<rightharpoonup> secret) \<times> toy_configs"

text \<open>The keys that are ready, those whose delay runs, those handed out, and whether the queue is shut down.\<close>

type_synonym toy_queue_state = "string list \<times> string list \<times> string list \<times> bool"

text \<open>\<^verbatim>\<open>Get\<close> hands out the first ready key that is not busy; a key that is added with a delay is ready one moment later.\<close>

definition toy_queue :: "toy_queue_state workqueue" where
  "toy_queue =
     \<lparr>q_Add = (\<lambda>k. State (\<lambda>(ks, ds, bs, b). ((), if b \<or> k \<in> set ks then ks else ks @ [k], ds, bs, b))),
      q_Get = State (\<lambda>(ks, ds, bs, b). case find (\<lambda>k. k \<notin> set bs) ks of
         None \<Rightarrow> (if b then Some ([], True) else None, ks, ds, bs, b)
       | Some k \<Rightarrow> (Some (k, False), remove1 k ks, ds, k # bs, b)),
      q_Done = (\<lambda>k. State (\<lambda>(ks, ds, bs, b). ((), ks, ds, removeAll k bs, b))),
      q_Forget = (\<lambda>_. State_Monad.return ()),
      q_AddRateLimited = (\<lambda>k. State (\<lambda>(ks, ds, bs, b). ((), ks, if b then ds else ds @ [k], bs, b))),
      q_ShutDown = State (\<lambda>(ks, ds, bs, _). ((), ks, ds, bs, True)),
      q_Elapse = State (\<lambda>(ks, ds, bs, b). ((), ks @ ds, [], bs, b))\<rparr>"

abbreviation toy_due :: "toy_queue_state \<Rightarrow> string set" where
  "toy_due q \<equiv> set (fst q) \<union> set (fst (snd q))"

abbreviation toy_busy :: "toy_queue_state \<Rightarrow> string set" where
  "toy_busy q \<equiv> set (fst (snd (snd q)))"

abbreviation toy_shut :: "toy_queue_state \<Rightarrow> bool" where
  "toy_shut q \<equiv> snd (snd (snd q))"

abbreviation toy_ready :: "string list \<Rightarrow> toy_queue_state" where
  "toy_ready ks \<equiv> (ks, [], [], False)"

lemma set_remove1_between: "set xs - {k} \<subseteq> set (remove1 k xs)" "set (remove1 k xs) \<subseteq> set xs"
  by (induction xs) auto

lemma toy_queue_lawful: "lawful_queue toy_queue toy_due toy_shut"
  unfolding lawful_queue_def
proof (intro conjI, goal_cases)
  case 3
  show ?case
  proof (intro allI hoareI, goal_cases)
    case (1 D b q r q')
    obtain ks ds bs where q: "q = (ks, ds, bs, b)" "D = set ks \<union> set ds" using 1(1) by (cases q) auto
    show ?case
    proof (cases "find (\<lambda>k. k \<notin> set bs) ks")
      case None
      with 1(2) show ?thesis by (auto simp: q toy_queue_def)
    next
      case (Some k)
      then have k: "k \<in> set ks" by (auto simp: find_Some_iff)
      from 1(2) Some have r: "r = Some (k, False)" "q' = (remove1 k ks, ds, k # bs, b)" by (auto simp: q toy_queue_def)
      show ?thesis using set_remove1_between [where xs = ks and k = k] k by (auto simp: r q)
    qed
  qed
qed (auto simp: toy_queue_def hoare_def split: if_splits)

text \<open>After one moment a key that is due and not busy is handed out.\<close>

lemma toy_queue_serving: "serving_queue toy_queue toy_due toy_busy toy_shut"
proof -
  have "\<exists>n. fst (run_state (q_Get toy_queue) ((elapsed toy_queue ^^ n) q)) \<noteq> None"
    if "toy_due q - toy_busy q \<noteq> {} \<or> toy_shut q" for q
  proof (rule exI [of _ 1])
    obtain ks ds bs b where q: "q = (ks, ds, bs, b)" by (cases q) auto
    have "(elapsed toy_queue ^^ 1) q = (ks @ ds, [], bs, b)"
      by (simp add: q elapsed_def toy_queue_def)
    moreover have "find (\<lambda>k. k \<notin> set bs) (ks @ ds) \<noteq> None \<or> b"
      using that unfolding find_None_iff by (auto simp: q)
    ultimately show "fst (run_state (q_Get toy_queue) ((elapsed toy_queue ^^ 1) q)) \<noteq> None"
      by (auto simp: toy_queue_def split: option.split)
  qed
  then show ?thesis
    unfolding serving_queue_def
    by (intro conjI) (auto simp: toy_queue_def hoare_def split: option.splits)
qed

definition toy_env :: getenv where
  "toy_env = (\<lambda>k. if k = ''WEBHOOK_CERT_DIR'' then ''/certs'' else if k = ''SERVICE_NAME'' then ''raven'' else [])"

lemma toy_env_simps [simp]:
  "GetHost toy_env = []" "GetCertDir toy_env = ''/certs''" "sync_name toy_env = toy_host"
  by (simp_all add: toy_env_def GetHost_def GetCertDir_def sync_name_def GetNamespace_def GetServiceName_def toy_host_def)

abbreviation "toy_api_secrets \<equiv> lens_secrets fst (\<lambda>m (s :: toy_api). (m, snd s))"
abbreviation "toy_api_configs \<equiv> lens_configs snd (\<lambda>c (s :: toy_api). (fst s, c))"

definition toy_setting :: "(toy_api, nat, toy_key, toy_key, toy_cert, unit, unit, toy_queue_state) setting" where
  "toy_setting = \<lparr>cs_os = calm_env, cs_crypto = toy_crypto, cs_range = sorted_range, cs_getenv = toy_env,
     cs_Jm = toy_json, cs_Jv = toy_json, cs_secrets = toy_api_secrets, cs_configs = toy_api_configs,
     cs_queue = toy_queue\<rparr>"

lemma toy_setting_simps [simp]:
  "cs_os toy_setting = calm_env" "cs_crypto toy_setting = toy_crypto" "cs_range toy_setting = sorted_range"
  "cs_getenv toy_setting = toy_env" "cs_Jm toy_setting = toy_json" "cs_Jv toy_setting = toy_json"
  "cs_secrets toy_setting = toy_api_secrets" "cs_configs toy_setting = toy_api_configs" "cs_queue toy_setting = toy_queue"
  by (simp_all add: toy_setting_def)

definition toy_views :: "(toy_api, unit, unit) views" where
  "toy_views = \<lparr>vw_secrets = fst, vw_mutating = (\<lambda>s. fst (snd s)), vw_validating = (\<lambda>s. snd (snd s))\<rparr>"

lemma toy_views_simps [simp]:
  "vw_secrets toy_views = fst" "vw_mutating toy_views = (\<lambda>s. fst (snd s))" "vw_validating toy_views = (\<lambda>s. snd (snd s))"
  by (simp_all add: toy_views_def)

lemma toy_setting_lawful: "lawful_setting toy_setting toy_x509 toy_views [''certs'']"
proof -
  have "lawful_secrets toy_api_secrets fst" by (rule lens_secrets_lawful) simp
  moreover have "lawful_apart toy_api_secrets fst toy_api_configs (\<lambda>s. fst (snd s)) (\<lambda>s. snd (snd s))"
    by (auto simp: lawful_apart_def lens_secrets_def lens_configs_def hoare_def split: if_splits)
  ultimately show ?thesis by (simp add: lawful_setting_def calm_clock toy_lawful calm_dir cert_readlink)
qed

section \<open>A first sync\<close>

definition toy_cluster :: toy_api where
  "toy_cluster = (Map.empty, toy_configs)"

definition toy_start_world :: "(toy_api, nat) world" where
  "toy_start_world = toy_world toy_cluster 0"

lemma toy_sync_inv: "sync_inv toy_setting toy_x509 toy_views [''certs''] toy_start_world"
  using managed_fresh(1) lens_config_inv [of snd "\<lambda>c (s :: toy_api). (fst s, c)" toy_cluster]
  by (auto simp: sync_inv_def toy_start_world_def toy_world_def in_state_def toy_cluster_def secret_stored_def)

definition toy_controller :: "toy_queue_state \<Rightarrow> (toy_api, nat, toy_queue_state) controller" where
  "toy_controller q = New q toy_start_world"

lemma toy_syncCerts: "fst (run_state (syncCerts toy_setting) toy_start_world) = Inr None"
proof -
  let ?w = "toy_start_world"
  have w0: "w_caKey ?w = None" "w_caCert ?w = None" "?w\<lparr>w_caKey := None, w_caCert := None\<rparr> = ?w"
    "os_fs (w_os ?w) = certs_dir" "w_api ?w = toy_cluster"
    by (simp_all add: toy_start_world_def toy_world_def in_state_def)
  obtain cw where cw: "run_state (chooseCertWriter toy_setting) ?w = ((toy_host, Inr cw), ?w)"
    "EnsureCert cw toy_host = sync_EnsureCert toy_setting"
    using chooseCertWriter_run [of toy_setting ?w] by (auto simp: w0)
  have "fst (run_state (sync_EnsureCert toy_setting) ?w) = (True, Inr toy_artifacts)"
    unfolding sync_EnsureCert_def toy_start_world_def Let_def
    by (simp, rule lens_first_EnsureCert) (simp_all add: toy_cluster_def)
  then obtain w1 where w1: "run_state (sync_EnsureCert toy_setting) ?w = ((True, Inr toy_artifacts), w1)"
    by (metis prod.collapse)
  have "hoare (\<lambda>w. w = ?w) (sync_EnsureCert toy_setting) (\<lambda>_. outside (\<lambda>t s. t = certs_dir \<and> snd s = toy_configs))"
    unfolding sync_EnsureCert_def Let_def
    by (simp, rule hoare_pre [OF keep_secret_EnsureCert])
      (auto simp: lens_secrets_def hoare_def w0 toy_cluster_def split: if_splits)
  from hoareD [OF this refl w1] have k: "os_fs (w_os w1) = certs_dir" "snd (w_api w1) = toy_configs" by simp_all
  have "fsh (\<lambda>_. True) (\<lambda>t. t = certs_dir) (WriteCertsToDir calm_env sorted_range ''/certs'' toy_artifacts)
      (\<lambda>r t. certs_outcome calm_env [''certs''] None certs_dir toy_artifacts (r = Inr ()) t \<and>
        (clear_way calm_env [''certs''] None certs_dir \<longrightarrow> r = Inr ()))"
    by (rule fsh_WriteCertsToDir [OF calm_dir cert_readlink(1) managed_fresh(1)]) simp_all
  from fshD [OF this k(1) _ prod.collapse [symmetric]] calm_clear
  obtain s where s: "run_state (WriteCertsToDir calm_env sorted_range ''/certs'' toy_artifacts) (w_os w1) = (Inr (), s)"
    by (metis prod.collapse)
  have "fst (run_state (Ensure toy_env toy_json toy_json toy_api_configs (CACert toy_artifacts)) (w_api w1)) = Inr None"
    by (rule lens_Ensure) (simp_all add: k)
  then obtain a where a: "run_state (Ensure toy_env toy_json toy_json toy_api_configs (CACert toy_artifacts)) (w_api w1) = (Inr None, a)"
    by (metis prod.collapse)
  show ?thesis by (simp add: syncCerts_def cw w1 s a)
qed

lemma toy_sync:
  obtains s where "run_state (sync toy_setting) (toy_controller q) = (Inr None, s)" "c_uninit_closed s" "c_queue s = q"
proof -
  have once: "once_ok (toy_controller q)" by (simp add: toy_controller_def New_def once_ok_def)
  obtain r s where r: "run_state (sync toy_setting) (toy_controller q) = (r, s)" by (rule prod.exhaust)
  obtain w where w: "run_state (syncCerts toy_setting) (c_world (toy_controller q)) = (r, w)"
    and s: "s = (toy_controller q)\<lparr>c_world := w, c_uninit_closed := c_uninit_closed (toy_controller q) \<or> r = Inr None,
      c_onceInit := c_onceInit (toy_controller q) \<or> r = Inr None\<rparr>"
    by (rule sync_run [OF once r])
  have "c_world (toy_controller q) = toy_start_world" "c_queue (toy_controller q) = q"
    by (simp_all add: toy_controller_def New_def)
  moreover from this w toy_syncCerts have "r = Inr None" by simp
  ultimately show thesis using that [of s] r s by simp
qed

lemma toy_controller_inv:
  "sync_inv toy_setting toy_x509 toy_views [''certs''] (c_world (toy_controller q))" "once_ok (toy_controller q)"
  using toy_sync_inv by (simp_all add: toy_controller_def New_def once_ok_def)

theorem sync_correct_witness:
  "\<exists>s a. run_state (sync toy_setting) (toy_controller (toy_ready [])) = (Inr None, s) \<and> Inited s \<and>
     published_mutating toy_setting toy_views (c_world (toy_controller (toy_ready []))) (c_world s) a \<and>
     (\<exists>i. valid_at (cs_crypto toy_setting) a (sync_name (cs_getenv toy_setting)) (env_now (cs_os toy_setting) i))"
proof -
  obtain s where s: "run_state (sync toy_setting) (toy_controller (toy_ready [])) = (Inr None, s)" by (rule toy_sync)
  have h: "servable (sync_name (cs_getenv toy_setting))" using toy_names(3) by simp
  have d: "now_at (cs_os toy_setting) (c_world s) \<le> now_at (cs_os toy_setting) (c_world (toy_controller (toy_ready []))) + 180 * 86400"
    by (simp add: calm_clock)
  from sync_correct [OF toy_setting_lawful toy_controller_inv h s d] s show ?thesis by blast
qed

theorem sync_installs_before_publishing_witness:
  "\<exists>s. run_state (sync toy_setting) (toy_controller (toy_ready [])) = (Inr None, s) \<and>
     sync_inv toy_setting toy_x509 toy_views [''certs''] (c_world s)"
proof -
  obtain s where s: "run_state (sync toy_setting) (toy_controller (toy_ready [])) = (Inr None, s)" by (rule toy_sync)
  from sync_installs_before_publishing [OF toy_setting_lawful toy_controller_inv s] s show ?thesis by blast
qed

section \<open>The process\<close>

text \<open>The configurations are listed when the informers start: the first event makes the key due.\<close>

definition toy_event :: "(unit, unit) event" where
  "toy_event = MutatingAdded (toy_config mutating_name)"

definition toy_process :: "(toy_api, nat, toy_queue_state) process" where
  "toy_process = (Start (toy_controller (toy_ready [])))\<lparr>p_ctl := toy_controller (toy_ready [[]]), p_owed := True\<rparr>"

lemma toy_steps:
  "start_step toy_setting (Start (New (toy_ready []) toy_start_world)) toy_process"
  "start_step toy_setting toy_process (toy_process\<lparr>p_phase := Idle\<rparr>)"
proof -
  have w: "watched toy_setting toy_event" by (simp add: watched_def toy_event_def toy_config_def)
  have "run_state (handle toy_setting toy_event) (p_ctl (Start (toy_controller (toy_ready [])))) = ((), toy_controller (toy_ready [[]]))"
    using w by (simp add: handle_eq toy_queue_def Start_def toy_controller_def New_def Let_def)
  from start_step.event [OF this] w
  show "start_step toy_setting (Start (New (toy_ready []) toy_start_world)) toy_process"
    by (simp add: toy_process_def toy_controller_def)
  show "start_step toy_setting toy_process (toy_process\<lparr>p_phase := Idle\<rparr>)"
    by (rule start_step.cache_synced) (simp add: toy_process_def Start_def)
qed

lemma toy_reach:
  "(start_step toy_setting)\<^sup>*\<^sup>* (Start (New (toy_ready []) toy_start_world)) toy_process"
  "(start_step toy_setting)\<^sup>*\<^sup>* (Start (New (toy_ready []) toy_start_world)) (toy_process\<lparr>p_phase := Idle\<rparr>)"
  using toy_steps by (meson r_into_rtranclp rtranclp.rtrancl_into_rtrancl)+

lemma toy_started: "started toy_setting toy_due toy_shut toy_process"
  "started toy_setting toy_due toy_shut (toy_process\<lparr>p_phase := Idle\<rparr>)"
proof -
  show "started toy_setting toy_due toy_shut toy_process" "started toy_setting toy_due toy_shut (toy_process\<lparr>p_phase := Idle\<rparr>)"
    unfolding started_def using toy_queue_lawful toy_reach
    by (auto intro!: exI [of _ "toy_ready []"] exI [of _ toy_start_world])
qed

theorem no_change_lost_witness: "p_owed toy_process \<and> [] \<in> toy_due (c_queue (p_ctl toy_process))"
  using no_change_lost [OF toy_started(1)] by (simp add: toy_process_def Start_def toy_controller_def New_def)

theorem inited_iff_synced_witness:
  "Inited (p_ctl toy_process) = p_synced toy_process \<and>
   Initialize None None True True (p_ctl toy_process) = TimedOut"
  using inited_iff_synced [OF toy_started(1), of None None True True]
  by (simp add: toy_process_def Start_def Initialize_def toy_controller_def New_def Inited_def)

theorem worker_never_stuck_witness:
  "\<exists>n p. worker_moves toy_setting ((time_passes toy_setting ^^ n) (toy_process\<lparr>p_phase := Idle\<rparr>)) p \<and>
     p_phase p = Syncing [] \<and> \<not> p_owed p"
proof -
  have Q: "lawful_queue (cs_queue toy_setting) toy_due toy_shut"
    "serving_queue (cs_queue toy_setting) toy_due toy_busy toy_shut"
    using toy_queue_lawful toy_queue_serving by simp_all
  from conjunct2 [OF worker_never_stuck [OF Q _ _ toy_reach(2)]] show ?thesis
    by (simp add: toy_process_def Start_def toy_controller_def New_def)
qed

end
