(* ===== verification/Controller_Manager.thy ===== *)
theory Controller_Manager
  imports Webhook_Example
begin

text \<open>
  The program as a whole: \<^verbatim>\<open>main.go\<close> and \<^verbatim>\<open>pkg/projectinfo/projectinfo.go\<close>.  \<^verbatim>\<open>main\<close> is a
  sequence of calls; one of them, \<^verbatim>\<open>ravenwebhook.Initialize\<close>, starts the webhook controller of
  \<^verbatim>\<open>Webhook_Controller\<close> in goroutines of its own, which from then on run beside the calls that
  follow.  The other calls are controller-runtime's: each succeeds or fails.
\<close>

section \<open>projectinfo.go\<close>

definition normalizeGitCommit :: "string \<Rightarrow> string" where
  "normalizeGitCommit commit = (if length commit > 7 then take 7 commit else commit)"

record version_info =
  GitVersion :: string
  GitCommit :: string
  BuildDate :: string
  GoVersion :: string
  Compiler :: string
  Platform :: string

text \<open>The build sets the first three; \<^verbatim>\<open>runtime\<close> gives the others.\<close>

definition Get_Info :: "string \<Rightarrow> string \<Rightarrow> string \<Rightarrow> string \<Rightarrow> string \<Rightarrow> string \<Rightarrow> string \<Rightarrow> version_info" where
  "Get_Info gitVersion gitCommit buildDate version compiler os arch =
     \<lparr>GitVersion = gitVersion, GitCommit = normalizeGitCommit gitCommit, BuildDate = buildDate,
      GoVersion = version, Compiler = compiler, Platform = os @ ''/'' @ arch\<rparr>"

lemma normalizeGitCommit_idem: "normalizeGitCommit (normalizeGitCommit c) = normalizeGitCommit c"
  by (simp add: normalizeGitCommit_def)

section \<open>main.go\<close>

text \<open>The calls of \<^verbatim>\<open>init\<close> and \<^verbatim>\<open>main\<close>, in their order.\<close>

datatype main_call =
    AddToScheme string
  | NewManager
  | SetupGatewayReconciler
  | SetupServiceReconciler
  | SetupGatewayWebhook
  | InitializeWebhook
  | AddHealthzCheck
  | AddReadyzCheck
  | StartManager

definition main_calls :: "main_call list" where
  "main_calls =
     [AddToScheme ''client-go'', AddToScheme ''raven/v1alpha1'', AddToScheme ''calico/v3'',
      NewManager, SetupGatewayReconciler, SetupServiceReconciler, SetupGatewayWebhook, InitializeWebhook,
      AddHealthzCheck, AddReadyzCheck, StartManager]"

datatype ending = ExitCode nat | MustPanic

text \<open>\<^verbatim>\<open>utilruntime.Must\<close> panics; every other error is logged and ends the program with code 1.\<close>

definition on_error :: "main_call \<Rightarrow> ending" where
  "on_error c = (case c of AddToScheme _ \<Rightarrow> MustPanic | _ \<Rightarrow> ExitCode 1)"

text \<open>
  A state of the program: the calls to come (the first is the one that is running), those that
  have returned nil, the goroutines of the webhook controller, and how the program ended.
\<close>

record ('a, 'r, 'q) program =
  m_todo :: "main_call list"
  m_done :: "main_call list"
  m_webhook :: "('a, 'r, 'q) process option"
  m_end :: "ending option"

definition program_start :: "('a, 'r, 'q) program" where
  "program_start = \<lparr>m_todo = main_calls, m_done = [], m_webhook = None, m_end = None\<rparr>"

text \<open>A crash of a goroutine ends the program.\<close>

definition running :: "('a, 'r, 'q) program \<Rightarrow> bool" where
  "running m \<longleftrightarrow> m_end m = None \<and> (\<forall>p c. m_webhook m = Some p \<longrightarrow> p_phase p \<noteq> Crashed c)"

text \<open>\<open>q0\<close> is the work queue the webhook controller is made with.\<close>

inductive main_step ::
  "('a, 'r, 'k, 'p, 'c, 'm, 'v, 'q) setting \<Rightarrow> 'q \<Rightarrow> ('a, 'r, 'q) program \<Rightarrow> ('a, 'r, 'q) program \<Rightarrow> bool"
  for S q0 where
  succeed: "running m \<Longrightarrow> m_todo m = c # cs \<Longrightarrow> c \<noteq> InitializeWebhook \<Longrightarrow>
     main_step S q0 m (m\<lparr>m_todo := cs, m_done := m_done m @ [c]\<rparr>)"
| fail: "running m \<Longrightarrow> m_todo m = c # cs \<Longrightarrow> c \<noteq> InitializeWebhook \<Longrightarrow>
     main_step S q0 m (m\<lparr>m_end := Some (on_error c)\<rparr>)"
| clients: "running m \<Longrightarrow> m_todo m = InitializeWebhook # cs \<Longrightarrow> m_webhook m = None \<Longrightarrow>
     Initialize cli kubeCli False False (New q0 w :: ('a, 'r, 'q) controller) = ClientFailed err \<Longrightarrow>
     main_step S q0 m (m\<lparr>m_end := Some (on_error InitializeWebhook)\<rparr>)"
| spawn: "running m \<Longrightarrow> m_todo m = InitializeWebhook # cs \<Longrightarrow> m_webhook m = None \<Longrightarrow>
     main_step S q0 m (m\<lparr>m_webhook := Some (Start (New q0 w))\<rparr>)"
| initialized: "running m \<Longrightarrow> m_todo m = InitializeWebhook # cs \<Longrightarrow> m_webhook m = Some p \<Longrightarrow>
     Initialize None None timer pick (p_ctl p) = Started \<Longrightarrow>
     main_step S q0 m (m\<lparr>m_todo := cs, m_done := m_done m @ [InitializeWebhook]\<rparr>)"
| timed_out: "running m \<Longrightarrow> m_todo m = InitializeWebhook # cs \<Longrightarrow> m_webhook m = Some p \<Longrightarrow>
     Initialize None None timer pick (p_ctl p) = TimedOut \<Longrightarrow>
     main_step S q0 m (m\<lparr>m_end := Some (on_error InitializeWebhook)\<rparr>)"
| webhook: "running m \<Longrightarrow> m_webhook m = Some p \<Longrightarrow> start_step S p p' \<Longrightarrow>
     main_step S q0 m (m\<lparr>m_webhook := Some p'\<rparr>)"
| return: "running m \<Longrightarrow> m_todo m = [] \<Longrightarrow> main_step S q0 m (m\<lparr>m_end := Some (ExitCode 0)\<rparr>)"

inductive_cases main_stepE: "main_step S q0 m m'"

section \<open>The manager starts last\<close>

lemma start_step_synced: "start_step S p p' \<Longrightarrow> p_synced p \<Longrightarrow> p_synced p'"
  by (induction rule: start_step.induct) (simp_all add: afterItem_def)

text \<open>
  The invariant of \<^verbatim>\<open>main\<close>: the calls are made in order, the webhook controller is one that was
  started and runs as the interleavings of \<^verbatim>\<open>Webhook_Process\<close> allow, and once \<^verbatim>\<open>Initialize\<close> has
  returned it has synced.
\<close>

definition main_inv ::
  "('a, 'r, 'k, 'p, 'c, 'm, 'v, 'q) setting \<Rightarrow> ('q \<Rightarrow> string set) \<Rightarrow> ('q \<Rightarrow> bool) \<Rightarrow> ('a, 'r, 'q) program \<Rightarrow> bool" where
  "main_inv S due shut m \<longleftrightarrow>
     m_done m @ m_todo m = main_calls \<and>
     (\<forall>p. m_webhook m = Some p \<longrightarrow> started S due shut p) \<and>
     (InitializeWebhook \<in> set (m_done m) \<longrightarrow> (\<exists>p. m_webhook m = Some p \<and> p_synced p)) \<and>
     (m_end m = Some (ExitCode 0) \<longrightarrow> m_todo m = [])"

lemma started_initial:
  "lawful_queue (cs_queue S) due shut \<Longrightarrow> due q0 = {} \<Longrightarrow> started S due shut (Start (New q0 w))"
  unfolding started_def by blast

lemma started_step: "started S due shut p \<Longrightarrow> start_step S p p' \<Longrightarrow> started S due shut p'"
  unfolding started_def by (meson rtranclp.rtrancl_into_rtrancl)

lemma main_inv_step:
  assumes Q: "lawful_queue (cs_queue S) due shut" "due q0 = {}"
    and inv: "main_inv S due shut m" and step: "main_step S q0 m m'"
  shows "main_inv S due shut m'"
  using step
proof (cases rule: main_stepE [consumes 1, case_names succeed fail clients spawn initialized timed_out webhook return])
  case (spawn cs w)
  with inv show ?thesis using started_initial [OF Q, of w] by (auto simp: main_inv_def)
next
  case (initialized cs p timer pick)
  with inv have "started S due shut p" by (simp add: main_inv_def)
  then have "p_synced p" using started_inv [of S due shut p] initialized(5)
    by (auto simp: start_inv_def Initialize_def Inited_def split: if_splits)
  with initialized inv show ?thesis by (simp add: main_inv_def)
next
  case (webhook p p')
  with inv show ?thesis using started_step [of S due shut p p'] start_step_synced [of S p p']
    by (auto simp: main_inv_def)
qed (use inv in \<open>auto simp: main_inv_def on_error_def running_def split: main_call.splits\<close>)

lemma main_inv_reachable:
  assumes "lawful_queue (cs_queue S) due shut" "due q0 = {}" "(main_step S q0)\<^sup>*\<^sup>* program_start m"
  shows "main_inv S due shut m"
  using assms(3)
proof (induction rule: rtranclp_induct)
  case base
  show ?case by (simp add: main_inv_def program_start_def)
next
  case (step m m')
  show ?case by (rule main_inv_step [OF assms(1,2) step.IH step.hyps(2)])
qed

text \<open>C15: The manager, and with it the webhook server, is started last. In every state that any interleaving of main and the goroutines of the webhook controller can reach: main makes its calls in order and each only after the ones before it have succeeded; once the start of the manager has been called, both reconcilers, the gateway webhook and both probes are registered and a sync of the webhook controller has succeeded, so that the certificates were written; and the program ends with code 0 only after all of it.\<close>

theorem manager_starts_last:
  assumes "lawful_queue (cs_queue S) due shut" and "due q0 = {}" and "(main_step S q0)\<^sup>*\<^sup>* program_start m"
  shows "m_done m @ m_todo m = main_calls \<and>
    ((\<exists>cs. m_todo m = StartManager # cs) \<or> StartManager \<in> set (m_done m) \<longrightarrow>
       {NewManager, SetupGatewayReconciler, SetupServiceReconciler, SetupGatewayWebhook, AddHealthzCheck,
         AddReadyzCheck} \<subseteq> set (m_done m) \<and>
       (\<exists>p. m_webhook m = Some p \<and> p_synced p \<and> Inited (p_ctl p))) \<and>
    (m_end m = Some (ExitCode 0) \<longrightarrow> m_done m = main_calls)"
proof -
  have inv: "main_inv S due shut m" by (rule main_inv_reachable [OF assms])
  have calls: "m_done m @ m_todo m = main_calls" and ended: "m_end m = Some (ExitCode 0) \<longrightarrow> m_todo m = []"
    using inv by (simp_all add: main_inv_def)
  have synced: "\<exists>p. m_webhook m = Some p \<and> p_synced p \<and> Inited (p_ctl p)" if "InitializeWebhook \<in> set (m_done m)"
    using inv that started_inv [of S due shut] by (fastforce simp: main_inv_def start_inv_def Inited_def)
  have "{NewManager, SetupGatewayReconciler, SetupServiceReconciler, SetupGatewayWebhook, InitializeWebhook,
      AddHealthzCheck, AddReadyzCheck} \<subseteq> set (m_done m)"
    if "(\<exists>cs. m_todo m = StartManager # cs) \<or> StartManager \<in> set (m_done m)"
    using calls that by (auto simp: main_calls_def append_eq_Cons_conv)
  moreover have "m_done m = main_calls" if "m_end m = Some (ExitCode 0)" using calls ended that by simp
  ultimately show ?thesis using calls synced by blast
qed

section \<open>A run that reaches the manager's start\<close>

lemma main_succeeds:
  assumes "running m" "m_todo m = cs @ ds" "InitializeWebhook \<notin> set cs"
  shows "(main_step S q0)\<^sup>*\<^sup>* m (m\<lparr>m_todo := ds, m_done := m_done m @ cs\<rparr>)"
  using assms
proof (induction cs arbitrary: m)
  case (Cons c cs)
  let ?m = "m\<lparr>m_todo := cs @ ds, m_done := m_done m @ [c]\<rparr>"
  have "main_step S q0 m ?m" using Cons.prems by (intro succeed) auto
  moreover have "(main_step S q0)\<^sup>*\<^sup>* ?m (?m\<lparr>m_todo := ds, m_done := m_done ?m @ cs\<rparr>)"
    by (rule Cons.IH) (use Cons.prems in \<open>auto simp: running_def\<close>)
  ultimately show ?case by (simp add: converse_rtranclp_into_rtranclp)
next
  case Nil
  then have "m\<lparr>m_todo := ds, m_done := m_done m @ []\<rparr> = m" by (cases m) simp
  then show ?case by simp
qed

text \<open>The webhook controller of the example, from its start to its first successful sync.\<close>

abbreviation toy_taken :: toy_queue_state where
  "toy_taken \<equiv> ([], [], [[]], False)"

definition toy_syncing :: "(toy_api, nat, toy_queue_state) process" where
  "toy_syncing = toy_process\<lparr>p_ctl := toy_controller toy_taken, p_phase := Syncing [], p_owed := False\<rparr>"

lemma toy_gets: "start_step toy_setting (toy_process\<lparr>p_phase := Idle\<rparr>) toy_syncing"
proof -
  have "run_state (on_queue (q_Get (cs_queue toy_setting))) (p_ctl (toy_process\<lparr>p_phase := Idle\<rparr>)) =
      (Some ([], False), toy_controller toy_taken)"
    by (simp add: toy_process_def on_queue_def toy_queue_def toy_controller_def New_def Let_def)
  from start_step.get [OF _ this] show ?thesis by (simp add: toy_syncing_def)
qed

lemma toy_synced:
  obtains p where "start_step toy_setting toy_syncing p" "Inited (p_ctl p)" "p_phase p = Idle" "p_synced p"
proof -
  obtain s where s: "run_state (sync toy_setting) (toy_controller toy_taken) = (Inr None, s)" "c_uninit_closed s" "c_queue s = toy_taken"
    by (rule toy_sync)
  let ?s = "s\<lparr>c_queue := toy_ready []\<rparr>"
  have "run_state (processItem toy_setting []) (toy_controller toy_taken) = (Inr True, ?s)"
    by (simp add: processItem_def s on_queue_def toy_queue_def Let_def)
  from start_step.item [of toy_syncing, OF _ _ , of "[]" toy_setting "Inr True" ?s] this s
  have "start_step toy_setting toy_syncing (afterItem toy_syncing (Inr True) ?s True)"
    by (simp add: toy_syncing_def)
  with s(2) show thesis
    by (intro that [of "afterItem toy_syncing (Inr True) ?s True"]) (simp_all add: afterItem_def Inited_def)
qed

theorem manager_starts_last_witness:
  "\<exists>m p. (main_step toy_setting (toy_ready []))\<^sup>*\<^sup>* program_start m \<and> m_todo m = [StartManager] \<and>
     length (m_done m) = 10 \<and> m_webhook m = Some p \<and> p_synced p"
proof -
  let ?step = "main_step toy_setting (toy_ready [])"
  let ?before = "take 7 main_calls" let ?checks = "[AddHealthzCheck, AddReadyzCheck]"
  define m1 :: "(toy_api, nat, toy_queue_state) program" where
    "m1 = program_start\<lparr>m_todo := drop 7 main_calls, m_done := ?before\<rparr>"
  have before: "?step\<^sup>*\<^sup>* program_start m1"
    using main_succeeds [of program_start ?before "drop 7 main_calls" toy_setting "(toy_ready [])"]
    by (simp add: m1_def program_start_def running_def main_calls_def)
  define at where "at p = m1\<lparr>m_webhook := Some p\<rparr>" for p
  have m1: "m_todo m1 = InitializeWebhook # ?checks @ [StartManager]" "m_webhook m1 = None" "m_end m1 = None"
    by (simp_all add: m1_def program_start_def main_calls_def)
  have spawned: "?step m1 (at (Start (New (toy_ready []) toy_start_world)))"
    unfolding at_def by (rule spawn) (use m1 in \<open>simp_all add: running_def\<close>)
  have go: "?step (at p) (at p')" if "start_step toy_setting p p'" "\<And>c. p_phase p \<noteq> Crashed c" for p p'
    using webhook [of "at p" p toy_setting p' "(toy_ready [])"] that m1(3) by (simp add: at_def running_def)
  obtain p where p: "start_step toy_setting toy_syncing p" "Inited (p_ctl p)" "p_phase p = Idle" "p_synced p"
    by (rule toy_synced)
  have synced: "?step\<^sup>*\<^sup>* program_start (at p)"
    using before spawned go [OF toy_steps(1)] go [OF toy_steps(2)] go [OF toy_gets] go [OF p(1)]
    by (auto simp: toy_process_def toy_syncing_def Start_def intro: rtranclp.rtrancl_into_rtrancl)
  define m2 where "m2 = (at p)\<lparr>m_todo := ?checks @ [StartManager], m_done := m_done (at p) @ [InitializeWebhook]\<rparr>"
  have r: "running m2" "running (at p)" using p(3) m1(3) by (simp_all add: m2_def at_def running_def)
  have "?step (at p) m2" unfolding m2_def
    by (rule initialized [where timer = False and pick = False])
      (use r(2) p(2) m1(1) in \<open>simp_all add: at_def Initialize_def\<close>)
  with synced have "?step\<^sup>*\<^sup>* program_start m2" by (rule rtranclp.rtrancl_into_rtrancl)
  also have "?step\<^sup>*\<^sup>* m2 (m2\<lparr>m_todo := [StartManager], m_done := m_done m2 @ ?checks\<rparr>)"
    by (rule main_succeeds [OF r(1)]) (simp_all add: m2_def)
  finally have reach: "?step\<^sup>*\<^sup>* program_start (m2\<lparr>m_todo := [StartManager], m_done := m_done m2 @ ?checks\<rparr>)" .
  from manager_starts_last [OF _ _ reach, of toy_due toy_shut] toy_queue_lawful
  have "m_done (m2\<lparr>m_todo := [StartManager], m_done := m_done m2 @ ?checks\<rparr>) @ [StartManager] = main_calls"
    "\<exists>p. m_webhook m2 = Some p \<and> p_synced p" by auto
  with reach show ?thesis
    by (intro exI [of _ "m2\<lparr>m_todo := [StartManager], m_done := m_done m2 @ ?checks\<rparr>"])
      (auto simp: main_calls_def dest: arg_cong [of _ _ length])
qed

end
