(* ===== verification/Go_Memory.thy ===== *)
theory Go_Memory
  imports Raven_Prelude
begin

text \<open>
  Go's memory, for the code whose correctness is about sharing: the generated deep copies.
  A memory maps addresses to objects (what a pointer, a map or a slice refers to) and knows
  the next address an allocation returns.  A struct value is a record whose reference fields
  hold addresses; \<open>view\<close> functions read the deep value a struct value denotes (\<open>None\<close> when a
  reference dangles or refers to an object of another type) and \<open>reach\<close> lists the addresses
  read on the way.  The locale \<open>deep_copier\<close> is the contract of a \<^verbatim>\<open>DeepCopyInto\<close> function;
  the lemmas after it derive the contract for pointers, slices, pairs of fields and structs
  from the contracts of their parts.
\<close>

section \<open>Memory\<close>

type_synonym addr = nat

record 'o memory =
  mem_next :: addr
  mem_at :: "addr \<Rightarrow> 'o option"

definition mem_ok :: "'o memory \<Rightarrow> bool" where
  "mem_ok h \<longleftrightarrow> (\<forall>a. mem_at h a \<noteq> None \<longrightarrow> a < mem_next h)"

text \<open>\<^verbatim>\<open>new(T)\<close>, \<^verbatim>\<open>make(map)\<close> and \<^verbatim>\<open>make([]T, n)\<close> allocate; a store overwrites.\<close>

definition mem_new :: "'o \<Rightarrow> 'o memory \<Rightarrow> addr \<times> 'o memory" where
  "mem_new ob h = (mem_next h, h\<lparr>mem_next := Suc (mem_next h), mem_at := (mem_at h)(mem_next h \<mapsto> ob)\<rparr>)"

definition mem_set :: "addr \<Rightarrow> 'o \<Rightarrow> 'o memory \<Rightarrow> 'o memory" where
  "mem_set a ob h = h\<lparr>mem_at := (mem_at h)(a \<mapsto> ob)\<rparr>"

text \<open>\<open>mem_ext h h'\<close>: whatever was allocated in \<open>h\<close> is in \<open>h'\<close> as it was.\<close>

definition mem_ext :: "'o memory \<Rightarrow> 'o memory \<Rightarrow> bool" where
  "mem_ext h h' \<longleftrightarrow> mem_next h \<le> mem_next h' \<and> (\<forall>a < mem_next h. mem_at h' a = mem_at h a)"

lemma mem_ext_refl [simp, intro]: "mem_ext h h"
  by (simp add: mem_ext_def)

lemma mem_ext_trans [trans]: "mem_ext h h' \<Longrightarrow> mem_ext h' h'' \<Longrightarrow> mem_ext h h''"
  by (simp add: mem_ext_def)

lemma mem_ext_next: "mem_ext h h' \<Longrightarrow> mem_next h \<le> mem_next h'"
  by (simp add: mem_ext_def)

lemma mem_ext_at: "mem_ext h h' \<Longrightarrow> a < mem_next h \<Longrightarrow> mem_at h' a = mem_at h a"
  by (simp add: mem_ext_def)

lemma mem_new_ext: "mem_new ob h = (a, h') \<Longrightarrow> mem_ext h h'"
  by (auto simp: mem_new_def mem_ext_def)

lemma mem_new_ok: "mem_new ob h = (a, h') \<Longrightarrow> mem_ok h \<Longrightarrow> mem_ok h'"
  by (auto simp: mem_new_def mem_ok_def less_Suc_eq)

lemma mem_set_ok: "mem_ok h \<Longrightarrow> a < mem_next h \<Longrightarrow> mem_ok (mem_set a ob h)"
  by (auto simp: mem_set_def mem_ok_def)

lemma mem_set_ext: "mem_ext h h' \<Longrightarrow> mem_next h \<le> a \<Longrightarrow> mem_ext h (mem_set a ob h')"
  by (auto simp: mem_set_def mem_ext_def)

lemma mem_set_simps [simp]:
  "mem_next (mem_set a ob h) = mem_next h"
  "mem_at (mem_set a ob h) b = (if b = a then Some ob else mem_at h b)"
  by (auto simp: mem_set_def)

section \<open>References\<close>

text \<open>
  A slice is a window of a backing array.  A reference to an object of type \<open>'c\<close> is read with
  the projection \<open>prj\<close> of objects to \<open>'c\<close>, which fails on an object of another type.
\<close>

record slice =
  sl_arr :: addr
  sl_off :: nat
  sl_len :: nat
  sl_cap :: nat

definition deref :: "('o \<Rightarrow> 'c option) \<Rightarrow> 'o memory \<Rightarrow> addr \<Rightarrow> 'c option" where
  "deref prj h a = Option.bind (mem_at h a) prj"

definition slice_elems :: "('o \<Rightarrow> 'c list option) \<Rightarrow> 'o memory \<Rightarrow> slice \<Rightarrow> 'c list option" where
  "slice_elems prj h s =
     Option.bind (deref prj h (sl_arr s))
       (\<lambda>xs. if sl_off s + sl_len s \<le> length xs then Some (take (sl_len s) (drop (sl_off s) xs)) else None)"

text \<open>\<^verbatim>\<open>s[i] = c\<close> for a slice that starts at its array's beginning.\<close>

definition slice_store ::
  "('o \<Rightarrow> 'c list option) \<Rightarrow> ('c list \<Rightarrow> 'o) \<Rightarrow> slice \<Rightarrow> nat \<Rightarrow> 'c \<Rightarrow> 'o memory \<Rightarrow> 'o memory option" where
  "slice_store prj emb s i c h =
     Option.bind (deref prj h (sl_arr s))
       (\<lambda>ys. if i < sl_len s \<and> sl_off s + i < length ys
             then Some (mem_set (sl_arr s) (emb (ys[sl_off s + i := c])) h) else None)"

definition make_slice :: "('c list \<Rightarrow> 'o) \<Rightarrow> 'c \<Rightarrow> nat \<Rightarrow> 'o memory \<Rightarrow> slice \<times> 'o memory" where
  "make_slice emb zero n h =
     (case mem_new (emb (replicate n zero)) h of
        (b, h') \<Rightarrow> (\<lparr>sl_arr = b, sl_off = 0, sl_len = n, sl_cap = n\<rparr>, h'))"

text \<open>
  The three forms the generator emits.  A pointer field: \<^verbatim>\<open>if in.F != nil { *out = new(T);
  (*in).DeepCopyInto(*out) }\<close>.
\<close>

type_synonym ('c, 'o) copier = "'c \<Rightarrow> 'o memory \<Rightarrow> ('c \<times> 'o memory) option"

definition copy_ptr ::
  "('o \<Rightarrow> 'c option) \<Rightarrow> ('c \<Rightarrow> 'o) \<Rightarrow> 'c \<Rightarrow> ('c, 'o) copier \<Rightarrow> (addr option, 'o) copier" where
  "copy_ptr prj emb zero cp p h =
     (case p of
        None \<Rightarrow> Some (None, h)
      | Some a \<Rightarrow>
          (case mem_new (emb zero) h of
             (b, h1) \<Rightarrow>
               Option.bind (deref prj h1 a)
                 (\<lambda>c. Option.bind (cp c h1) (\<lambda>(c', h2). Some (Some b, mem_set b (emb c') h2)))))"

text \<open>
  A slice field: \<^verbatim>\<open>if in.F != nil { *out = make([]T, len(*in)); for i := range *in
  { (*in)[i].DeepCopyInto(&(*out)[i]) } }\<close>; \<open>copy_loop k\<close> is the first \<open>k\<close> iterations.
\<close>

definition copy_step ::
  "('o \<Rightarrow> 'c list option) \<Rightarrow> ('c list \<Rightarrow> 'o) \<Rightarrow> ('c, 'o) copier \<Rightarrow> slice \<Rightarrow> slice \<Rightarrow> nat \<Rightarrow>
    'o memory \<Rightarrow> 'o memory option" where
  "copy_step prj emb cp src dst i h =
     Option.bind (slice_elems prj h src)
       (\<lambda>xs. if i < length xs
             then Option.bind (cp (xs ! i) h) (\<lambda>(c', h'). slice_store prj emb dst i c' h')
             else None)"

primrec copy_loop ::
  "('o \<Rightarrow> 'c list option) \<Rightarrow> ('c list \<Rightarrow> 'o) \<Rightarrow> ('c, 'o) copier \<Rightarrow> slice \<Rightarrow> slice \<Rightarrow> nat \<Rightarrow>
    'o memory \<Rightarrow> 'o memory option" where
  "copy_loop prj emb cp src dst 0 h = Some h"
| "copy_loop prj emb cp src dst (Suc i) h =
     Option.bind (copy_loop prj emb cp src dst i h) (copy_step prj emb cp src dst i)"

definition copy_slice ::
  "('o \<Rightarrow> 'c list option) \<Rightarrow> ('c list \<Rightarrow> 'o) \<Rightarrow> 'c \<Rightarrow> ('c, 'o) copier \<Rightarrow> (slice option, 'o) copier" where
  "copy_slice prj emb zero cp s h =
     (case s of
        None \<Rightarrow> Some (None, h)
      | Some src \<Rightarrow>
          (case make_slice emb zero (sl_len src) h of
             (dst, h1) \<Rightarrow>
               Option.bind (copy_loop prj emb cp src dst (sl_len src) h1) (\<lambda>h2. Some (Some dst, h2))))"

text \<open>A slice of strings: \<^verbatim>\<open>*out = make([]string, len(*in)); copy(*out, *in)\<close>.\<close>

definition copy_strings ::
  "('o \<Rightarrow> string list option) \<Rightarrow> (string list \<Rightarrow> 'o) \<Rightarrow> (slice option, 'o) copier" where
  "copy_strings prj emb s h =
     (case s of
        None \<Rightarrow> Some (None, h)
      | Some src \<Rightarrow>
          (case make_slice emb [] (sl_len src) h of
             (dst, h1) \<Rightarrow>
               Option.bind (slice_elems prj h1 src)
                 (\<lambda>xs. Option.bind (deref prj h1 (sl_arr dst))
                   (\<lambda>ys. Some (Some dst, mem_set (sl_arr dst) (emb (xs @ drop (length xs) ys)) h1)))))"

text \<open>
  A map field: \<^verbatim>\<open>*out = make(map[string]string, len(*in)); for key, val := range *in
  { (*out)[key] = val }\<close>, in the order \<open>order\<close> that \<^verbatim>\<open>range\<close> happens to take.
\<close>

definition copy_map ::
  "((string, string) fmap \<Rightarrow> string list) \<Rightarrow> ('o \<Rightarrow> (string, string) fmap option) \<Rightarrow>
    ((string, string) fmap \<Rightarrow> 'o) \<Rightarrow> (addr option, 'o) copier" where
  "copy_map order prj emb p h =
     (case p of
        None \<Rightarrow> Some (None, h)
      | Some a \<Rightarrow>
          (case mem_new (emb fmempty) h of
             (b, h1) \<Rightarrow>
               Option.bind (deref prj h1 a)
                 (\<lambda>m. Some (Some b,
                    mem_set b (emb (fold (\<lambda>k acc. fmupd k (the (fmlookup m k)) acc) (order m) fmempty)) h1))))"

text \<open>What these references denote, and what is read on the way.\<close>

definition view_ptr :: "('o \<Rightarrow> 'c option) \<Rightarrow> ('o memory \<Rightarrow> 'c \<Rightarrow> 'v option) \<Rightarrow> 'o memory \<Rightarrow> addr option \<Rightarrow> 'v option option" where
  "view_ptr prj vw h p =
     (case p of None \<Rightarrow> Some None | Some a \<Rightarrow> map_option Some (Option.bind (deref prj h a) (vw h)))"

definition reach_ptr :: "('o \<Rightarrow> 'c option) \<Rightarrow> ('o memory \<Rightarrow> 'c \<Rightarrow> addr list) \<Rightarrow> 'o memory \<Rightarrow> addr option \<Rightarrow> addr list" where
  "reach_ptr prj rc h p =
     (case p of None \<Rightarrow> [] | Some a \<Rightarrow> a # (case deref prj h a of None \<Rightarrow> [] | Some c \<Rightarrow> rc h c))"

definition view_slice ::
  "('o \<Rightarrow> 'c list option) \<Rightarrow> ('o memory \<Rightarrow> 'c \<Rightarrow> 'v option) \<Rightarrow> 'o memory \<Rightarrow> slice option \<Rightarrow> 'v list option option" where
  "view_slice prj vw h s =
     (case s of
        None \<Rightarrow> Some None
      | Some s \<Rightarrow> map_option Some (Option.bind (slice_elems prj h s) (\<lambda>xs. those (List.map (vw h) xs))))"

definition reach_slice ::
  "('o \<Rightarrow> 'c list option) \<Rightarrow> ('o memory \<Rightarrow> 'c \<Rightarrow> addr list) \<Rightarrow> 'o memory \<Rightarrow> slice option \<Rightarrow> addr list" where
  "reach_slice prj rc h s =
     (case s of
        None \<Rightarrow> []
      | Some s \<Rightarrow> sl_arr s # (case slice_elems prj h s of None \<Rightarrow> [] | Some xs \<Rightarrow> concat (List.map (rc h) xs)))"

text \<open>A value without references, such as a string.\<close>

definition copy_flat :: "('c, 'o) copier" where "copy_flat c h = Some (c, h)"
definition view_flat :: "'o memory \<Rightarrow> 'c \<Rightarrow> 'c option" where "view_flat h c = Some c"
definition reach_flat :: "'o memory \<Rightarrow> 'c \<Rightarrow> addr list" where "reach_flat h c = []"

section \<open>The contract of a deep copy\<close>

text \<open>
  \<open>c'\<close> in \<open>h'\<close> is a fresh copy of deep value \<open>v\<close>: it denotes \<open>v\<close>, everything it reaches was
  allocated since \<open>h\<close>, no object is reached twice, and \<open>h\<close> itself was not written.
\<close>

definition fresh_copy ::
  "('o memory \<Rightarrow> 'c \<Rightarrow> 'v option) \<Rightarrow> ('o memory \<Rightarrow> 'c \<Rightarrow> addr list) \<Rightarrow> 'o memory \<Rightarrow> 'v \<Rightarrow> 'c \<Rightarrow> 'o memory \<Rightarrow> bool" where
  "fresh_copy vw rc h v c' h' \<longleftrightarrow>
     mem_ok h' \<and> mem_ext h h' \<and> vw h' c' = Some v \<and>
     set (rc h' c') \<subseteq> {mem_next h..} \<and> distinct (rc h' c')"

lemma fresh_copyI [intro?]:
  "mem_ok h' \<Longrightarrow> mem_ext h h' \<Longrightarrow> vw h' c' = Some v \<Longrightarrow> set (rc h' c') \<subseteq> {mem_next h..} \<Longrightarrow>
    distinct (rc h' c') \<Longrightarrow> fresh_copy vw rc h v c' h'"
  by (simp add: fresh_copy_def)

locale deep_copier =
  fixes copy :: "('c, 'o) copier"
    and vw :: "'o memory \<Rightarrow> 'c \<Rightarrow> 'v option"
    and rc :: "'o memory \<Rightarrow> 'c \<Rightarrow> addr list"
  assumes copies: "mem_ok h \<Longrightarrow> vw h c = Some v \<Longrightarrow> \<exists>c' h'. copy c h = Some (c', h') \<and> fresh_copy vw rc h v c' h'"
    and view_local: "vw h c = Some v \<Longrightarrow> \<forall>a \<in> set (rc h c). mem_at h' a = mem_at h a \<Longrightarrow>
      vw h' c = Some v \<and> rc h' c = rc h c"
    and reach_old: "mem_ok h \<Longrightarrow> vw h c = Some v \<Longrightarrow> a \<in> set (rc h c) \<Longrightarrow> a < mem_next h"
begin

lemma view_ext: "mem_ok h \<Longrightarrow> vw h c = Some v \<Longrightarrow> mem_ext h h' \<Longrightarrow> vw h' c = Some v \<and> rc h' c = rc h c"
  using view_local reach_old mem_ext_at by blast

text \<open>No writer of the copy is seen through the original, and the other way round.\<close>

lemma copy_isolates:
  assumes ok: "mem_ok h" and v: "vw h c = Some v" and cp: "copy c h = Some (c', h')"
  shows "fresh_copy vw rc h v c' h'"
    "\<forall>a. a \<notin> set (rc h' c') \<longrightarrow> mem_at h'' a = mem_at h' a \<Longrightarrow> vw h'' c = Some v"
    "\<forall>a. a \<notin> set (rc h c) \<longrightarrow> mem_at h'' a = mem_at h' a \<Longrightarrow> vw h'' c' = Some v"
proof -
  show fc: "fresh_copy vw rc h v c' h'" using copies [OF ok v] cp by auto
  then have ext: "mem_ext h h'" and v': "vw h' c' = Some v" and fresh: "set (rc h' c') \<subseteq> {mem_next h..}"
    by (simp_all add: fresh_copy_def)
  have old: "vw h' c = Some v" "rc h' c = rc h c" using view_ext [OF ok v ext] by auto
  have lt: "a < mem_next h" if "a \<in> set (rc h c)" for a using reach_old [OF ok v that] .
  show "vw h'' c = Some v" if "\<forall>a. a \<notin> set (rc h' c') \<longrightarrow> mem_at h'' a = mem_at h' a"
  proof -
    have "\<forall>a \<in> set (rc h' c). mem_at h'' a = mem_at h' a" using that lt fresh old(2) by fastforce
    then show ?thesis using view_local [OF old(1)] by blast
  qed
  show "vw h'' c' = Some v" if "\<forall>a. a \<notin> set (rc h c) \<longrightarrow> mem_at h'' a = mem_at h' a"
  proof -
    have "\<forall>a \<in> set (rc h' c'). mem_at h'' a = mem_at h' a" using that lt fresh by fastforce
    then show ?thesis using view_local [OF v'] by blast
  qed
qed

end

section \<open>Contracts of the parts give the contract of the whole\<close>

lemma deep_copier_flat: "deep_copier copy_flat view_flat reach_flat"
  by unfold_locales (auto simp: copy_flat_def view_flat_def reach_flat_def fresh_copy_def)

lemma deref_new: "mem_ok h \<Longrightarrow> mem_new ob h = (b, h1) \<Longrightarrow> deref prj h a = Some c \<Longrightarrow> deref prj h1 a = Some c"
  by (auto simp: mem_new_def mem_ok_def deref_def bind_eq_Some_conv split: if_splits)

lemma deref_set [simp]: "deref prj (mem_set b ob h) a = (if a = b then prj ob else deref prj h a)"
  by (simp add: deref_def)

lemma deref_cong: "mem_at h' a = mem_at h a \<Longrightarrow> deref prj h' a = deref prj h a"
  by (simp add: deref_def)

lemma deref_old: "mem_ok h \<Longrightarrow> deref prj h a = Some c \<Longrightarrow> a < mem_next h"
  by (auto simp: deref_def mem_ok_def bind_eq_Some_conv)

lemma slice_elems_cong: "mem_at h' (sl_arr s) = mem_at h (sl_arr s) \<Longrightarrow> slice_elems prj h' s = slice_elems prj h s"
  by (simp add: slice_elems_def deref_def)

lemma slice_elems_old: "mem_ok h \<Longrightarrow> slice_elems prj h s = Some xs \<Longrightarrow> sl_arr s < mem_next h"
  by (auto simp: slice_elems_def bind_eq_Some_conv intro: deref_old split: if_splits)

lemma deep_copier_ptr:
  assumes d: "deep_copier cp vw rc" and prj: "\<And>c. prj (emb c) = Some c"
  shows "deep_copier (copy_ptr prj emb zero cp) (view_ptr prj vw) (reach_ptr prj rc)"
proof
  fix h p v assume ok: "mem_ok h" and v: "view_ptr prj vw h p = Some v"
  show "\<exists>c' h'. copy_ptr prj emb zero cp p h = Some (c', h') \<and>
    fresh_copy (view_ptr prj vw) (reach_ptr prj rc) h v c' h'"
  proof (cases p)
    case None
    with ok v show ?thesis by (simp add: copy_ptr_def view_ptr_def reach_ptr_def fresh_copy_def)
  next
    case (Some a)
    with v obtain c w where c: "deref prj h a = Some c" "vw h c = Some w" "v = Some w"
      by (auto simp: view_ptr_def bind_eq_Some_conv)
    obtain b h1 where new: "mem_new (emb zero) h = (b, h1)" by fastforce
    then have b: "b = mem_next h" "mem_next h1 = Suc b" by (auto simp: mem_new_def)
    note ok1 = mem_new_ok [OF new ok] and ext1 = mem_new_ext [OF new]
    have "vw h1 c = Some w" using deep_copier.view_ext [OF d ok c(2) ext1] by simp
    from deep_copier.copies [OF d ok1 this] obtain c' h2 where
      cp: "cp c h1 = Some (c', h2)" and fc: "fresh_copy vw rc h1 w c' h2" by blast
    then have ok2: "mem_ok h2" and ext2: "mem_ext h1 h2" and v2: "vw h2 c' = Some w"
      and fresh: "set (rc h2 c') \<subseteq> {Suc b..}" and dist: "distinct (rc h2 c')"
      by (simp_all add: fresh_copy_def b)
    define h3 where "h3 = mem_set b (emb c') h2"
    have v3: "vw h3 c' = Some w \<and> rc h3 c' = rc h2 c'"
      by (rule deep_copier.view_local [OF d v2]) (use fresh in \<open>auto simp: h3_def\<close>)
    have "copy_ptr prj emb zero cp p h = Some (Some b, h3)"
      by (simp add: copy_ptr_def Some new deref_new [OF ok new c(1)] cp h3_def)
    moreover have "fresh_copy (view_ptr prj vw) (reach_ptr prj rc) h v (Some b) h3"
    proof
      show "mem_ok h3" using mem_set_ok [OF ok2] mem_ext_next [OF ext2] by (simp add: h3_def b)
      show "mem_ext h h3" using mem_ext_trans [OF ext1 ext2] by (simp add: h3_def mem_set_ext b)
      have "deref prj h3 b = Some c'" by (simp add: h3_def prj)
      then show "view_ptr prj vw h3 (Some b) = Some v" "set (reach_ptr prj rc h3 (Some b)) \<subseteq> {mem_next h..}"
        "distinct (reach_ptr prj rc h3 (Some b))"
        using v3 fresh dist c(3) b(1) by (auto simp: view_ptr_def reach_ptr_def)
    qed
    ultimately show ?thesis by blast
  qed
next
  fix h p v h' assume v: "view_ptr prj vw h p = Some v"
    and same: "\<forall>a \<in> set (reach_ptr prj rc h p). mem_at (h' :: _ memory) a = mem_at h a"
  show "view_ptr prj vw h' p = Some v \<and> reach_ptr prj rc h' p = reach_ptr prj rc h p"
  proof (cases p)
    case (Some a)
    with v obtain c w where c: "deref prj h a = Some c" "vw h c = Some w" "v = Some w"
      by (auto simp: view_ptr_def bind_eq_Some_conv)
    then have "deref prj h' a = Some c" using same Some by (simp add: reach_ptr_def deref_def)
    then show ?thesis using c Some same deep_copier.view_local [OF d c(2), of h']
      by (simp add: view_ptr_def reach_ptr_def)
  qed (use v in \<open>simp add: view_ptr_def reach_ptr_def\<close>)
next
  fix h p v a assume "mem_ok h" "view_ptr prj vw h p = Some v" "a \<in> set (reach_ptr prj rc h p)"
  then show "a < mem_next h"
    by (auto simp: view_ptr_def reach_ptr_def bind_eq_Some_conv split: option.splits
        intro: deref_old deep_copier.reach_old [OF d])
qed

text \<open>Two parts, one after the other.\<close>

definition copy_pair :: "('a, 'o) copier \<Rightarrow> ('b, 'o) copier \<Rightarrow> ('a \<times> 'b, 'o) copier" where
  "copy_pair cp1 cp2 p h =
     Option.bind (cp1 (fst p) h) (\<lambda>(x, h1). Option.bind (cp2 (snd p) h1) (\<lambda>(y, h2). Some ((x, y), h2)))"

definition view_pair where
  "view_pair vw1 vw2 h p = Option.bind (vw1 h (fst p)) (\<lambda>v. map_option (Pair v) (vw2 h (snd p)))"

definition reach_pair where "reach_pair rc1 rc2 h p = rc1 h (fst p) @ rc2 h (snd p)"

lemma view_pair_Some:
  "view_pair vw1 vw2 h p = Some v \<longleftrightarrow> vw1 h (fst p) = Some (fst v) \<and> vw2 h (snd p) = Some (snd v)"
  by (cases v) (auto simp: view_pair_def bind_eq_Some_conv)

lemma deep_copier_pair:
  assumes d1: "deep_copier cp1 vw1 rc1" and d2: "deep_copier cp2 vw2 rc2"
  shows "deep_copier (copy_pair cp1 cp2) (view_pair vw1 vw2) (reach_pair rc1 rc2)"
proof
  fix h p v assume ok: "mem_ok h" and "view_pair vw1 vw2 h p = Some v"
  then have p: "vw1 h (fst p) = Some (fst v)" "vw2 h (snd p) = Some (snd v)" by (simp_all add: view_pair_Some)
  from deep_copier.copies [OF d1 ok p(1)] obtain x h1 where
    cp1: "cp1 (fst p) h = Some (x, h1)" and fc1: "fresh_copy vw1 rc1 h (fst v) x h1" by blast
  then have ok1: "mem_ok h1" and ext1: "mem_ext h h1" and v1: "vw1 h1 x = Some (fst v)"
    by (simp_all add: fresh_copy_def)
  have "vw2 h1 (snd p) = Some (snd v)" using deep_copier.view_ext [OF d2 ok p(2) ext1] by simp
  from deep_copier.copies [OF d2 ok1 this] obtain y h2 where
    cp2: "cp2 (snd p) h1 = Some (y, h2)" and fc2: "fresh_copy vw2 rc2 h1 (snd v) y h2" by blast
  then have ext2: "mem_ext h1 h2" by (simp add: fresh_copy_def)
  have v2: "vw1 h2 x = Some (fst v)" "rc1 h2 x = rc1 h1 x" using deep_copier.view_ext [OF d1 ok1 v1 ext2] by auto
  have "a < mem_next h1" if "a \<in> set (rc1 h1 x)" for a using deep_copier.reach_old [OF d1 ok1 v1 that] .
  then have "set (rc1 h1 x) \<inter> set (rc2 h2 y) = {}" using fc2 by (fastforce simp: fresh_copy_def)
  moreover have "set (rc2 h2 y) \<subseteq> {mem_next h..}" using fc2 mem_ext_next [OF ext1] by (auto simp: fresh_copy_def)
  ultimately have "fresh_copy (view_pair vw1 vw2) (reach_pair rc1 rc2) h v (x, y) h2"
    using fc1 fc2 v2 mem_ext_trans [OF ext1 ext2] by (simp add: fresh_copy_def view_pair_Some reach_pair_def)
  with cp1 cp2 show "\<exists>c' h'. copy_pair cp1 cp2 p h = Some (c', h') \<and>
      fresh_copy (view_pair vw1 vw2) (reach_pair rc1 rc2) h v c' h'" by (auto simp: copy_pair_def)
next
  fix h p v h' assume "view_pair vw1 vw2 h p = Some v"
    and "\<forall>a \<in> set (reach_pair rc1 rc2 h p). mem_at (h' :: _ memory) a = mem_at h a"
  then show "view_pair vw1 vw2 h' p = Some v \<and> reach_pair rc1 rc2 h' p = reach_pair rc1 rc2 h p"
    using deep_copier.view_local [OF d1, of h "fst p" _ h'] deep_copier.view_local [OF d2, of h "snd p" _ h']
    by (simp add: view_pair_Some reach_pair_def)
next
  fix h p v a assume "mem_ok h" "view_pair vw1 vw2 h p = Some v" "a \<in> set (reach_pair rc1 rc2 h p)"
  then show "a < mem_next h"
    by (auto simp: view_pair_Some reach_pair_def dest: deep_copier.reach_old [OF d1] deep_copier.reach_old [OF d2])
qed

text \<open>A struct whose references are its parts \<open>get c\<close>: copied by \<^verbatim>\<open>*out = *in\<close> and then part by part.\<close>

lemma deep_copier_struct:
  assumes d: "deep_copier cp vw rc"
    and cp: "\<And>c h. cp' c h = map_option (\<lambda>(x, h'). (put x c, h')) (cp (get c) h)"
    and vw: "\<And>h c. vw' h c = map_option (mk c) (vw h (get c))"
    and rc: "\<And>h c. rc' h c = rc h (get c)"
    and laws: "\<And>x c. get (put x c) = x" "\<And>x c. mk (put x c) = mk c"
  shows "deep_copier cp' vw' rc'"
proof
  fix h c v assume ok: "mem_ok h" and "vw' h c = Some v"
  then obtain w where w: "vw h (get c) = Some w" "v = mk c w" by (auto simp: vw)
  from deep_copier.copies [OF d ok w(1)] obtain x h' where
    "cp (get c) h = Some (x, h')" "fresh_copy vw rc h w x h'" by blast
  then have "cp' c h = Some (put x c, h') \<and> fresh_copy vw' rc' h v (put x c) h'"
    using w(2) by (simp add: cp fresh_copy_def vw rc laws)
  then show "\<exists>c' h'. cp' c h = Some (c', h') \<and> fresh_copy vw' rc' h v c' h'" by blast
qed (auto simp: vw rc dest: deep_copier.view_local [OF d] deep_copier.reach_old [OF d])

subsection \<open>Slices\<close>

lemma those_map_Some: "those (List.map f xs) = Some vs \<longleftrightarrow> List.map f xs = List.map Some vs"
proof (induction xs arbitrary: vs)
  case (Cons x xs)
  show ?case by (cases vs) (auto simp: Cons.IH split: option.splits)
qed auto

lemma view_slice_Some:
  "view_slice prj vw h s = Some v \<longleftrightarrow>
    (case s of None \<Rightarrow> v = None
     | Some s \<Rightarrow> (\<exists>xs vs. slice_elems prj h s = Some xs \<and> List.map (vw h) xs = List.map Some vs \<and> v = Some vs))"
  by (auto simp: view_slice_def bind_eq_Some_conv those_map_Some split: option.splits)

lemma slice_elems_ext:
  "mem_ok h \<Longrightarrow> mem_ext h h' \<Longrightarrow> slice_elems prj h s = Some xs \<Longrightarrow> slice_elems prj h' s = Some xs"
  using slice_elems_cong [of h' s h prj] mem_ext_at slice_elems_old by metis

lemma slice_elems_length: "slice_elems prj h s = Some xs \<Longrightarrow> length xs = sl_len s"
  by (auto simp: slice_elems_def bind_eq_Some_conv split: if_splits)

lemma slice_elems_whole: "deref prj h b = Some ys \<Longrightarrow> slice_elems prj h \<lparr>sl_arr = b, sl_off = 0, sl_len = length ys, sl_cap = m\<rparr> = Some ys"
  by (simp add: slice_elems_def)

lemma view_map_ext:
  assumes d: "deep_copier cp vw rc" and ok: "mem_ok h" and ext: "mem_ext h h'"
    and vs: "List.map (vw h) ys = List.map Some vs"
  shows "List.map (vw h') ys = List.map Some vs" "List.map (rc h') ys = List.map (rc h) ys"
proof -
  have "vw h' y = vw h y \<and> rc h' y = rc h y" if "y \<in> set ys" for y
  proof -
    from that vs have "vw h y \<in> set (List.map Some vs)" by (metis image_eqI list.set_map)
    then obtain v where "vw h y = Some v" by auto
    with deep_copier.view_ext [OF d ok _ ext] show ?thesis by metis
  qed
  then show "List.map (vw h') ys = List.map Some vs" "List.map (rc h') ys = List.map (rc h) ys"
    using vs by (auto cong: list.map_cong)
qed

lemma view_map_local:
  assumes d: "deep_copier cp vw rc" and vs: "List.map (vw h) ys = List.map Some vs"
    and same: "\<forall>a \<in> set (concat (List.map (rc h) ys)). mem_at (h' :: _ memory) a = mem_at h a"
  shows "List.map (vw h') ys = List.map Some vs" "List.map (rc h') ys = List.map (rc h) ys"
proof -
  have "vw h' y = vw h y \<and> rc h' y = rc h y" if "y \<in> set ys" for y
  proof -
    from that vs have "vw h y \<in> set (List.map Some vs)" by (metis image_eqI list.set_map)
    then obtain v where "vw h y = Some v" by auto
    moreover have "\<forall>a \<in> set (rc h y). mem_at h' a = mem_at h a" using same that by auto
    ultimately show ?thesis using deep_copier.view_local [OF d] by metis
  qed
  then show "List.map (vw h') ys = List.map Some vs" "List.map (rc h') ys = List.map (rc h) ys"
    using vs by (auto cong: list.map_cong)
qed

text \<open>The invariant of the loop, for the array \<open>b\<close> it fills in memory \<open>h\<close>.\<close>

definition loop_inv where
  "loop_inv prj vw rc h b n vs k hk \<longleftrightarrow>
     mem_ok hk \<and> mem_ext h hk \<and> b < mem_next hk \<and>
     (\<exists>ys. deref prj hk b = Some ys \<and> length ys = n \<and>
       List.map (vw hk) (take k ys) = List.map Some (take k vs) \<and>
       set (concat (List.map (rc hk) (take k ys))) \<subseteq> {Suc b..} \<and>
       distinct (concat (List.map (rc hk) (take k ys))))"

lemma copy_step_inv:
  assumes d: "deep_copier cp vw rc" and prj: "\<And>c. prj (emb c) = Some c"
    and ok: "mem_ok h" and src: "slice_elems prj h src = Some xs" "List.map (vw h) xs = List.map Some vs"
    and inv: "loop_inv prj vw rc h b n vs k hk" and k: "k < n" "length xs = n"
    and dst: "dst = \<lparr>sl_arr = b, sl_off = 0, sl_len = n, sl_cap = n\<rparr>" and b: "b = mem_next h"
  shows "\<exists>hk'. copy_step prj emb cp src dst k hk = Some hk' \<and> loop_inv prj vw rc h b n vs (Suc k) hk'"
proof -
  from inv obtain ys where ok1: "mem_ok hk" and ext1: "mem_ext h hk" and bk: "b < mem_next hk"
    and ys: "deref prj hk b = Some ys" "length ys = n" "List.map (vw hk) (take k ys) = List.map Some (take k vs)"
      "set (concat (List.map (rc hk) (take k ys))) \<subseteq> {Suc b..}" "distinct (concat (List.map (rc hk) (take k ys)))"
    by (auto simp: loop_inv_def)
  have len: "length vs = n" using arg_cong [OF src(2), of length] k(2) by simp
  have "vw hk (xs ! k) = Some (vs ! k)"
    using arg_cong [OF view_map_ext(1) [OF d ok ext1 src(2)], of "\<lambda>l. l ! k"] k len by simp
  from deep_copier.copies [OF d ok1 this] obtain c' h' where
    cp: "cp (xs ! k) hk = Some (c', h')" and fc: "fresh_copy vw rc hk (vs ! k) c' h'" by blast
  then have ok2: "mem_ok h'" and ext2: "mem_ext hk h'" and c': "vw h' c' = Some (vs ! k)"
      "set (rc h' c') \<subseteq> {mem_next hk..}" "distinct (rc h' c')"
    by (simp_all add: fresh_copy_def)
  have ysb: "deref prj h' b = Some ys" using ys(1) deref_cong mem_ext_at [OF ext2 bk] by metis
  define h'' where "h'' = mem_set b (emb (ys[k := c'])) h'"
  note old = view_map_ext [OF d ok1 ext2 ys(3)]
  have tk: "take (Suc k) (ys[k := c']) = take k ys @ [c']" "take (Suc k) vs = take k vs @ [vs ! k]"
    using k(1) ys(2) len by (simp_all add: take_Suc_conv_app_nth)
  define zs where "zs = take k ys @ [c']"
  have all: "List.map (vw h') zs = List.map Some (take (Suc k) vs)"
    using old(1) c'(1) by (simp add: zs_def tk(2))
  have reach: "concat (List.map (rc h') zs) = concat (List.map (rc hk) (take k ys)) @ rc h' c'"
    using arg_cong [OF old(2), of concat] by (simp add: zs_def del: map_eq_conv)
  have fresh: "set (concat (List.map (rc h') zs)) \<subseteq> {Suc b..}" using ys(4) c'(2) bk unfolding reach by auto
  have lt: "a < mem_next hk" if "a \<in> set (concat (List.map (rc hk) (take k ys)))" for a
  proof -
    from that obtain y where y: "y \<in> set (take k ys)" "a \<in> set (rc hk y)" by auto
    from y(1) ys(3) have "vw hk y \<in> set (List.map Some (take k vs))" by (metis image_eqI list.set_map)
    then show ?thesis using deep_copier.reach_old [OF d ok1 _ y(2)] by auto
  qed
  then have dist: "distinct (concat (List.map (rc h') zs))" using ys(5) c'(2,3) unfolding reach by fastforce
  have same: "\<forall>a \<in> set (concat (List.map (rc h') zs)). mem_at h'' a = mem_at h' a"
    using fresh by (auto simp: h''_def)
  have rch: "concat (List.map (rc h'') zs) = concat (List.map (rc h') zs)"
    using view_map_local(2) [OF d all same] by (rule arg_cong)
  have "loop_inv prj vw rc h b n vs (Suc k) h''"
    unfolding loop_inv_def
  proof (intro conjI exI)
    show "mem_ok h''" using mem_set_ok [OF ok2] bk mem_ext_next [OF ext2] by (simp add: h''_def)
    show "mem_ext h h''" using mem_ext_trans [OF ext1 ext2] b by (simp add: h''_def mem_set_ext)
    show "b < mem_next h''" using bk mem_ext_next [OF ext2] by (simp add: h''_def)
    show "deref prj h'' b = Some (ys[k := c'])" by (simp add: h''_def prj)
    show "List.map (vw h'') (take (Suc k) (ys[k := c'])) = List.map Some (take (Suc k) vs)"
      using view_map_local(1) [OF d all same] by (simp add: tk(1) zs_def)
    show "set (concat (List.map (rc h'') (take (Suc k) (ys[k := c'])))) \<subseteq> {Suc b..}"
      "distinct (concat (List.map (rc h'') (take (Suc k) (ys[k := c']))))"
      unfolding tk(1) zs_def [symmetric] rch by (fact fresh, fact dist)
  qed (use ys(2) in simp)
  moreover have "copy_step prj emb cp src dst k hk = Some h''"
    using k ys(2) by (simp add: copy_step_def slice_elems_ext [OF ok ext1 src(1)] cp slice_store_def dst ysb h''_def)
  ultimately show ?thesis by blast
qed

lemma copy_loop_inv:
  assumes d: "deep_copier cp vw rc" and prj: "\<And>c. prj (emb c) = Some c"
    and ok: "mem_ok h" and src: "slice_elems prj h src = Some xs" "List.map (vw h) xs = List.map Some vs"
    and n: "n = sl_len src" and mk: "make_slice emb zero n h = (dst, h1)" and k: "k \<le> n"
  shows "\<exists>hk. copy_loop prj emb cp src dst k h1 = Some hk \<and> loop_inv prj vw rc h (sl_arr dst) n vs k hk"
  using k
proof (induction k)
  case 0
  from mk have new: "mem_new (emb (replicate n zero)) h = (sl_arr dst, h1)"
    by (auto simp: make_slice_def split: prod.splits)
  then have "deref prj h1 (sl_arr dst) = Some (replicate n zero)" "sl_arr dst < mem_next h1"
    by (auto simp: mem_new_def deref_def prj)
  then show ?case using mem_new_ok [OF new ok] mem_new_ext [OF new] by (simp add: loop_inv_def)
next
  case (Suc k)
  then obtain hk where hk: "copy_loop prj emb cp src dst k h1 = Some hk"
      "loop_inv prj vw rc h (sl_arr dst) n vs k hk" by auto
  have dst: "dst = \<lparr>sl_arr = sl_arr dst, sl_off = 0, sl_len = n, sl_cap = n\<rparr>" "sl_arr dst = mem_next h"
    using mk by (auto simp: make_slice_def mem_new_def)
  from copy_step_inv [OF d prj ok src hk(2) _ _ dst] Suc.prems slice_elems_length [OF src(1)] n hk(1)
  show ?case by auto
qed

lemma reach_slice_eq:
  "slice_elems prj h s = Some xs \<Longrightarrow> reach_slice prj rc h (Some s) = sl_arr s # concat (List.map (rc h) xs)"
  by (simp add: reach_slice_def)

lemma deep_copier_slice:
  assumes d: "deep_copier cp vw rc" and prj: "\<And>c. prj (emb c) = Some c"
  shows "deep_copier (copy_slice prj emb zero cp) (view_slice prj vw) (reach_slice prj rc)"
proof
  fix h s v assume ok: "mem_ok h" and v: "view_slice prj vw h s = Some v"
  show "\<exists>c' h'. copy_slice prj emb zero cp s h = Some (c', h') \<and>
    fresh_copy (view_slice prj vw) (reach_slice prj rc) h v c' h'"
  proof (cases s)
    case None
    with ok v show ?thesis by (simp add: copy_slice_def view_slice_def reach_slice_def fresh_copy_def)
  next
    case (Some src)
    with v obtain xs vs where src: "slice_elems prj h src = Some xs" "List.map (vw h) xs = List.map Some vs"
      and v': "v = Some vs" by (auto simp: view_slice_Some)
    define n where "n = sl_len src"
    obtain dst h1 where mk: "make_slice emb zero n h = (dst, h1)" by fastforce
    have dst: "dst = \<lparr>sl_arr = mem_next h, sl_off = 0, sl_len = n, sl_cap = n\<rparr>"
      using mk by (auto simp: make_slice_def mem_new_def)
    from copy_loop_inv [OF d prj ok src n_def mk order_refl] obtain h2 where
      loop: "copy_loop prj emb cp src dst n h1 = Some h2" and inv: "loop_inv prj vw rc h (mem_next h) n vs n h2"
      by (auto simp: dst)
    have len: "length vs = n" using arg_cong [OF src(2), of length] slice_elems_length [OF src(1)] n_def by simp
    from inv len obtain ys where ys: "deref prj h2 (mem_next h) = Some ys" "length ys = n"
        "List.map (vw h2) ys = List.map Some vs" "set (concat (List.map (rc h2) ys)) \<subseteq> {Suc (mem_next h)..}"
        "distinct (concat (List.map (rc h2) ys))" and ok2: "mem_ok h2" and ext: "mem_ext h h2"
      by (auto simp: loop_inv_def)
    have el: "slice_elems prj h2 dst = Some ys" using slice_elems_whole [OF ys(1)] ys(2) dst by simp
    have "fresh_copy (view_slice prj vw) (reach_slice prj rc) h v (Some dst) h2"
    proof
      show "view_slice prj vw h2 (Some dst) = Some v" using el ys(3) v' by (simp add: view_slice_Some)
      show "set (reach_slice prj rc h2 (Some dst)) \<subseteq> {mem_next h..}" "distinct (reach_slice prj rc h2 (Some dst))"
        unfolding reach_slice_eq [OF el] using ys(4,5) by (auto simp: dst)
    qed (use ok2 ext in auto)
    moreover have "copy_slice prj emb zero cp s h = Some (Some dst, h2)"
      using mk loop by (simp add: copy_slice_def Some n_def)
    ultimately show ?thesis by blast
  qed
next
  fix h s v h' assume v: "view_slice prj vw h s = Some v"
    and same: "\<forall>a \<in> set (reach_slice prj rc h s). mem_at (h' :: _ memory) a = mem_at h a"
  show "view_slice prj vw h' s = Some v \<and> reach_slice prj rc h' s = reach_slice prj rc h s"
  proof (cases s)
    case (Some src)
    with v obtain xs vs where src: "slice_elems prj h src = Some xs" "List.map (vw h) xs = List.map Some vs"
      and v': "v = Some vs" by (auto simp: view_slice_Some)
    have "slice_elems prj h' src = Some xs"
      using slice_elems_cong [of h' src h prj] same src(1) by (simp add: Some reach_slice_def)
    moreover have "\<forall>a \<in> set (concat (List.map (rc h) xs)). mem_at h' a = mem_at h a"
      using same src(1) by (simp add: Some reach_slice_def)
    ultimately show ?thesis
      using view_map_local(1) [OF d src(2), of h'] arg_cong [OF view_map_local(2) [OF d src(2), of h'], of concat]
        src(1) v' by (simp add: Some view_slice_Some reach_slice_eq del: map_eq_conv)
  qed (use v in \<open>simp add: view_slice_def reach_slice_def\<close>)
next
  fix h s v a assume ok: "mem_ok h" and v: "view_slice prj vw h s = Some v" and a: "a \<in> set (reach_slice prj rc h s)"
  then obtain src xs vs where s: "s = Some src" and src: "slice_elems prj h src = Some xs"
      "List.map (vw h) xs = List.map Some vs"
    by (cases s) (auto simp: view_slice_Some reach_slice_def)
  show "a < mem_next h"
  proof (cases "a = sl_arr src")
    case False
    with a obtain x where x: "x \<in> set xs" "a \<in> set (rc h x)" by (auto simp: s reach_slice_eq [OF src(1)])
    from x(1) src(2) have "vw h x \<in> set (List.map Some vs)" by (metis image_eqI list.set_map)
    then show ?thesis using deep_copier.reach_old [OF d ok _ x(2)] by auto
  qed (use slice_elems_old [OF ok src(1)] in simp)
qed

subsection \<open>Strings and maps\<close>

lemma view_slice_flat: "view_slice prj view_flat h (Some s) = map_option Some (slice_elems prj h s)"
  by (cases "slice_elems prj h s") (simp_all add: view_slice_def view_flat_def those_map_Some)

lemma reach_slice_flat: "slice_elems prj h s = Some xs \<Longrightarrow> reach_slice prj reach_flat h (Some s) = [sl_arr s]"
  by (simp add: reach_slice_def reach_flat_def)

text \<open>Copying the strings at once gives what a loop of assignments would.\<close>

lemma deep_copier_strings:
  assumes prj: "\<And>c. prj (emb c) = Some c"
  shows "deep_copier (copy_strings prj emb) (view_slice prj view_flat) (reach_slice prj reach_flat)"
proof -
  note d = deep_copier_slice [where prj = prj and emb = emb, OF deep_copier_flat prj]
  show ?thesis
  proof
    fix h s v assume ok: "mem_ok h" and v: "view_slice prj view_flat h s = Some v"
    show "\<exists>c' h'. copy_strings prj emb s h = Some (c', h') \<and>
      fresh_copy (view_slice prj view_flat) (reach_slice prj reach_flat) h v c' h'"
    proof (cases s)
      case None
      with ok v show ?thesis by (simp add: copy_strings_def view_slice_def reach_slice_def fresh_copy_def)
    next
      case (Some src)
      with v obtain xs where xs: "slice_elems prj h src = Some xs" "v = Some xs"
        by (auto simp: view_slice_flat)
      obtain dst h1 where mk: "make_slice emb [] (sl_len src) h = (dst, h1)" by fastforce
      then have new: "mem_new (emb (replicate (sl_len src) [])) h = (sl_arr dst, h1)"
        and dst: "dst = \<lparr>sl_arr = mem_next h, sl_off = 0, sl_len = length xs, sl_cap = length xs\<rparr>"
        using slice_elems_length [OF xs(1)] by (auto simp: make_slice_def mem_new_def)
      note ok1 = mem_new_ok [OF new ok] and ext1 = mem_new_ext [OF new]
      have b: "deref prj h1 (sl_arr dst) = Some (replicate (sl_len src) [])" "mem_next h < mem_next h1"
        using new by (auto simp: mem_new_def deref_def prj)
      define h2 where "h2 = mem_set (mem_next h) (emb xs) h1"
      have el: "slice_elems prj h2 dst = Some xs" by (simp add: h2_def slice_elems_def dst prj)
      have "copy_strings prj emb s h = Some (Some dst, h2)"
        using slice_elems_length [OF xs(1)]
        by (simp add: copy_strings_def Some mk slice_elems_ext [OF ok ext1 xs(1)] b(1) h2_def) (simp add: dst)
      moreover have "fresh_copy (view_slice prj view_flat) (reach_slice prj reach_flat) h v (Some dst) h2"
      proof
        show "view_slice prj view_flat h2 (Some dst) = Some v" using el xs(2) by (simp add: view_slice_flat)
        show "mem_ok h2" using mem_set_ok [OF ok1 b(2)] by (simp add: h2_def)
        show "mem_ext h h2" using ext1 by (simp add: h2_def mem_set_ext)
      qed (simp_all add: reach_slice_flat [OF el], simp add: dst)
      ultimately show ?thesis by blast
    qed
  qed (use deep_copier.view_local [OF d] deep_copier.reach_old [OF d] in blast)+
qed

lemma fold_fmupd_lookup:
  "fmlookup (fold (\<lambda>k acc. fmupd k (the (fmlookup m k)) acc) ks acc) x =
    (if x \<in> set ks then Some (the (fmlookup m x)) else fmlookup acc x)"
  by (induction ks arbitrary: acc) auto

text \<open>Whatever the order of \<^verbatim>\<open>range\<close>, the loop copies the map.\<close>

lemma fold_fmupd_copy:
  assumes "set ks = fset (fmdom m)"
  shows "fold (\<lambda>k acc. fmupd k (the (fmlookup m k)) acc) ks fmempty = m"
  unfolding fmlookup_inject [symmetric]
proof (rule ext)
  fix x show "fmlookup (fold (\<lambda>k acc. fmupd k (the (fmlookup m k)) acc) ks fmempty) x = fmlookup m x"
    unfolding fold_fmupd_lookup assms
    by (cases "fmlookup m x") (simp_all add: fmdomI fmdom_notI)
qed

lemma deep_copier_map:
  assumes order: "\<And>m. set (order m) = fset (fmdom m)" and prj: "\<And>c. prj (emb c) = Some c"
  shows "deep_copier (copy_map order prj emb) (view_ptr prj view_flat) (reach_ptr prj reach_flat)"
proof -
  have "copy_map order prj emb = copy_ptr prj emb fmempty copy_flat"
    using fold_fmupd_copy [OF order]
    by (intro ext) (simp add: copy_map_def copy_ptr_def copy_flat_def split: option.splits prod.splits)
  with deep_copier_ptr [where prj = prj and emb = emb, OF deep_copier_flat prj] show ?thesis by simp
qed

end
