(* ===== verification/Deep_Copy.thy ===== *)
theory Deep_Copy
  imports Raven_Types Go_Memory
begin

text \<open>
  The generated deep copies, \<^verbatim>\<open>apis/raven/v1alpha1/zz_generated.deepcopy.go\<close> and
  \<^verbatim>\<open>apis/calico/v3/zz_generated.deepcopy.go\<close>, on the memory of \<^verbatim>\<open>Go_Memory\<close>.  The rest of the
  development treats API objects as values; this theory is what makes that sound: a copy denotes
  the same deep value, is made of newly allocated objects only and cannot be seen through the
  original.  A struct value is a record (suffix \<open>_cell\<close>) with addresses in its reference fields.
  A \<^verbatim>\<open>DeepCopyInto\<close> is a function from the struct \<^verbatim>\<open>*in\<close> to the struct left in \<^verbatim>\<open>*out\<close>; \<^verbatim>\<open>out\<close> is
  a place of its own in every call of the program (new memory, or a local variable).
\<close>

section \<open>The structs as they lie in memory\<close>

record endpoint_cell =
  c_NodeName :: string
  c_UnderNAT :: bool
  c_PublicIP :: string
  c_Config :: "addr option"

record nodeInfo_cell =
  c_ni_NodeName :: string
  c_ni_PrivateIP :: string
  c_ni_Subnets :: "slice option"

record gatewaySpec_cell =
  c_NodeSelector :: "addr option"
  c_ExposeType :: string
  c_Endpoints :: "slice option"

record gatewayStatus_cell =
  c_Nodes :: "slice option"
  c_ActiveEndpoint :: "addr option"

text \<open>
  \<^verbatim>\<open>metav1.ObjectMeta\<close>, \<^verbatim>\<open>metav1.ListMeta\<close> and \<^verbatim>\<open>metav1.LabelSelector\<close> are structs of apimachinery;
  \<open>'x\<close> is the type of their values.
\<close>

record 'x gateway_cell =
  c_Kind :: string
  c_APIVersion :: string
  c_ObjectMeta :: 'x
  c_Spec :: gatewaySpec_cell
  c_Status :: gatewayStatus_cell

record 'x list_cell =
  c_l_Kind :: string
  c_l_APIVersion :: string
  c_ListMeta :: 'x
  c_Items :: "slice option"

record 'x blockAffinity_cell =
  c_ba_Kind :: string
  c_ba_APIVersion :: string
  c_ba_ObjectMeta :: 'x
  c_ba_Spec :: blockAffinitySpec

text \<open>What an address can hold: a map, the array of a slice, or a struct.\<close>

datatype 'x obj =
    ObjMap "(string, string) fmap"
  | ObjStrings "string list"
  | ObjForeign 'x
  | ObjEndpoint endpoint_cell
  | ObjEndpoints "endpoint_cell list"
  | ObjNodeInfo nodeInfo_cell
  | ObjNodeInfos "nodeInfo_cell list"
  | ObjGatewaySpec gatewaySpec_cell
  | ObjGatewayStatus gatewayStatus_cell
  | ObjGateway "'x gateway_cell"
  | ObjGateways "'x gateway_cell list"
  | ObjGatewayList "'x list_cell"
  | ObjBlockAffinitySpec blockAffinitySpec
  | ObjBlockAffinity "'x blockAffinity_cell"
  | ObjBlockAffinities "'x blockAffinity_cell list"
  | ObjBlockAffinityList "'x list_cell"

named_theorems as_obj

definition as_Map where [as_obj]: "as_Map ob = (case ob of ObjMap m \<Rightarrow> Some m | _ \<Rightarrow> None)"
definition as_Strings where [as_obj]: "as_Strings ob = (case ob of ObjStrings m \<Rightarrow> Some m | _ \<Rightarrow> None)"
definition as_Foreign where [as_obj]: "as_Foreign ob = (case ob of ObjForeign m \<Rightarrow> Some m | _ \<Rightarrow> None)"
definition as_Endpoint where [as_obj]: "as_Endpoint ob = (case ob of ObjEndpoint m \<Rightarrow> Some m | _ \<Rightarrow> None)"
definition as_Endpoints where [as_obj]: "as_Endpoints ob = (case ob of ObjEndpoints m \<Rightarrow> Some m | _ \<Rightarrow> None)"
definition as_NodeInfo where [as_obj]: "as_NodeInfo ob = (case ob of ObjNodeInfo m \<Rightarrow> Some m | _ \<Rightarrow> None)"
definition as_NodeInfos where [as_obj]: "as_NodeInfos ob = (case ob of ObjNodeInfos m \<Rightarrow> Some m | _ \<Rightarrow> None)"
definition as_GatewaySpec where [as_obj]: "as_GatewaySpec ob = (case ob of ObjGatewaySpec m \<Rightarrow> Some m | _ \<Rightarrow> None)"
definition as_GatewayStatus where [as_obj]: "as_GatewayStatus ob = (case ob of ObjGatewayStatus m \<Rightarrow> Some m | _ \<Rightarrow> None)"
definition as_Gateway where [as_obj]: "as_Gateway ob = (case ob of ObjGateway m \<Rightarrow> Some m | _ \<Rightarrow> None)"
definition as_Gateways where [as_obj]: "as_Gateways ob = (case ob of ObjGateways m \<Rightarrow> Some m | _ \<Rightarrow> None)"
definition as_GatewayList where [as_obj]: "as_GatewayList ob = (case ob of ObjGatewayList m \<Rightarrow> Some m | _ \<Rightarrow> None)"
definition as_BlockAffinitySpec where
  [as_obj]: "as_BlockAffinitySpec ob = (case ob of ObjBlockAffinitySpec m \<Rightarrow> Some m | _ \<Rightarrow> None)"
definition as_BlockAffinity where [as_obj]: "as_BlockAffinity ob = (case ob of ObjBlockAffinity m \<Rightarrow> Some m | _ \<Rightarrow> None)"
definition as_BlockAffinities where
  [as_obj]: "as_BlockAffinities ob = (case ob of ObjBlockAffinities m \<Rightarrow> Some m | _ \<Rightarrow> None)"
definition as_BlockAffinityList where
  [as_obj]: "as_BlockAffinityList ob = (case ob of ObjBlockAffinityList m \<Rightarrow> Some m | _ \<Rightarrow> None)"

text \<open>
  What the copies use and this repository does not define: the order in which \<^verbatim>\<open>range\<close> visits a
  map, the zero struct and the copies of apimachinery.
\<close>

record 'x apimachinery =
  map_order :: "(string, string) fmap \<Rightarrow> string list"
  zero_foreign :: 'x
  ObjectMeta_DeepCopyInto :: "('x, 'x obj) copier"
  ListMeta_DeepCopyInto :: "('x, 'x obj) copier"
  LabelSelector_DeepCopyInto :: "('x, 'x obj) copier"

section \<open>The zero structs that \<^verbatim>\<open>new\<close> and \<^verbatim>\<open>make\<close> write\<close>

definition zero_endpoint :: endpoint_cell where
  "zero_endpoint = \<lparr>c_NodeName = [], c_UnderNAT = False, c_PublicIP = [], c_Config = None\<rparr>"

definition zero_nodeInfo :: nodeInfo_cell where
  "zero_nodeInfo = \<lparr>c_ni_NodeName = [], c_ni_PrivateIP = [], c_ni_Subnets = None\<rparr>"

definition zero_spec :: gatewaySpec_cell where
  "zero_spec = \<lparr>c_NodeSelector = None, c_ExposeType = [], c_Endpoints = None\<rparr>"

definition zero_status :: gatewayStatus_cell where
  "zero_status = \<lparr>c_Nodes = None, c_ActiveEndpoint = None\<rparr>"

definition zero_gateway :: "'x apimachinery \<Rightarrow> 'x gateway_cell" where
  "zero_gateway F = \<lparr>c_Kind = [], c_APIVersion = [], c_ObjectMeta = zero_foreign F, c_Spec = zero_spec,
     c_Status = zero_status\<rparr>"

definition zero_list :: "'x apimachinery \<Rightarrow> 'x list_cell" where
  "zero_list F = \<lparr>c_l_Kind = [], c_l_APIVersion = [], c_ListMeta = zero_foreign F, c_Items = None\<rparr>"

definition zero_baSpec :: blockAffinitySpec where
  "zero_baSpec = \<lparr>ba_State = [], ba_Node = [], ba_CIDR = [], ba_Deleted = []\<rparr>"

definition zero_blockAffinity :: "'x apimachinery \<Rightarrow> 'x blockAffinity_cell" where
  "zero_blockAffinity F = \<lparr>c_ba_Kind = [], c_ba_APIVersion = [], c_ba_ObjectMeta = zero_foreign F,
     c_ba_Spec = zero_baSpec\<rparr>"

section \<open>\<^verbatim>\<open>DeepCopyInto\<close>\<close>

definition Endpoint_DeepCopyInto :: "'x apimachinery \<Rightarrow> (endpoint_cell, 'x obj) copier" where
  "Endpoint_DeepCopyInto F inn h =
     (let out = inn in
      Option.bind (copy_map (map_order F) as_Map ObjMap (c_Config inn) h)
        (\<lambda>(m, h1). Some (out\<lparr>c_Config := m\<rparr>, h1)))"

definition NodeInfo_DeepCopyInto :: "(nodeInfo_cell, 'x obj) copier" where
  "NodeInfo_DeepCopyInto inn h =
     (let out = inn in
      Option.bind (copy_strings as_Strings ObjStrings (c_ni_Subnets inn) h)
        (\<lambda>(s, h1). Some (out\<lparr>c_ni_Subnets := s\<rparr>, h1)))"

definition GatewaySpec_DeepCopyInto :: "'x apimachinery \<Rightarrow> (gatewaySpec_cell, 'x obj) copier" where
  "GatewaySpec_DeepCopyInto F inn h =
     (let out = inn in
      Option.bind (copy_ptr as_Foreign ObjForeign (zero_foreign F) (LabelSelector_DeepCopyInto F) (c_NodeSelector inn) h)
        (\<lambda>(p, h1). let out = out\<lparr>c_NodeSelector := p\<rparr> in
          Option.bind (copy_slice as_Endpoints ObjEndpoints zero_endpoint (Endpoint_DeepCopyInto F) (c_Endpoints inn) h1)
            (\<lambda>(s, h2). Some (out\<lparr>c_Endpoints := s\<rparr>, h2))))"

definition GatewayStatus_DeepCopyInto :: "'x apimachinery \<Rightarrow> (gatewayStatus_cell, 'x obj) copier" where
  "GatewayStatus_DeepCopyInto F inn h =
     (let out = inn in
      Option.bind (copy_slice as_NodeInfos ObjNodeInfos zero_nodeInfo NodeInfo_DeepCopyInto (c_Nodes inn) h)
        (\<lambda>(s, h1). let out = out\<lparr>c_Nodes := s\<rparr> in
          Option.bind (copy_ptr as_Endpoint ObjEndpoint zero_endpoint (Endpoint_DeepCopyInto F) (c_ActiveEndpoint inn) h1)
            (\<lambda>(p, h2). Some (out\<lparr>c_ActiveEndpoint := p\<rparr>, h2))))"

definition Gateway_DeepCopyInto :: "'x apimachinery \<Rightarrow> ('x gateway_cell, 'x obj) copier" where
  "Gateway_DeepCopyInto F inn h =
     (let out = inn; out = out\<lparr>c_Kind := c_Kind inn, c_APIVersion := c_APIVersion inn\<rparr> in
      Option.bind (ObjectMeta_DeepCopyInto F (c_ObjectMeta inn) h)
        (\<lambda>(m, h1). let out = out\<lparr>c_ObjectMeta := m\<rparr> in
          Option.bind (GatewaySpec_DeepCopyInto F (c_Spec inn) h1)
            (\<lambda>(s, h2). let out = out\<lparr>c_Spec := s\<rparr> in
              Option.bind (GatewayStatus_DeepCopyInto F (c_Status inn) h2)
                (\<lambda>(t, h3). Some (out\<lparr>c_Status := t\<rparr>, h3)))))"

definition GatewayList_DeepCopyInto :: "'x apimachinery \<Rightarrow> ('x list_cell, 'x obj) copier" where
  "GatewayList_DeepCopyInto F inn h =
     (let out = inn; out = out\<lparr>c_l_Kind := c_l_Kind inn, c_l_APIVersion := c_l_APIVersion inn\<rparr> in
      Option.bind (ListMeta_DeepCopyInto F (c_ListMeta inn) h)
        (\<lambda>(m, h1). let out = out\<lparr>c_ListMeta := m\<rparr> in
          Option.bind (copy_slice as_Gateways ObjGateways (zero_gateway F) (Gateway_DeepCopyInto F) (c_Items inn) h1)
            (\<lambda>(s, h2). Some (out\<lparr>c_Items := s\<rparr>, h2))))"

definition BlockAffinitySpec_DeepCopyInto :: "(blockAffinitySpec, 'x obj) copier" where
  "BlockAffinitySpec_DeepCopyInto inn h = (let out = inn in Some (out, h))"

definition BlockAffinity_DeepCopyInto :: "'x apimachinery \<Rightarrow> ('x blockAffinity_cell, 'x obj) copier" where
  "BlockAffinity_DeepCopyInto F inn h =
     (let out = inn; out = out\<lparr>c_ba_Kind := c_ba_Kind inn, c_ba_APIVersion := c_ba_APIVersion inn\<rparr> in
      Option.bind (ObjectMeta_DeepCopyInto F (c_ba_ObjectMeta inn) h)
        (\<lambda>(m, h1). let out = out\<lparr>c_ba_ObjectMeta := m\<rparr> in Some (out\<lparr>c_ba_Spec := c_ba_Spec inn\<rparr>, h1)))"

definition BlockAffinityList_DeepCopyInto :: "'x apimachinery \<Rightarrow> ('x list_cell, 'x obj) copier" where
  "BlockAffinityList_DeepCopyInto F inn h =
     (let out = inn; out = out\<lparr>c_l_Kind := c_l_Kind inn, c_l_APIVersion := c_l_APIVersion inn\<rparr> in
      Option.bind (ListMeta_DeepCopyInto F (c_ListMeta inn) h)
        (\<lambda>(m, h1). let out = out\<lparr>c_ListMeta := m\<rparr> in
          Option.bind (copy_slice as_BlockAffinities ObjBlockAffinities (zero_blockAffinity F)
              (BlockAffinity_DeepCopyInto F) (c_Items inn) h1)
            (\<lambda>(s, h2). Some (out\<lparr>c_Items := s\<rparr>, h2))))"

section \<open>\<^verbatim>\<open>DeepCopy\<close>: nil gives nil, otherwise a new struct\<close>

definition Endpoint_DeepCopy :: "'x apimachinery \<Rightarrow> (addr option, 'x obj) copier" where
  "Endpoint_DeepCopy F = copy_ptr as_Endpoint ObjEndpoint zero_endpoint (Endpoint_DeepCopyInto F)"

definition NodeInfo_DeepCopy :: "(addr option, 'x obj) copier" where
  "NodeInfo_DeepCopy = copy_ptr as_NodeInfo ObjNodeInfo zero_nodeInfo NodeInfo_DeepCopyInto"

definition GatewaySpec_DeepCopy :: "'x apimachinery \<Rightarrow> (addr option, 'x obj) copier" where
  "GatewaySpec_DeepCopy F = copy_ptr as_GatewaySpec ObjGatewaySpec zero_spec (GatewaySpec_DeepCopyInto F)"

definition GatewayStatus_DeepCopy :: "'x apimachinery \<Rightarrow> (addr option, 'x obj) copier" where
  "GatewayStatus_DeepCopy F = copy_ptr as_GatewayStatus ObjGatewayStatus zero_status (GatewayStatus_DeepCopyInto F)"

definition Gateway_DeepCopy :: "'x apimachinery \<Rightarrow> (addr option, 'x obj) copier" where
  "Gateway_DeepCopy F = copy_ptr as_Gateway ObjGateway (zero_gateway F) (Gateway_DeepCopyInto F)"

definition GatewayList_DeepCopy :: "'x apimachinery \<Rightarrow> (addr option, 'x obj) copier" where
  "GatewayList_DeepCopy F = copy_ptr as_GatewayList ObjGatewayList (zero_list F) (GatewayList_DeepCopyInto F)"

definition BlockAffinitySpec_DeepCopy :: "(addr option, 'x obj) copier" where
  "BlockAffinitySpec_DeepCopy =
     copy_ptr as_BlockAffinitySpec ObjBlockAffinitySpec zero_baSpec BlockAffinitySpec_DeepCopyInto"

definition BlockAffinity_DeepCopy :: "'x apimachinery \<Rightarrow> (addr option, 'x obj) copier" where
  "BlockAffinity_DeepCopy F =
     copy_ptr as_BlockAffinity ObjBlockAffinity (zero_blockAffinity F) (BlockAffinity_DeepCopyInto F)"

definition BlockAffinityList_DeepCopy :: "'x apimachinery \<Rightarrow> (addr option, 'x obj) copier" where
  "BlockAffinityList_DeepCopy F =
     copy_ptr as_BlockAffinityList ObjBlockAffinityList (zero_list F) (BlockAffinityList_DeepCopyInto F)"

text \<open>
  \<^verbatim>\<open>DeepCopyObject\<close> turns the pointer into an interface value; a nil pointer must become the nil
  interface and not an interface that holds a nil pointer.
\<close>

datatype kind =
    KEndpoint | KNodeInfo | KGatewaySpec | KGatewayStatus | KGateway | KGatewayList
  | KBlockAffinitySpec | KBlockAffinity | KBlockAffinityList

datatype runtime_object = NilObject | ObjectOf kind "addr option"

definition as_object :: "kind \<Rightarrow> addr option \<Rightarrow> runtime_object" where
  "as_object k c = (if c \<noteq> None then ObjectOf k c else NilObject)"

definition Gateway_DeepCopyObject :: "'x apimachinery \<Rightarrow> addr option \<Rightarrow> 'x obj memory \<Rightarrow> (runtime_object \<times> 'x obj memory) option" where
  "Gateway_DeepCopyObject F p h = map_option (\<lambda>(c, h'). (as_object KGateway c, h')) (Gateway_DeepCopy F p h)"

definition GatewayList_DeepCopyObject :: "'x apimachinery \<Rightarrow> addr option \<Rightarrow> 'x obj memory \<Rightarrow> (runtime_object \<times> 'x obj memory) option" where
  "GatewayList_DeepCopyObject F p h = map_option (\<lambda>(c, h'). (as_object KGatewayList c, h')) (GatewayList_DeepCopy F p h)"

definition BlockAffinity_DeepCopyObject :: "'x apimachinery \<Rightarrow> addr option \<Rightarrow> 'x obj memory \<Rightarrow> (runtime_object \<times> 'x obj memory) option" where
  "BlockAffinity_DeepCopyObject F p h =
     map_option (\<lambda>(c, h'). (as_object KBlockAffinity c, h')) (BlockAffinity_DeepCopy F p h)"

definition BlockAffinityList_DeepCopyObject :: "'x apimachinery \<Rightarrow> addr option \<Rightarrow> 'x obj memory \<Rightarrow> (runtime_object \<times> 'x obj memory) option" where
  "BlockAffinityList_DeepCopyObject F p h =
     map_option (\<lambda>(c, h'). (as_object KBlockAffinityList c, h')) (BlockAffinityList_DeepCopy F p h)"

end
