(* ===== verification/Deep_Copy_Spec.thy ===== *)
theory Deep_Copy_Spec
  imports Deep_Copy "HOL-Library.Char_ord" "HOL-Library.List_Lexorder"
begin

text \<open>
  The generated deep copies meet the contract \<open>deep_copier\<close>: the deep values of the API
  structs, the contract of every \<^verbatim>\<open>DeepCopyInto\<close> from the contracts of its parts, and the two
  properties: copying is type safe, and a copy and its original cannot be seen through each
  other.
\<close>

section \<open>Deep values\<close>

text \<open>
  What apimachinery's structs denote and reach; \<open>'v\<close> is the type of their deep values.  The
  hypothesis \<open>lawful\<close> says that \<^verbatim>\<open>range\<close> visits every key of a map and that apimachinery's own
  copies are deep copies, as their documentation says.
\<close>

record ('x, 'v) meaning =
  om_view :: "'x obj memory \<Rightarrow> 'x \<Rightarrow> 'v option"
  om_reach :: "'x obj memory \<Rightarrow> 'x \<Rightarrow> addr list"
  lm_view :: "'x obj memory \<Rightarrow> 'x \<Rightarrow> 'v option"
  lm_reach :: "'x obj memory \<Rightarrow> 'x \<Rightarrow> addr list"
  ls_view :: "'x obj memory \<Rightarrow> 'x \<Rightarrow> 'v option"
  ls_reach :: "'x obj memory \<Rightarrow> 'x \<Rightarrow> addr list"

definition lawful_apimachinery :: "'x apimachinery \<Rightarrow> ('x, 'v) meaning \<Rightarrow> bool" where
  "lawful_apimachinery F M \<longleftrightarrow>
     (\<forall>m. set (map_order F m) = fset (fmdom m)) \<and>
     deep_copier (ObjectMeta_DeepCopyInto F) (om_view M) (om_reach M) \<and>
     deep_copier (ListMeta_DeepCopyInto F) (lm_view M) (lm_reach M) \<and>
     deep_copier (LabelSelector_DeepCopyInto F) (ls_view M) (ls_reach M)"

text \<open>Unlike the values of \<^verbatim>\<open>Raven_Types\<close>, these tell a nil slice from an empty one.\<close>

type_synonym node_value = "string \<times> string \<times> string list option"
type_synonym 'v spec_value = "'v option \<times> string \<times> endpoint list option"
type_synonym status_value = "node_value list option \<times> endpoint option"
type_synonym 'v gateway_value = "string \<times> string \<times> 'v \<times> 'v spec_value \<times> status_value"
type_synonym ('v, 'i) list_value = "string \<times> string \<times> 'v \<times> 'i list option"

definition endpoint_view :: "'x obj memory \<Rightarrow> endpoint_cell \<Rightarrow> endpoint option" where
  "endpoint_view h c =
     map_option (\<lambda>m. \<lparr>NodeName = c_NodeName c, UnderNAT = c_UnderNAT c, PublicIP = c_PublicIP c, Config = m\<rparr>)
       (view_ptr as_Map view_flat h (c_Config c))"

definition endpoint_reach :: "'x obj memory \<Rightarrow> endpoint_cell \<Rightarrow> addr list" where
  "endpoint_reach h c = reach_ptr as_Map reach_flat h (c_Config c)"

definition nodeInfo_view :: "'x obj memory \<Rightarrow> nodeInfo_cell \<Rightarrow> node_value option" where
  "nodeInfo_view h c =
     map_option (\<lambda>s. (c_ni_NodeName c, c_ni_PrivateIP c, s)) (view_slice as_Strings view_flat h (c_ni_Subnets c))"

definition nodeInfo_reach :: "'x obj memory \<Rightarrow> nodeInfo_cell \<Rightarrow> addr list" where
  "nodeInfo_reach h c = reach_slice as_Strings reach_flat h (c_ni_Subnets c)"

definition spec_view :: "('x, 'v) meaning \<Rightarrow> 'x obj memory \<Rightarrow> gatewaySpec_cell \<Rightarrow> 'v spec_value option" where
  "spec_view M h c =
     map_option (\<lambda>(p, s). (p, c_ExposeType c, s))
       (view_pair (view_ptr as_Foreign (ls_view M)) (view_slice as_Endpoints endpoint_view) h
         (c_NodeSelector c, c_Endpoints c))"

definition spec_reach :: "('x, 'v) meaning \<Rightarrow> 'x obj memory \<Rightarrow> gatewaySpec_cell \<Rightarrow> addr list" where
  "spec_reach M h c =
     reach_pair (reach_ptr as_Foreign (ls_reach M)) (reach_slice as_Endpoints endpoint_reach) h
       (c_NodeSelector c, c_Endpoints c)"

definition status_view :: "'x obj memory \<Rightarrow> gatewayStatus_cell \<Rightarrow> status_value option" where
  "status_view h c =
     view_pair (view_slice as_NodeInfos nodeInfo_view) (view_ptr as_Endpoint endpoint_view) h
       (c_Nodes c, c_ActiveEndpoint c)"

definition status_reach :: "'x obj memory \<Rightarrow> gatewayStatus_cell \<Rightarrow> addr list" where
  "status_reach h c =
     reach_pair (reach_slice as_NodeInfos nodeInfo_reach) (reach_ptr as_Endpoint endpoint_reach) h
       (c_Nodes c, c_ActiveEndpoint c)"

definition gateway_view :: "('x, 'v) meaning \<Rightarrow> 'x obj memory \<Rightarrow> 'x gateway_cell \<Rightarrow> 'v gateway_value option" where
  "gateway_view M h c =
     map_option (\<lambda>v. (c_Kind c, c_APIVersion c, v))
       (view_pair (om_view M) (view_pair (spec_view M) status_view) h (c_ObjectMeta c, c_Spec c, c_Status c))"

definition gateway_reach :: "('x, 'v) meaning \<Rightarrow> 'x obj memory \<Rightarrow> 'x gateway_cell \<Rightarrow> addr list" where
  "gateway_reach M h c =
     reach_pair (om_reach M) (reach_pair (spec_reach M) status_reach) h (c_ObjectMeta c, c_Spec c, c_Status c)"

definition blockAffinity_view ::
  "('x, 'v) meaning \<Rightarrow> 'x obj memory \<Rightarrow> 'x blockAffinity_cell \<Rightarrow> (string \<times> string \<times> 'v \<times> blockAffinitySpec) option" where
  "blockAffinity_view M h c =
     map_option (\<lambda>m. (c_ba_Kind c, c_ba_APIVersion c, m, c_ba_Spec c)) (om_view M h (c_ba_ObjectMeta c))"

definition blockAffinity_reach :: "('x, 'v) meaning \<Rightarrow> 'x obj memory \<Rightarrow> 'x blockAffinity_cell \<Rightarrow> addr list" where
  "blockAffinity_reach M h c = om_reach M h (c_ba_ObjectMeta c)"

text \<open>A list of items of either API.\<close>

definition list_view ::
  "('x, 'v) meaning \<Rightarrow> ('x obj memory \<Rightarrow> slice option \<Rightarrow> 'i list option option) \<Rightarrow> 'x obj memory \<Rightarrow> 'x list_cell \<Rightarrow>
    ('v, 'i) list_value option" where
  "list_view M items h c =
     map_option (\<lambda>v. (c_l_Kind c, c_l_APIVersion c, v)) (view_pair (lm_view M) items h (c_ListMeta c, c_Items c))"

definition list_reach where
  "list_reach M items h c = reach_pair (lm_reach M) items h (c_ListMeta c, c_Items c)"

section \<open>The contracts\<close>

lemma as_obj_inv [simp]:
  "as_Map (ObjMap m) = Some m" "as_Strings (ObjStrings s) = Some s" "as_Foreign (ObjForeign x) = Some x"
  "as_Endpoint (ObjEndpoint e) = Some e" "as_Endpoints (ObjEndpoints es) = Some es"
  "as_NodeInfo (ObjNodeInfo n) = Some n" "as_NodeInfos (ObjNodeInfos ns) = Some ns"
  "as_GatewaySpec (ObjGatewaySpec sp) = Some sp" "as_GatewayStatus (ObjGatewayStatus st) = Some st"
  "as_Gateway (ObjGateway g) = Some g" "as_Gateways (ObjGateways gs) = Some gs"
  "as_GatewayList (ObjGatewayList gl) = Some gl"
  "as_BlockAffinitySpec (ObjBlockAffinitySpec bs) = Some bs" "as_BlockAffinity (ObjBlockAffinity ba) = Some ba"
  "as_BlockAffinities (ObjBlockAffinities bas) = Some bas" "as_BlockAffinityList (ObjBlockAffinityList bl) = Some bl"
  by (simp_all add: as_obj)

text \<open>Two of the copies use nothing but this repository's code: they are instances of the interface as they are.\<close>

interpretation nodeInfo_copier: deep_copier NodeInfo_DeepCopyInto nodeInfo_view nodeInfo_reach
  by (rule deep_copier_struct [OF deep_copier_strings [of as_Strings ObjStrings], where get = c_ni_Subnets and
        put = "\<lambda>s c. c\<lparr>c_ni_Subnets := s\<rparr>" and mk = "\<lambda>c s. (c_ni_NodeName c, c_ni_PrivateIP c, s)"])
    (auto simp: NodeInfo_DeepCopyInto_def nodeInfo_view_def nodeInfo_reach_def split: Option.bind_split)

interpretation blockAffinitySpecs: deep_copier BlockAffinitySpec_DeepCopyInto view_flat reach_flat
  by unfold_locales (auto simp: BlockAffinitySpec_DeepCopyInto_def view_flat_def reach_flat_def fresh_copy_def)

lemma lawful_order: "lawful_apimachinery F M \<Longrightarrow> set (map_order F m) = fset (fmdom m)"
  by (simp add: lawful_apimachinery_def)

lemma lawful_copies:
  "lawful_apimachinery F M \<Longrightarrow> deep_copier (ObjectMeta_DeepCopyInto F) (om_view M) (om_reach M)"
  "lawful_apimachinery F M \<Longrightarrow> deep_copier (ListMeta_DeepCopyInto F) (lm_view M) (lm_reach M)"
  "lawful_apimachinery F M \<Longrightarrow> deep_copier (LabelSelector_DeepCopyInto F) (ls_view M) (ls_reach M)"
  by (simp_all add: lawful_apimachinery_def)

lemma endpoint_copier:
  assumes "lawful_apimachinery F M"
  shows "deep_copier (Endpoint_DeepCopyInto F) endpoint_view endpoint_reach"
  by (rule deep_copier_struct [OF deep_copier_map [of "map_order F" as_Map ObjMap], where get = c_Config and
        put = "\<lambda>m c. c\<lparr>c_Config := m\<rparr>" and
        mk = "\<lambda>c m. \<lparr>NodeName = c_NodeName c, UnderNAT = c_UnderNAT c, PublicIP = c_PublicIP c, Config = m\<rparr>"])
    (auto simp: lawful_order [OF assms] Endpoint_DeepCopyInto_def endpoint_view_def endpoint_reach_def
      split: Option.bind_split)

lemma spec_copier:
  assumes "lawful_apimachinery F M"
  shows "deep_copier (GatewaySpec_DeepCopyInto F) (spec_view M) (spec_reach M)"
  by (rule deep_copier_struct [OF deep_copier_pair [OF
          deep_copier_ptr [where prj = as_Foreign and emb = ObjForeign and zero = "zero_foreign F",
            OF lawful_copies(3) [OF assms]]
          deep_copier_slice [where prj = as_Endpoints and emb = ObjEndpoints and zero = zero_endpoint,
            OF endpoint_copier [OF assms]]],
        where get = "\<lambda>c. (c_NodeSelector c, c_Endpoints c)" and
        put = "\<lambda>(p, s) c. c\<lparr>c_NodeSelector := p, c_Endpoints := s\<rparr>" and
        mk = "\<lambda>c (p, s). (p, c_ExposeType c, s)"])
    (auto simp: GatewaySpec_DeepCopyInto_def copy_pair_def spec_view_def spec_reach_def Let_def split: Option.bind_split)

lemma status_copier:
  assumes "lawful_apimachinery F M"
  shows "deep_copier (GatewayStatus_DeepCopyInto F) status_view status_reach"
  by (rule deep_copier_struct [OF deep_copier_pair [OF
          deep_copier_slice [where prj = as_NodeInfos and emb = ObjNodeInfos and zero = zero_nodeInfo,
            OF nodeInfo_copier.deep_copier_axioms]
          deep_copier_ptr [where prj = as_Endpoint and emb = ObjEndpoint and zero = zero_endpoint,
            OF endpoint_copier [OF assms]]],
        where get = "\<lambda>c. (c_Nodes c, c_ActiveEndpoint c)" and
        put = "\<lambda>(s, p) c. c\<lparr>c_Nodes := s, c_ActiveEndpoint := p\<rparr>" and mk = "\<lambda>c v. v"])
    (auto simp: GatewayStatus_DeepCopyInto_def copy_pair_def status_view_def status_reach_def Let_def map_option.identity
      split: Option.bind_split)

lemma gateway_copier:
  assumes "lawful_apimachinery F M"
  shows "deep_copier (Gateway_DeepCopyInto F) (gateway_view M) (gateway_reach M)"
  by (rule deep_copier_struct [OF deep_copier_pair [OF lawful_copies(1) [OF assms]
          deep_copier_pair [OF spec_copier [OF assms] status_copier [OF assms]]],
        where get = "\<lambda>c. (c_ObjectMeta c, c_Spec c, c_Status c)" and
        put = "\<lambda>(m, s, t) c. c\<lparr>c_ObjectMeta := m, c_Spec := s, c_Status := t\<rparr>" and
        mk = "\<lambda>c v. (c_Kind c, c_APIVersion c, v)"])
    (auto simp: Gateway_DeepCopyInto_def copy_pair_def gateway_view_def gateway_reach_def Let_def split: Option.bind_split)

lemma gatewayList_copier:
  assumes "lawful_apimachinery F M"
  shows "deep_copier (GatewayList_DeepCopyInto F) (list_view M (view_slice as_Gateways (gateway_view M)))
    (list_reach M (reach_slice as_Gateways (gateway_reach M)))"
  by (rule deep_copier_struct [OF deep_copier_pair [OF lawful_copies(2) [OF assms]
          deep_copier_slice [where prj = as_Gateways and emb = ObjGateways and zero = "zero_gateway F",
            OF gateway_copier [OF assms]]],
        where get = "\<lambda>c. (c_ListMeta c, c_Items c)" and
        put = "\<lambda>(m, s) c. c\<lparr>c_ListMeta := m, c_Items := s\<rparr>" and mk = "\<lambda>c v. (c_l_Kind c, c_l_APIVersion c, v)"])
    (auto simp: GatewayList_DeepCopyInto_def copy_pair_def list_view_def list_reach_def Let_def split: Option.bind_split)

lemma blockAffinity_copier:
  assumes "lawful_apimachinery F M"
  shows "deep_copier (BlockAffinity_DeepCopyInto F) (blockAffinity_view M) (blockAffinity_reach M)"
  by (rule deep_copier_struct [OF lawful_copies(1) [OF assms], where get = c_ba_ObjectMeta and
        put = "\<lambda>m c. c\<lparr>c_ba_ObjectMeta := m\<rparr>" and
        mk = "\<lambda>c m. (c_ba_Kind c, c_ba_APIVersion c, m, c_ba_Spec c)"])
    (auto simp: BlockAffinity_DeepCopyInto_def blockAffinity_view_def blockAffinity_reach_def Let_def
      split: Option.bind_split)

lemma blockAffinityList_copier:
  assumes "lawful_apimachinery F M"
  shows "deep_copier (BlockAffinityList_DeepCopyInto F)
    (list_view M (view_slice as_BlockAffinities (blockAffinity_view M)))
    (list_reach M (reach_slice as_BlockAffinities (blockAffinity_reach M)))"
  by (rule deep_copier_struct [OF deep_copier_pair [OF lawful_copies(2) [OF assms]
          deep_copier_slice [where prj = as_BlockAffinities and emb = ObjBlockAffinities and
            zero = "zero_blockAffinity F", OF blockAffinity_copier [OF assms]]],
        where get = "\<lambda>c. (c_ListMeta c, c_Items c)" and
        put = "\<lambda>(m, s) c. c\<lparr>c_ListMeta := m, c_Items := s\<rparr>" and mk = "\<lambda>c v. (c_l_Kind c, c_l_APIVersion c, v)"])
    (auto simp: BlockAffinityList_DeepCopyInto_def copy_pair_def list_view_def list_reach_def Let_def
      split: Option.bind_split)

section \<open>Pointers\<close>

text \<open>The deep value a pointer to a Gateway denotes and what it reaches.\<close>

definition gatewayp_view where "gatewayp_view M = view_ptr as_Gateway (gateway_view M)"
definition gatewayp_reach where "gatewayp_reach M = reach_ptr as_Gateway (gateway_reach M)"

lemma gatewayp_copier:
  assumes "lawful_apimachinery F M"
  shows "deep_copier (Gateway_DeepCopy F) (gatewayp_view M) (gatewayp_reach M)"
  unfolding Gateway_DeepCopy_def gatewayp_view_def gatewayp_reach_def
  by (rule deep_copier_ptr [OF gateway_copier [OF assms]]) simp

text \<open>
  \<open>has_type M k h p\<close>: \<open>p\<close> is nil or refers to a struct of type \<open>k\<close> all of whose references are
  well typed in turn.
\<close>

definition well_typed :: "('x obj \<Rightarrow> 'c option) \<Rightarrow> ('x obj memory \<Rightarrow> 'c \<Rightarrow> 'v option) \<Rightarrow> 'x obj memory \<Rightarrow> addr option \<Rightarrow> bool" where
  "well_typed prj vw h p \<longleftrightarrow> view_ptr prj vw h p \<noteq> None"

fun has_type :: "('x, 'v) meaning \<Rightarrow> kind \<Rightarrow> 'x obj memory \<Rightarrow> addr option \<Rightarrow> bool" where
  "has_type M KEndpoint = well_typed as_Endpoint endpoint_view"
| "has_type M KNodeInfo = well_typed as_NodeInfo nodeInfo_view"
| "has_type M KGatewaySpec = well_typed as_GatewaySpec (spec_view M)"
| "has_type M KGatewayStatus = well_typed as_GatewayStatus status_view"
| "has_type M KGateway = well_typed as_Gateway (gateway_view M)"
| "has_type M KGatewayList = well_typed as_GatewayList (list_view M (view_slice as_Gateways (gateway_view M)))"
| "has_type M KBlockAffinitySpec = well_typed as_BlockAffinitySpec view_flat"
| "has_type M KBlockAffinity = well_typed as_BlockAffinity (blockAffinity_view M)"
| "has_type M KBlockAffinityList =
     well_typed as_BlockAffinityList (list_view M (view_slice as_BlockAffinities (blockAffinity_view M)))"

fun DeepCopy :: "'x apimachinery \<Rightarrow> kind \<Rightarrow> (addr option, 'x obj) copier" where
  "DeepCopy F KEndpoint = Endpoint_DeepCopy F"
| "DeepCopy F KNodeInfo = NodeInfo_DeepCopy"
| "DeepCopy F KGatewaySpec = GatewaySpec_DeepCopy F"
| "DeepCopy F KGatewayStatus = GatewayStatus_DeepCopy F"
| "DeepCopy F KGateway = Gateway_DeepCopy F"
| "DeepCopy F KGatewayList = GatewayList_DeepCopy F"
| "DeepCopy F KBlockAffinitySpec = BlockAffinitySpec_DeepCopy"
| "DeepCopy F KBlockAffinity = BlockAffinity_DeepCopy F"
| "DeepCopy F KBlockAffinityList = BlockAffinityList_DeepCopy F"

text \<open>The types with a \<^verbatim>\<open>DeepCopyObject\<close>.\<close>

fun DeepCopyObject :: "'x apimachinery \<Rightarrow> kind \<Rightarrow> (addr option \<Rightarrow> 'x obj memory \<Rightarrow> (runtime_object \<times> 'x obj memory) option) option" where
  "DeepCopyObject F KGateway = Some (Gateway_DeepCopyObject F)"
| "DeepCopyObject F KGatewayList = Some (GatewayList_DeepCopyObject F)"
| "DeepCopyObject F KBlockAffinity = Some (BlockAffinity_DeepCopyObject F)"
| "DeepCopyObject F KBlockAffinityList = Some (BlockAffinityList_DeepCopyObject F)"
| "DeepCopyObject F _ = None"

lemma well_typed_ext:
  assumes d: "deep_copier cp vw rc" and ok: "mem_ok h" and ext: "mem_ext h h'" and ty: "well_typed prj vw h p"
  shows "well_typed prj vw h' p"
proof (cases p)
  case (Some a)
  with ty obtain c v where c: "deref prj h a = Some c" "vw h c = Some v"
    by (auto simp: well_typed_def view_ptr_def bind_eq_Some_conv)
  have "deref prj h' a = Some c"
    using deref_cong [OF mem_ext_at [OF ext deref_old [OF ok c(1)]]] c(1) by metis
  then show ?thesis using deep_copier.view_ext [OF d ok c(2) ext] by (simp add: Some well_typed_def view_ptr_def)
qed (simp add: well_typed_def view_ptr_def)

lemma copy_ptr_typed:
  assumes d: "deep_copier cp vw rc" and prj: "\<And>c. prj (emb c) = Some c"
    and ok: "mem_ok h" and ty: "well_typed prj vw h p"
  shows "\<exists>p' h'. copy_ptr prj emb zero cp p h = Some (p', h') \<and> mem_ok h' \<and> mem_ext h h' \<and>
    well_typed prj vw h' p' \<and> (p' = None \<longleftrightarrow> p = None)"
proof -
  from ty obtain v where v: "view_ptr prj vw h p = Some v" by (auto simp: well_typed_def)
  from deep_copier.copies [OF deep_copier_ptr [where prj = prj and emb = emb, OF d prj] ok v] obtain p' h' where
    cp: "copy_ptr prj emb zero cp p h = Some (p', h')"
    and fc: "fresh_copy (view_ptr prj vw) (reach_ptr prj rc) h v p' h'" by blast
  have "p' = None \<longleftrightarrow> p = None"
    using cp by (cases p) (auto simp: copy_ptr_def bind_eq_Some_conv split: prod.splits)
  with cp fc show ?thesis by (auto simp: fresh_copy_def well_typed_def)
qed

lemmas copiers = endpoint_copier nodeInfo_copier.deep_copier_axioms spec_copier status_copier gateway_copier
  gatewayList_copier blockAffinitySpecs.deep_copier_axioms blockAffinity_copier blockAffinityList_copier

lemma has_type_ext:
  assumes law: "lawful_apimachinery F M" and "mem_ok h" "mem_ext h h'" "has_type M k h p"
  shows "has_type M k h' p"
  using assms(2-) by (cases k) (auto elim: copiers [THEN well_typed_ext, rotated -1] copiers(1,3-6,8,9) [OF law, THEN well_typed_ext, rotated -1])

lemmas DeepCopy_defs = Endpoint_DeepCopy_def NodeInfo_DeepCopy_def GatewaySpec_DeepCopy_def GatewayStatus_DeepCopy_def
  Gateway_DeepCopy_def GatewayList_DeepCopy_def BlockAffinitySpec_DeepCopy_def BlockAffinity_DeepCopy_def
  BlockAffinityList_DeepCopy_def

lemma DeepCopy_ptr_typed:
  assumes law: "lawful_apimachinery F M" and ok: "mem_ok h" and ty: "has_type M k h p"
  shows "\<exists>p' h'. DeepCopy F k p h = Some (p', h') \<and> mem_ok h' \<and> mem_ext h h' \<and>
    has_type M k h' p' \<and> (p' = None \<longleftrightarrow> p = None)"
proof (cases k)
  case KEndpoint
  with ty show ?thesis using copy_ptr_typed [OF endpoint_copier [OF law] _ ok] by (simp add: DeepCopy_defs)
next
  case KNodeInfo
  with ty show ?thesis using copy_ptr_typed [OF nodeInfo_copier.deep_copier_axioms _ ok] by (simp add: DeepCopy_defs)
next
  case KGatewaySpec
  with ty show ?thesis using copy_ptr_typed [OF spec_copier [OF law] _ ok] by (simp add: DeepCopy_defs)
next
  case KGatewayStatus
  with ty show ?thesis using copy_ptr_typed [OF status_copier [OF law] _ ok] by (simp add: DeepCopy_defs)
next
  case KGateway
  with ty show ?thesis using copy_ptr_typed [OF gateway_copier [OF law] _ ok] by (simp add: DeepCopy_defs)
next
  case KGatewayList
  with ty show ?thesis using copy_ptr_typed [OF gatewayList_copier [OF law] _ ok] by (simp add: DeepCopy_defs)
next
  case KBlockAffinitySpec
  with ty show ?thesis
    using copy_ptr_typed [OF blockAffinitySpecs.deep_copier_axioms _ ok] by (simp add: DeepCopy_defs)
next
  case KBlockAffinity
  with ty show ?thesis using copy_ptr_typed [OF blockAffinity_copier [OF law] _ ok] by (simp add: DeepCopy_defs)
next
  case KBlockAffinityList
  with ty show ?thesis using copy_ptr_typed [OF blockAffinityList_copier [OF law] _ ok] by (simp add: DeepCopy_defs)
qed

lemma DeepCopyObject_eq:
  "DeepCopyObject F k = Some f \<Longrightarrow> f p h = map_option (\<lambda>(c, h'). (as_object k c, h')) (DeepCopy F k p h)"
  by (cases k) (auto simp: Gateway_DeepCopyObject_def GatewayList_DeepCopyObject_def
      BlockAffinity_DeepCopyObject_def BlockAffinityList_DeepCopyObject_def)

text \<open>C31: The generated deep copies are type safe. Copying a well-typed pointer of any API type never follows a dangling reference or one to an object of another type; it returns a well-typed pointer of the same type, nil exactly for nil, and every pointer that was well typed, of whatever type, still is. DeepCopyObject returns the nil interface exactly for a nil receiver, and otherwise an interface of the receiver's type around that pointer, never one that holds nil.\<close>

theorem DeepCopy_type_safe:
  assumes "lawful_apimachinery F M" and "mem_ok h" and "has_type M k h p"
  shows "\<exists>p' h'. DeepCopy F k p h = Some (p', h') \<and> mem_ok h' \<and> has_type M k h' p' \<and>
    (p' = None \<longleftrightarrow> p = None) \<and>
    (\<forall>l q. has_type M l h q \<longrightarrow> has_type M l h' q) \<and>
    (\<forall>f. DeepCopyObject F k = Some f \<longrightarrow>
       f p h = Some (if p = None then NilObject else ObjectOf k p', h'))"
proof -
  from DeepCopy_ptr_typed [OF assms] obtain p' h' where cp: "DeepCopy F k p h = Some (p', h')"
    and r: "mem_ok h'" "mem_ext h h'" "has_type M k h' p'" "p' = None \<longleftrightarrow> p = None" by blast
  have "f p h = Some (if p = None then NilObject else ObjectOf k p', h')" if "DeepCopyObject F k = Some f" for f
    using DeepCopyObject_eq [OF that, of p h] cp r(4) by (cases p) (auto simp: as_object_def)
  with cp r has_type_ext [OF assms(1,2) r(2)] show ?thesis by blast
qed

text \<open>C30: A deep copy of a Gateway is the same value in memory of its own: it denotes the same deep value, nil and empty slices told apart, consists of newly allocated objects none of which it refers to twice, and leaves everything allocated before as it was. From then on, whatever is written to the objects the copy reaches leaves the value of the original unchanged, and whatever is written to the objects the original reaches leaves the value of the copy unchanged.\<close>

theorem Gateway_DeepCopy_isolates:
  assumes "lawful_apimachinery F M" and "mem_ok h" and "gatewayp_view M h p = Some v"
  shows "\<exists>p' h'. Gateway_DeepCopy F p h = Some (p', h') \<and> gatewayp_view M h' p' = Some v \<and>
    set (gatewayp_reach M h' p') \<subseteq> {mem_next h..} \<and> distinct (gatewayp_reach M h' p') \<and>
    (\<forall>a < mem_next h. mem_at h' a = mem_at h a) \<and>
    (\<forall>h''. (\<forall>a. a \<notin> set (gatewayp_reach M h' p') \<longrightarrow> mem_at h'' a = mem_at h' a) \<longrightarrow>
       gatewayp_view M h'' p = Some v) \<and>
    (\<forall>h''. (\<forall>a. a \<notin> set (gatewayp_reach M h p) \<longrightarrow> mem_at h'' a = mem_at h' a) \<longrightarrow>
       gatewayp_view M h'' p' = Some v)"
proof -
  note d = gatewayp_copier [OF assms(1)]
  from deep_copier.copies [OF d assms(2,3)] obtain p' h' where cp: "Gateway_DeepCopy F p h = Some (p', h')"
    by blast
  note iso = deep_copier.copy_isolates [OF d assms(2,3) cp]
  from iso(1) have "gatewayp_view M h' p' = Some v" "set (gatewayp_reach M h' p') \<subseteq> {mem_next h..}"
    "distinct (gatewayp_reach M h' p')" "\<forall>a < mem_next h. mem_at h' a = mem_at h a"
    by (simp_all add: fresh_copy_def mem_ext_def)
  with cp iso(2,3) show ?thesis by blast
qed

section \<open>An example\<close>

text \<open>
  An apimachinery whose structs hold one map of labels each, and a memory in which the labels of
  a Gateway and the configurations of its two endpoints are one map: the copy has three.
\<close>

definition toy_order :: "(string, string) fmap \<Rightarrow> string list" where
  "toy_order m = sorted_list_of_fset (fmdom m)"

definition toy_apimachinery :: "addr option apimachinery" where
  "toy_apimachinery = \<lparr>map_order = toy_order, zero_foreign = None,
     ObjectMeta_DeepCopyInto = copy_map toy_order as_Map ObjMap,
     ListMeta_DeepCopyInto = copy_map toy_order as_Map ObjMap,
     LabelSelector_DeepCopyInto = copy_map toy_order as_Map ObjMap\<rparr>"

definition toy_meaning :: "(addr option, str_map) meaning" where
  "toy_meaning = \<lparr>om_view = view_ptr as_Map view_flat, om_reach = reach_ptr as_Map reach_flat,
     lm_view = view_ptr as_Map view_flat, lm_reach = reach_ptr as_Map reach_flat,
     ls_view = view_ptr as_Map view_flat, ls_reach = reach_ptr as_Map reach_flat\<rparr>"

lemma toy_order_set: "set (toy_order m) = fset (fmdom m)"
  by (simp add: toy_order_def sorted_list_of_fset.rep_eq)

lemma toy_apimachinery_lawful: "lawful_apimachinery toy_apimachinery toy_meaning"
  using deep_copier_map [where order = toy_order and prj = as_Map and emb = ObjMap, OF toy_order_set]
  by (simp add: lawful_apimachinery_def toy_apimachinery_def toy_meaning_def toy_order_set)

definition toy_labels :: "(string, string) fmap" where
  "toy_labels = fmupd ''zone'' ''a'' fmempty"

definition toy_cell :: "string \<Rightarrow> endpoint_cell" where
  "toy_cell n = zero_endpoint\<lparr>c_NodeName := n, c_Config := Some 0\<rparr>"

definition toy_gateway :: "addr option gateway_cell" where
  "toy_gateway = (zero_gateway toy_apimachinery)\<lparr>c_ObjectMeta := Some 0,
     c_Spec := zero_spec\<lparr>c_Endpoints := Some \<lparr>sl_arr = 1, sl_off = 0, sl_len = 2, sl_cap = 2\<rparr>\<rparr>\<rparr>"

definition toy_memory :: "addr option obj memory" where
  "toy_memory = \<lparr>mem_next = 3,
     mem_at = [0 \<mapsto> ObjMap toy_labels, 1 \<mapsto> ObjEndpoints [toy_cell ''n1'', toy_cell ''n2''],
       2 \<mapsto> ObjGateway toy_gateway]\<rparr>"

lemma toy_memory_ok: "mem_ok toy_memory"
  by (simp add: mem_ok_def toy_memory_def)

definition toy_endpoint :: "string \<Rightarrow> endpoint" where
  "toy_endpoint n = \<lparr>NodeName = n, UnderNAT = False, PublicIP = [], Config = Some toy_labels\<rparr>"

definition toy_value :: "str_map gateway_value" where
  "toy_value = ([], [], Some toy_labels, (None, [], Some [toy_endpoint ''n1'', toy_endpoint ''n2'']), None, None)"

lemma toy_cell_view: "endpoint_view toy_memory (toy_cell n) = Some (toy_endpoint n)"
  by (simp add: endpoint_view_def view_ptr_def view_flat_def deref_def toy_memory_def toy_cell_def toy_endpoint_def
      zero_endpoint_def)

lemma toy_endpoints_view:
  "view_slice as_Endpoints endpoint_view toy_memory (Some \<lparr>sl_arr = 1, sl_off = 0, sl_len = 2, sl_cap = 2\<rparr>) =
    Some (Some [toy_endpoint ''n1'', toy_endpoint ''n2''])"
proof -
  have "slice_elems as_Endpoints toy_memory \<lparr>sl_arr = 1, sl_off = 0, sl_len = 2, sl_cap = 2\<rparr> =
      Some [toy_cell ''n1'', toy_cell ''n2'']"
    by (simp add: slice_elems_def deref_def toy_memory_def)
  then show ?thesis by (simp add: view_slice_def toy_cell_view)
qed

lemma toy_view: "gatewayp_view toy_meaning toy_memory (Some 2) = Some (Some toy_value)"
proof -
  have "deref as_Gateway toy_memory 2 = Some toy_gateway" by (simp add: deref_def toy_memory_def)
  moreover have "view_ptr as_Map view_flat toy_memory (Some 0) = Some (Some toy_labels)"
    by (simp add: view_ptr_def view_flat_def deref_def toy_memory_def)
  ultimately show ?thesis
    using toy_endpoints_view
    by (simp add: gatewayp_view_def view_ptr_def [of as_Gateway] gateway_view_def view_pair_def spec_view_def
        status_view_def toy_gateway_def zero_gateway_def zero_spec_def zero_status_def toy_meaning_def toy_value_def
        view_ptr_def [of as_Foreign] view_ptr_def [of as_Endpoint] view_slice_def [of as_NodeInfos])
qed

theorem DeepCopy_type_safe_witness:
  "\<exists>p' h'. DeepCopy toy_apimachinery KGateway (Some 2) toy_memory = Some (Some p', h') \<and>
     has_type toy_meaning KGateway h' (Some p') \<and> has_type toy_meaning KGateway h' (Some 2) \<and>
     Gateway_DeepCopyObject toy_apimachinery (Some 2) toy_memory = Some (ObjectOf KGateway (Some p'), h')"
proof -
  have ty: "has_type toy_meaning KGateway toy_memory (Some 2)"
    using toy_view by (simp add: well_typed_def gatewayp_view_def)
  from DeepCopy_type_safe [OF toy_apimachinery_lawful toy_memory_ok ty] ty show ?thesis by (auto simp del: has_type.simps)
qed

theorem Gateway_DeepCopy_isolates_witness:
  "\<exists>p' h'. Gateway_DeepCopy toy_apimachinery (Some 2) toy_memory = Some (p', h') \<and>
     gatewayp_view toy_meaning h' p' = Some (Some toy_value) \<and>
     (\<forall>a < 3. mem_at h' a = mem_at toy_memory a) \<and>
     gatewayp_view toy_meaning (mem_set 0 (ObjMap fmempty) h') p' = Some (Some toy_value)"
proof -
  have reach: "0 \<in> set (gatewayp_reach toy_meaning toy_memory (Some 2))"
    by (simp add: gatewayp_reach_def reach_ptr_def gateway_reach_def reach_pair_def toy_meaning_def toy_gateway_def
        zero_gateway_def deref_def toy_memory_def)
  from Gateway_DeepCopy_isolates [OF toy_apimachinery_lawful toy_memory_ok toy_view] obtain p' h' where
    "Gateway_DeepCopy toy_apimachinery (Some 2) toy_memory = Some (p', h')"
    "gatewayp_view toy_meaning h' p' = Some (Some toy_value)"
    "\<forall>a < mem_next toy_memory. mem_at h' a = mem_at toy_memory a"
    and iso: "\<And>h''. \<forall>a. a \<notin> set (gatewayp_reach toy_meaning toy_memory (Some 2)) \<longrightarrow> mem_at h'' a = mem_at h' a \<Longrightarrow>
      gatewayp_view toy_meaning h'' p' = Some (Some toy_value)"
    by blast
  moreover have "gatewayp_view toy_meaning (mem_set 0 (ObjMap fmempty) h') p' = Some (Some toy_value)"
    by (rule iso) (use reach in auto)
  moreover have "mem_next toy_memory = 3" by (simp add: toy_memory_def)
  ultimately show ?thesis by metis
qed

end
