(* ===== verification/Gateway_Client.thy ===== *)
theory Gateway_Client
  imports Raven_Types
begin

text \<open>
  The generated clients: the typed client of Gateways
  (\<^verbatim>\<open>clientset/versioned/typed/raven/v1alpha1/gateway.go\<close>), the client of its API group
  (\<^verbatim>\<open>raven_client.go\<close>) and the clientset (\<^verbatim>\<open>clientset/versioned/clientset.go\<close>).  A method of the
  typed client is the chain of builder calls it makes on a \<^verbatim>\<open>rest.Request\<close>, and the call that
  sends it; what client-go does with a request or a configuration is a parameter.
\<close>

section \<open>Requests\<close>

text \<open>The fields of \<^verbatim>\<open>metav1.ListOptions\<close> the code touches; other option structs are values of type \<open>'o\<close>.\<close>

record 'o listOptions =
  lo_Watch :: bool
  lo_TimeoutSeconds :: "64 word option"
  lo_other :: 'o

datatype verb = GET | POST | PUT | DELETE | PATCH string

datatype 'o params = GetParams 'o | ListParams "'o listOptions" | CreateParams 'o | UpdateParams 'o | PatchParams 'o

datatype 'o body = GatewayBody gateway | DeleteBody 'o | DataBody byte_slice

datatype 'o rest_call =
    WithResource string
  | WithName string
  | WithSubResource "string list"
  | WithVersionedParams "'o params"
  | WithTimeout "64 word"
  | WithBody "'o body"

record 'o request =
  rq_verb :: verb
  rq_calls :: "'o rest_call list"

text \<open>
  The calls that send a request: \<^verbatim>\<open>Do(ctx).Into(result)\<close> on a Gateway and on a list, which may
  fill the result even when they fail, \<^verbatim>\<open>Do(ctx).Error()\<close> and \<^verbatim>\<open>Watch(ctx)\<close>.
\<close>

record ('s, 'o, 'wa) rest_client =
  Into_Gateway :: "'o request \<Rightarrow> ('s, gateway \<times> error option) state"
  Into_GatewayList :: "'o request \<Rightarrow> ('s, gateway list \<times> error option) state"
  Do_Error :: "'o request \<Rightarrow> ('s, error option) state"
  Do_Watch :: "'o request \<Rightarrow> ('s, error + 'wa) state"

section \<open>gateway.go\<close>

text \<open>\<^verbatim>\<open>time.Second\<close>, and \<^verbatim>\<open>time.Duration(*opts.TimeoutSeconds) * time.Second\<close> on 64 bits.\<close>

definition Second :: "64 word" where "Second = 1000000000"

definition list_timeout :: "'o listOptions \<Rightarrow> 64 word" where
  "list_timeout opts = (case lo_TimeoutSeconds opts of None \<Rightarrow> 0 | Some n \<Rightarrow> n * Second)"

definition gateways_Get :: "('s, 'o, 'wa) rest_client \<Rightarrow> string \<Rightarrow> 'o \<Rightarrow> ('s, gateway \<times> error option) state" where
  "gateways_Get c name options =
     Into_Gateway c \<lparr>rq_verb = GET,
       rq_calls = [WithResource ''gateways'', WithName name, WithVersionedParams (GetParams options)]\<rparr>"

definition list_request :: "'o listOptions \<Rightarrow> 'o request" where
  "list_request opts =
     (let timeout = list_timeout opts
      in \<lparr>rq_verb = GET,
          rq_calls = [WithResource ''gateways'', WithVersionedParams (ListParams opts), WithTimeout timeout]\<rparr>)"

definition gateways_List :: "('s, 'o, 'wa) rest_client \<Rightarrow> 'o listOptions \<Rightarrow> ('s, gateway list \<times> error option) state" where
  "gateways_List c opts = Into_GatewayList c (list_request opts)"

definition watch_request :: "'o listOptions \<Rightarrow> 'o request" where
  "watch_request opts =
     (let timeout = list_timeout opts; opts = opts\<lparr>lo_Watch := True\<rparr>
      in \<lparr>rq_verb = GET,
          rq_calls = [WithResource ''gateways'', WithVersionedParams (ListParams opts), WithTimeout timeout]\<rparr>)"

definition gateways_Watch :: "('s, 'o, 'wa) rest_client \<Rightarrow> 'o listOptions \<Rightarrow> ('s, error + 'wa) state" where
  "gateways_Watch c opts = Do_Watch c (watch_request opts)"

definition gateways_Create :: "('s, 'o, 'wa) rest_client \<Rightarrow> gateway \<Rightarrow> 'o \<Rightarrow> ('s, gateway \<times> error option) state" where
  "gateways_Create c gw opts =
     Into_Gateway c \<lparr>rq_verb = POST,
       rq_calls = [WithResource ''gateways'', WithVersionedParams (CreateParams opts), WithBody (GatewayBody gw)]\<rparr>"

definition gateways_Update :: "('s, 'o, 'wa) rest_client \<Rightarrow> gateway \<Rightarrow> 'o \<Rightarrow> ('s, gateway \<times> error option) state" where
  "gateways_Update c gw opts =
     Into_Gateway c \<lparr>rq_verb = PUT,
       rq_calls = [WithResource ''gateways'', WithName (gw_Name gw), WithVersionedParams (UpdateParams opts),
         WithBody (GatewayBody gw)]\<rparr>"

definition gateways_UpdateStatus :: "('s, 'o, 'wa) rest_client \<Rightarrow> gateway \<Rightarrow> 'o \<Rightarrow> ('s, gateway \<times> error option) state" where
  "gateways_UpdateStatus c gw opts =
     Into_Gateway c \<lparr>rq_verb = PUT,
       rq_calls = [WithResource ''gateways'', WithName (gw_Name gw), WithSubResource [''status''],
         WithVersionedParams (UpdateParams opts), WithBody (GatewayBody gw)]\<rparr>"

definition gateways_Delete :: "('s, 'o, 'wa) rest_client \<Rightarrow> string \<Rightarrow> 'o \<Rightarrow> ('s, error option) state" where
  "gateways_Delete c name opts =
     Do_Error c \<lparr>rq_verb = DELETE,
       rq_calls = [WithResource ''gateways'', WithName name, WithBody (DeleteBody opts)]\<rparr>"

definition delete_collection_request :: "'o \<Rightarrow> 'o listOptions \<Rightarrow> 'o request" where
  "delete_collection_request opts listOpts =
     (let timeout = list_timeout listOpts
      in \<lparr>rq_verb = DELETE,
          rq_calls = [WithResource ''gateways'', WithVersionedParams (ListParams listOpts), WithTimeout timeout,
            WithBody (DeleteBody opts)]\<rparr>)"

definition gateways_DeleteCollection :: "('s, 'o, 'wa) rest_client \<Rightarrow> 'o \<Rightarrow> 'o listOptions \<Rightarrow> ('s, error option) state" where
  "gateways_DeleteCollection c opts listOpts = Do_Error c (delete_collection_request opts listOpts)"

definition gateways_Patch ::
  "('s, 'o, 'wa) rest_client \<Rightarrow> string \<Rightarrow> string \<Rightarrow> byte_slice \<Rightarrow> 'o \<Rightarrow> string list \<Rightarrow> ('s, gateway \<times> error option) state" where
  "gateways_Patch c name pt data opts subresources =
     Into_Gateway c \<lparr>rq_verb = PATCH pt,
       rq_calls = [WithResource ''gateways'', WithName name, WithSubResource subresources,
         WithVersionedParams (PatchParams opts), WithBody (DataBody data)]\<rparr>"

text \<open>The timeout is a signed 64-bit product: exact as long as it fits, and otherwise another duration.\<close>

lemma list_timeout_exact:
  assumes "lo_TimeoutSeconds opts = Some n"
  shows "sint (list_timeout opts) = sint n * 1000000000 \<longleftrightarrow> \<bar>sint n\<bar> \<le> 9223372036"
proof -
  have "sint (list_timeout opts) = signed_take_bit 63 (sint n * 1000000000)"
    by (simp add: list_timeout_def assms Second_def sint_word_ariths)
  moreover have "signed_take_bit 63 (sint n * 1000000000) = sint n * 1000000000 \<longleftrightarrow> \<bar>sint n\<bar> \<le> 9223372036"
    unfolding signed_take_bit_int_eq_self_iff by auto
  ultimately show ?thesis by simp
qed

text \<open>C39: List, Watch and DeleteCollection hand their request exactly one timeout, computed on 64 bits from the option: none given is no timeout (zero), and a given number of seconds becomes that many seconds in nanoseconds exactly when its absolute value is at most 9223372036; beyond, the product wraps around and the request is sent with another timeout.\<close>

theorem request_timeouts:
  assumes "rq \<in> {list_request opts, watch_request opts, delete_collection_request dopts opts}"
  shows "\<exists>t. filter (\<lambda>call. \<exists>d. call = WithTimeout d) (rq_calls rq) = [WithTimeout t] \<and>
    (lo_TimeoutSeconds opts = None \<longrightarrow> t = 0) \<and>
    (\<forall>n. lo_TimeoutSeconds opts = Some n \<longrightarrow> (sint t = sint n * 1000000000 \<longleftrightarrow> \<bar>sint n\<bar> \<le> 9223372036))"
proof -
  have rq: "filter (\<lambda>call. \<exists>d. call = WithTimeout d) (rq_calls rq) = [WithTimeout (list_timeout opts)]"
    using assms by (auto simp: list_request_def watch_request_def delete_collection_request_def Let_def)
  show ?thesis
    by (intro exI [of _ "list_timeout opts"] conjI allI impI rq list_timeout_exact) (simp_all add: list_timeout_def)
qed

theorem request_timeouts_witness:
  "\<exists>t. filter (\<lambda>call. \<exists>d. call = WithTimeout d)
       (rq_calls (list_request \<lparr>lo_Watch = False, lo_TimeoutSeconds = Some 18446744074, lo_other = ()\<rparr>)) = [WithTimeout t] \<and>
     sint t \<noteq> 18446744074 * 1000000000 \<and> sint t = 290448384"
proof -
  let ?opts = "\<lparr>lo_Watch = False, lo_TimeoutSeconds = Some 18446744074, lo_other = ()\<rparr>"
  from request_timeouts [of "list_request ?opts" ?opts "()"] obtain t where
    t: "filter (\<lambda>call. \<exists>d. call = WithTimeout d) (rq_calls (list_request ?opts)) = [WithTimeout t]"
      "sint t = sint (18446744074 :: 64 word) * 1000000000 \<longleftrightarrow> \<bar>sint (18446744074 :: 64 word)\<bar> \<le> 9223372036" by auto
  have "t = 290448384" using t(1) by (simp add: list_request_def list_timeout_def Second_def Let_def)
  with t show ?thesis by auto
qed

section \<open>raven_client.go\<close>

text \<open>
  The fields of \<^verbatim>\<open>rest.Config\<close> the code reads or writes: \<open>'l\<close> is the type of rate limiters, \<open>'q\<close>
  of the \<^verbatim>\<open>float32\<close> QPS and \<open>'n\<close> of serializers.
\<close>

record group_version =
  gv_Group :: string
  gv_Version :: string

record ('l, 'q, 'n, 'x) rest_config =
  RateLimiter :: "'l option"
  QPS :: 'q
  Burst :: "64 word"
  GroupVersion :: "group_version option"
  APIPath :: string
  NegotiatedSerializer :: "'n option"
  UserAgent :: string
  cfg_other :: 'x

text \<open>What the clients call of client-go; \<open>'h\<close> are HTTP clients, \<open>'r\<close> REST clients, \<open>'d\<close> discovery clients.\<close>

record ('s, 'l, 'q, 'n, 'x, 'h, 'r, 'd) client_go =
  HTTPClientFor :: "('l, 'q, 'n, 'x) rest_config \<Rightarrow> ('s, error + 'h) state"
  RESTClientForConfigAndClient :: "('l, 'q, 'n, 'x) rest_config \<Rightarrow> 'h \<Rightarrow> ('s, error + 'r) state"
  NewDiscoveryClientForConfigAndClient :: "('l, 'q, 'n, 'x) rest_config \<Rightarrow> 'h \<Rightarrow> ('s, error + 'd) state"
  NewDiscoveryClient :: "'r \<Rightarrow> 'd"
  NewTokenBucketRateLimiter :: "'q \<Rightarrow> 64 word \<Rightarrow> ('s, 'l) state"
  DefaultKubernetesUserAgent :: string
  WithoutConversion :: 'n
  QPS_positive :: "'q \<Rightarrow> bool"

definition SchemeGroupVersion :: group_version where
  "SchemeGroupVersion = \<lparr>gv_Group = GroupVersion_Group, gv_Version = ''v1alpha1''\<rparr>"

definition setConfigDefaults ::
  "('s, 'l, 'q, 'n, 'x, 'h, 'r, 'd) client_go \<Rightarrow> ('l, 'q, 'n, 'x) rest_config \<Rightarrow> ('l, 'q, 'n, 'x) rest_config" where
  "setConfigDefaults G config =
     (let gv = SchemeGroupVersion;
          config = config\<lparr>GroupVersion := Some gv\<rparr>;
          config = config\<lparr>APIPath := ''/apis''\<rparr>;
          config = config\<lparr>NegotiatedSerializer := Some (WithoutConversion G)\<rparr>
      in if UserAgent config = [] then config\<lparr>UserAgent := DefaultKubernetesUserAgent G\<rparr> else config)"

text \<open>
  \<^verbatim>\<open>setConfigDefaults\<close> never fails, so its error is not checked here.  A client of the group is its
  REST client.
\<close>

datatype 'r ravenClient = RavenV1alpha1Client (restClient: 'r)

definition raven_NewForConfigAndClient ::
  "('s, 'l, 'q, 'n, 'x, 'h, 'r, 'd) client_go \<Rightarrow> ('l, 'q, 'n, 'x) rest_config \<Rightarrow> 'h \<Rightarrow> ('s, error + 'r ravenClient) state" where
  "raven_NewForConfigAndClient G c h = do {
     let config = setConfigDefaults G c;
     res \<leftarrow> RESTClientForConfigAndClient G config h;
     State_Monad.return (case res of Inl err \<Rightarrow> Inl err | Inr client \<Rightarrow> Inr (RavenV1alpha1Client client))
   }"

definition raven_NewForConfig ::
  "('s, 'l, 'q, 'n, 'x, 'h, 'r, 'd) client_go \<Rightarrow> ('l, 'q, 'n, 'x) rest_config \<Rightarrow> ('s, error + 'r ravenClient) state" where
  "raven_NewForConfig G c = do {
     let config = setConfigDefaults G c;
     res \<leftarrow> HTTPClientFor G config;
     (case res of
        Inl err \<Rightarrow> State_Monad.return (Inl err)
      | Inr httpClient \<Rightarrow> raven_NewForConfigAndClient G config httpClient)
   }"

text \<open>\<^verbatim>\<open>NewForConfigOrDie\<close> panics with the error; a panic is the left result.\<close>

definition raven_NewForConfigOrDie ::
  "('s, 'l, 'q, 'n, 'x, 'h, 'r, 'd) client_go \<Rightarrow> ('l, 'q, 'n, 'x) rest_config \<Rightarrow> ('s, error + 'r ravenClient) state" where
  "raven_NewForConfigOrDie G c = raven_NewForConfig G c"

definition raven_New :: "'r \<Rightarrow> 'r ravenClient" where "raven_New c = RavenV1alpha1Client c"

text \<open>The methods accept a nil receiver.\<close>

definition raven_RESTClient :: "'r ravenClient option \<Rightarrow> 'r option" where
  "raven_RESTClient c = (case c of None \<Rightarrow> None | Some c \<Rightarrow> Some (restClient c))"

section \<open>clientset.go\<close>

record ('r, 'd) clientset =
  ravenV1alpha1 :: "'r ravenClient"
  DiscoveryClient :: 'd

definition cs_Discovery :: "('r, 'd) clientset option \<Rightarrow> 'd option" where
  "cs_Discovery c = (case c of None \<Rightarrow> None | Some c \<Rightarrow> Some (DiscoveryClient c))"

definition rateLimited ::
  "('s, 'l, 'q, 'n, 'x, 'h, 'r, 'd) client_go \<Rightarrow> ('l, 'q, 'n, 'x) rest_config \<Rightarrow>
    ('s, error + ('l, 'q, 'n, 'x) rest_config) state" where
  "rateLimited G config =
     (if RateLimiter config = None \<and> QPS_positive G (QPS config) then
        if sint (Burst config) \<le> 0 then
          State_Monad.return (Inl (ErrorText
            ''burst is required to be greater than 0 when RateLimiter is not set and QPS is set to greater than 0''))
        else do {
          l \<leftarrow> NewTokenBucketRateLimiter G (QPS config) (Burst config);
          State_Monad.return (Inr (config\<lparr>RateLimiter := Some l\<rparr>))
        }
      else State_Monad.return (Inr config))"

definition cs_NewForConfigAndClient ::
  "('s, 'l, 'q, 'n, 'x, 'h, 'r, 'd) client_go \<Rightarrow> ('l, 'q, 'n, 'x) rest_config \<Rightarrow> 'h \<Rightarrow> ('s, error + ('r, 'd) clientset) state" where
  "cs_NewForConfigAndClient G c httpClient = do {
     limited \<leftarrow> rateLimited G c;
     (case limited of
        Inl err \<Rightarrow> State_Monad.return (Inl err)
      | Inr configShallowCopy \<Rightarrow> do {
          res \<leftarrow> raven_NewForConfigAndClient G configShallowCopy httpClient;
          (case res of
             Inl err \<Rightarrow> State_Monad.return (Inl err)
           | Inr raven \<Rightarrow> do {
               res \<leftarrow> NewDiscoveryClientForConfigAndClient G configShallowCopy httpClient;
               State_Monad.return (case res of
                  Inl err \<Rightarrow> Inl err
                | Inr discovery \<Rightarrow> Inr \<lparr>ravenV1alpha1 = raven, DiscoveryClient = discovery\<rparr>)
             })
        })
   }"

definition cs_NewForConfig ::
  "('s, 'l, 'q, 'n, 'x, 'h, 'r, 'd) client_go \<Rightarrow> ('l, 'q, 'n, 'x) rest_config \<Rightarrow> ('s, error + ('r, 'd) clientset) state" where
  "cs_NewForConfig G c = do {
     res \<leftarrow> HTTPClientFor G c;
     (case res of
        Inl err \<Rightarrow> State_Monad.return (Inl err)
      | Inr httpClient \<Rightarrow> cs_NewForConfigAndClient G c httpClient)
   }"

definition cs_NewForConfigOrDie ::
  "('s, 'l, 'q, 'n, 'x, 'h, 'r, 'd) client_go \<Rightarrow> ('l, 'q, 'n, 'x) rest_config \<Rightarrow> ('s, error + ('r, 'd) clientset) state" where
  "cs_NewForConfigOrDie G c = cs_NewForConfig G c"

definition cs_New :: "('s, 'l, 'q, 'n, 'x, 'h, 'r, 'd) client_go \<Rightarrow> 'r \<Rightarrow> ('r, 'd) clientset" where
  "cs_New G c = \<lparr>ravenV1alpha1 = raven_New c, DiscoveryClient = NewDiscoveryClient G c\<rparr>"

text \<open>
  What client-go documents of the clients it makes: each obeys the rate limiter of the
  configuration it was made from.
\<close>

definition lawful_limits ::
  "('s, 'l, 'q, 'n, 'x, 'h, 'r, 'd) client_go \<Rightarrow> ('r \<Rightarrow> 'l option) \<Rightarrow> ('d \<Rightarrow> 'l option) \<Rightarrow> bool" where
  "lawful_limits G rest_limiter discovery_limiter \<longleftrightarrow>
     (\<forall>cfg h. hoare (\<lambda>_. True) (RESTClientForConfigAndClient G cfg h)
        (\<lambda>res _. \<forall>r. res = Inr r \<longrightarrow> rest_limiter r = RateLimiter cfg)) \<and>
     (\<forall>cfg h. hoare (\<lambda>_. True) (NewDiscoveryClientForConfigAndClient G cfg h)
        (\<lambda>res _. \<forall>d. res = Inr d \<longrightarrow> discovery_limiter d = RateLimiter cfg))"

lemma setConfigDefaults_limiter [simp]: "RateLimiter (setConfigDefaults G c) = RateLimiter c"
  by (simp add: setConfigDefaults_def Let_def)

lemma rateLimited_limiter:
  "hoare (\<lambda>_. True) (rateLimited G c) (\<lambda>res _. case res of
     Inl err \<Rightarrow> RateLimiter c = None \<and> QPS_positive G (QPS c) \<and> sint (Burst c) \<le> 0
   | Inr cfg \<Rightarrow> (QPS_positive G (QPS c) \<longrightarrow> RateLimiter cfg \<noteq> None) \<and>
       (RateLimiter c \<noteq> None \<longrightarrow> RateLimiter cfg = RateLimiter c) \<and>
       \<not> (RateLimiter c = None \<and> QPS_positive G (QPS c) \<and> sint (Burst c) \<le> 0))"
  unfolding rateLimited_def by (auto simp: hoare_def split: prod.splits)

lemma raven_limiter:
  assumes "lawful_limits G rl dl"
  shows "hoare (\<lambda>_. True) (raven_NewForConfigAndClient G cfg h)
    (\<lambda>res _. \<forall>r. res = Inr r \<longrightarrow> rl (restClient r) = RateLimiter cfg)"
  using assms unfolding raven_NewForConfigAndClient_def Let_def lawful_limits_def
  by (fastforce simp: hoare_def split: prod.splits sum.splits)

lemma cs_NewForConfigAndClient_steps:
  assumes "run_state (cs_NewForConfigAndClient G c h) s = (Inr cs, s')"
  obtains cfg s1 s2 where "run_state (rateLimited G c) s = (Inr cfg, s1)"
    "run_state (raven_NewForConfigAndClient G cfg h) s1 = (Inr (ravenV1alpha1 cs), s2)"
    "run_state (NewDiscoveryClientForConfigAndClient G cfg h) s2 = (Inr (DiscoveryClient cs), s')"
  using assms by (auto simp: cs_NewForConfigAndClient_def split: prod.splits sum.splits)

text \<open>A clientset that NewForConfig returns sends all its requests through one rate limiter: its discovery client obeys the same limiter as the client of the API group, the configured one if there is one, and there is one whenever the configuration asks for a positive rate. A configuration that asks for a positive rate without a limiter and without a positive burst never gives a clientset.\<close>

theorem clientset_shares_limiter:
  assumes "lawful_limits G rl dl" and "run_state (cs_NewForConfig G c) s = (Inr cs, s')"
  shows "dl (DiscoveryClient cs) = rl (restClient (ravenV1alpha1 cs)) \<and>
    (QPS_positive G (QPS c) \<longrightarrow> dl (DiscoveryClient cs) \<noteq> None) \<and>
    (RateLimiter c \<noteq> None \<longrightarrow> dl (DiscoveryClient cs) = RateLimiter c) \<and>
    \<not> (RateLimiter c = None \<and> QPS_positive G (QPS c) \<and> sint (Burst c) \<le> 0)"
proof -
  from assms(2) obtain h s0 where "run_state (cs_NewForConfigAndClient G c h) s0 = (Inr cs, s')"
    by (auto simp: cs_NewForConfig_def split: prod.splits sum.splits)
  then obtain cfg s1 s2 where
    lim: "run_state (rateLimited G c) s0 = (Inr cfg, s1)"
    and rav: "run_state (raven_NewForConfigAndClient G cfg h) s1 = (Inr (ravenV1alpha1 cs), s2)"
    and dis: "run_state (NewDiscoveryClientForConfigAndClient G cfg h) s2 = (Inr (DiscoveryClient cs), s')"
    by (rule cs_NewForConfigAndClient_steps)
  have "rl (restClient (ravenV1alpha1 cs)) = RateLimiter cfg"
    using hoareD [OF raven_limiter [OF assms(1)] TrueI rav] by simp
  moreover have "hoare (\<lambda>_. True) (NewDiscoveryClientForConfigAndClient G cfg h)
      (\<lambda>res _. \<forall>d. res = Inr d \<longrightarrow> dl d = RateLimiter cfg)"
    using assms(1) unfolding lawful_limits_def by blast
  then have "dl (DiscoveryClient cs) = RateLimiter cfg" using hoareD [OF _ TrueI dis] by blast
  ultimately show ?thesis using hoareD [OF rateLimited_limiter TrueI lim] by simp
qed

text \<open>A client-go whose clients are the configurations they were made from.\<close>

definition toy_client_go :: "(nat, nat, int, unit, unit, unit, nat option, nat option) client_go" where
  "toy_client_go = \<lparr>HTTPClientFor = (\<lambda>_. State_Monad.return (Inr ())),
     RESTClientForConfigAndClient = (\<lambda>cfg _. State_Monad.return (Inr (RateLimiter cfg))),
     NewDiscoveryClientForConfigAndClient = (\<lambda>cfg _. State_Monad.return (Inr (RateLimiter cfg))),
     NewDiscoveryClient = (\<lambda>r. r), NewTokenBucketRateLimiter = (\<lambda>_ _. State (\<lambda>n. (n, Suc n))),
     DefaultKubernetesUserAgent = ''agent'', WithoutConversion = (), QPS_positive = (\<lambda>q. 0 < q)\<rparr>"

definition limited_config :: "(nat, int, unit, unit) rest_config" where
  "limited_config = \<lparr>RateLimiter = None, QPS = 5, Burst = 10, GroupVersion = None, APIPath = [],
     NegotiatedSerializer = None, UserAgent = [], cfg_other = ()\<rparr>"

theorem clientset_shares_limiter_witness:
  "\<exists>cs s'. run_state (cs_NewForConfig toy_client_go limited_config) 7 = (Inr cs, s') \<and>
     DiscoveryClient cs = restClient (ravenV1alpha1 cs) \<and> DiscoveryClient cs \<noteq> None"
proof -
  have run: "run_state (cs_NewForConfig toy_client_go limited_config) 7 =
     (Inr \<lparr>ravenV1alpha1 = RavenV1alpha1Client (Some 7), DiscoveryClient = Some 7\<rparr>, 8)"
    by (simp add: cs_NewForConfig_def cs_NewForConfigAndClient_def rateLimited_def raven_NewForConfigAndClient_def
        toy_client_go_def limited_config_def setConfigDefaults_def Let_def)
  have "lawful_limits toy_client_go (\<lambda>r. r) (\<lambda>d. d)"
    by (auto simp: lawful_limits_def toy_client_go_def hoare_def)
  from clientset_shares_limiter [OF this run] run show ?thesis
    by (intro exI conjI) (auto simp: toy_client_go_def limited_config_def)
qed

end
