(* ===== verification/Informer_Factory.thy ===== *)
theory Informer_Factory
  imports Gateway_Client "HOL-Library.Multiset" "HOL-Library.Char_ord" "HOL-Library.List_Lexorder"
begin

text \<open>
  The generated informers (\<^verbatim>\<open>client/informers/externalversions\<close>): the shared informer factory
  (\<^verbatim>\<open>factory.go\<close>), the lookup by resource (\<^verbatim>\<open>generic.go\<close>), the Gateway informer
  (\<^verbatim>\<open>raven/v1alpha1/gateway.go\<close>) and the Gateway lister (\<^verbatim>\<open>client/listers/raven/v1alpha1/gateway.go\<close>).
  Every method of the factory holds its lock, so a run of the program is a sequence of method
  calls; a \<^verbatim>\<open>go\<close> statement adds to the list of goroutines that were started.  Informers and
  indexers are client-go's: the functions that make, wait for and read them are parameters.
\<close>

section \<open>factory.go\<close>

text \<open>A \<^verbatim>\<open>reflect.Type\<close>; an interface value is its dynamic type and its data.\<close>

type_synonym rtype = string
type_synonym 'o interface = "rtype \<times> 'o"

definition reflect_TypeOf :: "'o interface \<Rightarrow> rtype" where "reflect_TypeOf obj = fst obj"

text \<open>\<^verbatim>\<open>TweakListOptionsFunc\<close>, and \<^verbatim>\<open>NewInformerFunc\<close> with the state \<open>'w\<close> of the cluster and client-go.\<close>

type_synonym 'o tweak = "'o listOptions \<Rightarrow> 'o listOptions"
type_synonym ('c, 'i, 'w) newInformer = "'c \<Rightarrow> 64 word \<Rightarrow> 'w \<Rightarrow> 'i \<times> 'w"

record ('c, 'o, 'i) factory =
  f_client :: 'c
  f_namespace :: string
  f_tweakListOptions :: "'o tweak option"
  f_defaultResync :: "64 word"
  f_customResync :: "(rtype, 64 word) fmap"
  f_informers :: "(rtype, 'i) fmap"
  f_startedInformers :: "(rtype, bool) fmap"

type_synonym ('c, 'o, 'i) factory_option = "('c, 'o, 'i) factory \<Rightarrow> ('c, 'o, 'i) factory"

text \<open>The map of resync periods has objects as keys; \<open>cfg\<close> lists its entries as \<^verbatim>\<open>range\<close> visits them.\<close>

definition WithCustomResyncConfig :: "('ob interface \<times> 64 word) list \<Rightarrow> ('c, 'o, 'i) factory_option" where
  "WithCustomResyncConfig cfg factory =
     fold (\<lambda>(k, v) f. f\<lparr>f_customResync := fmupd (reflect_TypeOf k) v (f_customResync f)\<rparr>) cfg factory"

definition WithTweakListOptions :: "'o tweak option \<Rightarrow> ('c, 'o, 'i) factory_option" where
  "WithTweakListOptions tweak factory = factory\<lparr>f_tweakListOptions := tweak\<rparr>"

definition WithNamespace :: "string \<Rightarrow> ('c, 'o, 'i) factory_option" where
  "WithNamespace namespace factory = factory\<lparr>f_namespace := namespace\<rparr>"

definition NewSharedInformerFactoryWithOptions ::
  "'c \<Rightarrow> 64 word \<Rightarrow> ('c, 'o, 'i) factory_option list \<Rightarrow> ('c, 'o, 'i) factory" where
  "NewSharedInformerFactoryWithOptions client defaultResync options =
     (let factory = \<lparr>f_client = client, f_namespace = [], f_tweakListOptions = None,
            f_defaultResync = defaultResync, f_customResync = fmempty, f_informers = fmempty,
            f_startedInformers = fmempty\<rparr>
      in fold (\<lambda>opt factory. opt factory) options factory)"

definition NewSharedInformerFactory :: "'c \<Rightarrow> 64 word \<Rightarrow> ('c, 'o, 'i) factory" where
  "NewSharedInformerFactory client defaultResync = NewSharedInformerFactoryWithOptions client defaultResync []"

definition NewFilteredSharedInformerFactory ::
  "'c \<Rightarrow> 64 word \<Rightarrow> string \<Rightarrow> 'o tweak option \<Rightarrow> ('c, 'o, 'i) factory" where
  "NewFilteredSharedInformerFactory client defaultResync namespace tweak =
     NewSharedInformerFactoryWithOptions client defaultResync [WithNamespace namespace, WithTweakListOptions tweak]"

text \<open>
  The process around the factory: the goroutines \<^verbatim>\<open>informer.Run(stopCh)\<close> it started, oldest
  first, and the state of everything else.
\<close>

record ('c, 'o, 'i, 'ch, 'w) factory_process =
  p_factory :: "('c, 'o, 'i) factory"
  p_goroutines :: "('i \<times> 'ch) list"
  p_world :: 'w

text \<open>Reading a key that is missing from a map of booleans gives false.\<close>

definition informer_started :: "('c, 'o, 'i) factory \<Rightarrow> rtype \<Rightarrow> bool" where
  "informer_started f t \<longleftrightarrow> fmlookup (f_startedInformers f) t = Some True"

definition start_informer :: "'ch \<Rightarrow> rtype \<Rightarrow> ('c, 'o, 'i, 'ch, 'w) factory_process \<Rightarrow> ('c, 'o, 'i, 'ch, 'w) factory_process" where
  "start_informer stopCh t p =
     (case fmlookup (f_informers (p_factory p)) t of
        None \<Rightarrow> p
      | Some informer \<Rightarrow>
          if \<not> informer_started (p_factory p) t then
            p\<lparr>p_goroutines := p_goroutines p @ [(informer, stopCh)],
              p_factory := (p_factory p)
                \<lparr>f_startedInformers := fmupd t True (f_startedInformers (p_factory p))\<rparr>\<rparr>
          else p)"

text \<open>\<open>rng\<close> is the order in which \<^verbatim>\<open>range\<close> visits the types, any that visits each once.\<close>

definition factory_Start :: "(rtype fset \<Rightarrow> rtype list) \<Rightarrow> 'ch \<Rightarrow> ('c, 'o, 'i, 'ch, 'w) factory_process \<Rightarrow> ('c, 'o, 'i, 'ch, 'w) factory_process" where
  "factory_Start rng stopCh p = fold (start_informer stopCh) (rng (fmdom (f_informers (p_factory p)))) p"

text \<open>The informers that were started, copied under the lock, and then waited for one by one without it.\<close>

definition started_informers :: "('c, 'o, 'i) factory \<Rightarrow> (rtype, 'i) fmap" where
  "started_informers f = fmfilter (informer_started f) (f_informers f)"

definition wait_informer ::
  "('ch \<Rightarrow> 'i \<Rightarrow> 'w \<Rightarrow> bool \<times> 'w) \<Rightarrow> 'ch \<Rightarrow> (rtype, 'i) fmap \<Rightarrow> rtype \<Rightarrow>
    (rtype, bool) fmap \<times> ('c, 'o, 'i, 'ch, 'w) factory_process \<Rightarrow> (rtype, bool) fmap \<times> ('c, 'o, 'i, 'ch, 'w) factory_process" where
  "wait_informer wait stopCh informers t rp =
     (case fmlookup informers t of
        None \<Rightarrow> rp
      | Some informer \<Rightarrow>
          (case wait stopCh informer (p_world (snd rp)) of
             (ok, w) \<Rightarrow> (fmupd t ok (fst rp), (snd rp)\<lparr>p_world := w\<rparr>)))"

definition WaitForCacheSync ::
  "(rtype fset \<Rightarrow> rtype list) \<Rightarrow> ('ch \<Rightarrow> 'i \<Rightarrow> 'w \<Rightarrow> bool \<times> 'w) \<Rightarrow> 'ch \<Rightarrow> ('c, 'o, 'i, 'ch, 'w) factory_process \<Rightarrow>
    (rtype, bool) fmap \<times> ('c, 'o, 'i, 'ch, 'w) factory_process" where
  "WaitForCacheSync rng wait stopCh p =
     (let informers = started_informers (p_factory p)
      in fold (wait_informer wait stopCh informers) (rng (fmdom informers)) (fmempty, p))"

definition InformerFor ::
  "'ob interface \<Rightarrow> ('c, 'i, 'w) newInformer \<Rightarrow> ('c, 'o, 'i, 'ch, 'w) factory_process \<Rightarrow> 'i \<times> ('c, 'o, 'i, 'ch, 'w) factory_process" where
  "InformerFor obj newFunc p =
     (let f = p_factory p; informerType = reflect_TypeOf obj
      in case fmlookup (f_informers f) informerType of
           Some informer \<Rightarrow> (informer, p)
         | None \<Rightarrow>
             let resyncPeriod = (case fmlookup (f_customResync f) informerType of
                   Some d \<Rightarrow> d | None \<Rightarrow> f_defaultResync f)
             in case newFunc (f_client f) resyncPeriod (p_world p) of
                  (informer, w) \<Rightarrow>
                    (informer, p\<lparr>p_factory := f\<lparr>f_informers := fmupd informerType informer (f_informers f)\<rparr>,
                       p_world := w\<rparr>))"

section \<open>raven/v1alpha1/gateway.go\<close>

text \<open>\<^verbatim>\<open>cache.ListWatch\<close>, over the typed client.\<close>

record ('s, 'o, 'wa) listWatch =
  ListFunc :: "'o listOptions \<Rightarrow> ('s, gateway list \<times> error option) state"
  WatchFunc :: "'o listOptions \<Rightarrow> ('s, error + 'wa) state"

definition tweaked :: "'o tweak option \<Rightarrow> 'o listOptions \<Rightarrow> 'o listOptions" where
  "tweaked tweakListOptions options = (case tweakListOptions of None \<Rightarrow> options | Some tweak \<Rightarrow> tweak options)"

definition gateway_listWatch ::
  "('s, 'o, 'wa) rest_client \<Rightarrow> 'o tweak option \<Rightarrow> ('s, 'o, 'wa) listWatch" where
  "gateway_listWatch client tweakListOptions =
     \<lparr>ListFunc = (\<lambda>options. let options = tweaked tweakListOptions options in gateways_List client options),
      WatchFunc = (\<lambda>options. let options = tweaked tweakListOptions options in gateways_Watch client options)\<rparr>"

text \<open>
  \<^verbatim>\<open>cache.NewSharedIndexInformer\<close>: from the list-watch, the example object, the resync period and
  the names of the indexers to a new informer.
\<close>

type_synonym ('s, 'o, 'wa, 'i, 'w) new_shared =
  "('s, 'o, 'wa) listWatch \<Rightarrow> rtype \<Rightarrow> 64 word \<Rightarrow> string list \<Rightarrow> 'w \<Rightarrow> 'i \<times> 'w"

definition gatewayType :: rtype where "gatewayType = ''*v1alpha1.Gateway''"

definition NewFilteredGatewayInformer ::
  "('s, 'o, 'wa, 'i, 'w) new_shared \<Rightarrow> ('s, 'o, 'wa) rest_client \<Rightarrow> 64 word \<Rightarrow> string list \<Rightarrow> 'o tweak option \<Rightarrow>
    'w \<Rightarrow> 'i \<times> 'w" where
  "NewFilteredGatewayInformer new_shared client resyncPeriod indexers tweakListOptions =
     new_shared (gateway_listWatch client tweakListOptions) gatewayType resyncPeriod indexers"

definition NewGatewayInformer ::
  "('s, 'o, 'wa, 'i, 'w) new_shared \<Rightarrow> ('s, 'o, 'wa) rest_client \<Rightarrow> 64 word \<Rightarrow> string list \<Rightarrow> 'w \<Rightarrow> 'i \<times> 'w" where
  "NewGatewayInformer new_shared client resyncPeriod indexers =
     NewFilteredGatewayInformer new_shared client resyncPeriod indexers None"

text \<open>The factory behind the interfaces of \<^verbatim>\<open>raven.New\<close> and \<^verbatim>\<open>v1alpha1.New\<close>, which only pass it on.\<close>

record 'o gatewayInformer =
  gi_namespace :: string
  gi_tweakListOptions :: "'o tweak option"

definition Raven_Gateways :: "('c, 'o, 'i) factory \<Rightarrow> 'o gatewayInformer" where
  "Raven_Gateways f = \<lparr>gi_namespace = f_namespace f, gi_tweakListOptions = f_tweakListOptions f\<rparr>"

definition defaultInformer ::
  "('s, 'o, 'wa, 'i, 'w) new_shared \<Rightarrow> 'o gatewayInformer \<Rightarrow> (('s, 'o, 'wa) rest_client, 'i, 'w) newInformer" where
  "defaultInformer new_shared g client resyncPeriod =
     NewFilteredGatewayInformer new_shared client resyncPeriod [''namespace''] (gi_tweakListOptions g)"

definition gateway_Informer ::
  "('s, 'o, 'wa, 'i, 'w) new_shared \<Rightarrow> 'o gatewayInformer \<Rightarrow>
    (('s, 'o, 'wa) rest_client, 'o, 'i, 'ch, 'w) factory_process \<Rightarrow> 'i \<times> (('s, 'o, 'wa) rest_client, 'o, 'i, 'ch, 'w) factory_process" where
  "gateway_Informer new_shared g = InformerFor (gatewayType, ()) (defaultInformer new_shared g)"

section \<open>generic.go\<close>

record group_version_resource =
  gvr_Group :: string
  gvr_Version :: string
  gvr_Resource :: string

record 'i genericInformer =
  gen_informer :: 'i
  gen_resource :: "string \<times> string"

definition gateways_gvr :: group_version_resource where
  "gateways_gvr = \<lparr>gvr_Group = gv_Group SchemeGroupVersion, gvr_Version = gv_Version SchemeGroupVersion,
     gvr_Resource = ''gateways''\<rparr>"

definition ForResource ::
  "('s, 'o, 'wa, 'i, 'w) new_shared \<Rightarrow> group_version_resource \<Rightarrow>
    (('s, 'o, 'wa) rest_client, 'o, 'i, 'ch, 'w) factory_process \<Rightarrow>
    (error + 'i genericInformer) \<times> (('s, 'o, 'wa) rest_client, 'o, 'i, 'ch, 'w) factory_process" where
  "ForResource new_shared res p =
     (if res = gateways_gvr then
        (case gateway_Informer new_shared (Raven_Gateways (p_factory p)) p of
           (informer, p') \<Rightarrow> (Inr \<lparr>gen_informer = informer, gen_resource = (gvr_Group res, gvr_Resource res)\<rparr>, p'))
      else (Inl (ErrorText ''no informer found''), p))"

section \<open>The Gateway lister\<close>

text \<open>An indexer of client-go: \<^verbatim>\<open>cache.ListAll\<close> calls a function on every object that matches.\<close>

record ('sel, 's) indexer =
  ListAll :: "'sel \<Rightarrow> ('s, gateway list \<times> error option) state"
  GetByKey :: "string \<Rightarrow> ('s, error + gateway option) state"

definition lister_List :: "('sel, 's) indexer \<Rightarrow> 'sel \<Rightarrow> ('s, gateway list \<times> error option) state" where
  "lister_List s selector = do {
     (ms, err) \<leftarrow> ListAll s selector;
     let ret = fold (\<lambda>m ret. ret @ [m]) ms [];
     State_Monad.return (ret, err)
   }"

definition lister_Get :: "('sel, 's) indexer \<Rightarrow> string \<Rightarrow> ('s, error + gateway) state" where
  "lister_Get s name = do {
     res \<leftarrow> GetByKey s name;
     State_Monad.return (case res of
        Inl err \<Rightarrow> Inl err
      | Inr None \<Rightarrow> Inl (ApiError ReasonNotFound)
      | Inr (Some obj) \<Rightarrow> Inr obj)
   }"

section \<open>Every informer is made once and run once\<close>

text \<open>
  What the program can do with a factory: the calls of its methods, in any order and with any
  arguments, while the rest of the world moves on.
\<close>

inductive factory_step ::
  "(rtype fset \<Rightarrow> rtype list) \<Rightarrow> ('ch \<Rightarrow> 'i \<Rightarrow> 'w \<Rightarrow> bool \<times> 'w) \<Rightarrow>
    ('c, 'o, 'i, 'ch, 'w) factory_process \<Rightarrow> ('c, 'o, 'i, 'ch, 'w) factory_process \<Rightarrow> bool"
  for rng wait where
  request: "factory_step rng wait p (snd (InformerFor (t, ()) newFunc p))"
| start: "factory_step rng wait p (factory_Start rng stopCh p)"
| wait: "factory_step rng wait p (snd (WaitForCacheSync rng wait stopCh p))"
| elsewhere: "factory_step rng wait p (p\<lparr>p_world := w\<rparr>)"

abbreviation factory_steps where "factory_steps rng wait \<equiv> (factory_step rng wait)\<^sup>*\<^sup>*"

text \<open>The options of this package; no other can be written, as the factory's type is not exported.\<close>

definition library_option :: "('c, 'o, 'i) factory_option \<Rightarrow> bool" where
  "library_option opt \<longleftrightarrow>
     (\<exists>cfg :: (unit interface \<times> 64 word) list. opt = WithCustomResyncConfig cfg) \<or>
     (\<exists>tweak. opt = WithTweakListOptions tweak) \<or> (\<exists>namespace. opt = WithNamespace namespace)"

definition visits_all :: "(rtype fset \<Rightarrow> rtype list) \<Rightarrow> bool" where
  "visits_all rng \<longleftrightarrow> (\<forall>S. distinct (rng S) \<and> set (rng S) = fset S)"

text \<open>The informers that run are those of the started types, one goroutine each.\<close>

definition runs_once :: "('c, 'o, 'i, 'ch, 'w) factory_process \<Rightarrow> bool" where
  "runs_once p \<longleftrightarrow>
     Collect (informer_started (p_factory p)) \<subseteq> fset (fmdom (f_informers (p_factory p))) \<and>
     mset (List.map fst (p_goroutines p)) =
       image_mset (\<lambda>t. the (fmlookup (f_informers (p_factory p)) t)) (mset_set (Collect (informer_started (p_factory p))))"

lemma finite_started: "runs_once p \<Longrightarrow> finite (Collect (informer_started (p_factory p)))"
  unfolding runs_once_def by (auto intro: finite_subset [OF _ finite_fset])

lemma WithCustomResyncConfig_maps:
  "f_informers (WithCustomResyncConfig cfg f) = f_informers f"
  "f_startedInformers (WithCustomResyncConfig cfg f) = f_startedInformers f"
proof -
  have "f_informers (fold (\<lambda>(k, v) f. f\<lparr>f_customResync := fmupd (reflect_TypeOf k) v (f_customResync f)\<rparr>) cfg f) = f_informers f \<and>
    f_startedInformers (fold (\<lambda>(k, v) f. f\<lparr>f_customResync := fmupd (reflect_TypeOf k) v (f_customResync f)\<rparr>) cfg f) =
      f_startedInformers f"
    by (induction cfg arbitrary: f) auto
  then show "f_informers (WithCustomResyncConfig cfg f) = f_informers f"
    "f_startedInformers (WithCustomResyncConfig cfg f) = f_startedInformers f"
    by (simp_all add: WithCustomResyncConfig_def)
qed

lemma library_option_maps:
  "library_option opt \<Longrightarrow> f_informers (opt f) = f_informers f \<and> f_startedInformers (opt f) = f_startedInformers f"
  by (auto simp: library_option_def WithCustomResyncConfig_maps WithTweakListOptions_def WithNamespace_def)

lemma new_factory_empty:
  assumes "list_all library_option opts"
  shows "f_informers (NewSharedInformerFactoryWithOptions c d opts) = fmempty \<and>
    f_startedInformers (NewSharedInformerFactoryWithOptions c d opts) = fmempty"
proof -
  have "f_informers (fold (\<lambda>opt f. opt f) opts f) = f_informers f \<and>
      f_startedInformers (fold (\<lambda>opt f. opt f) opts f) = f_startedInformers f" for f
    using assms by (induction opts arbitrary: f) (auto simp: library_option_maps)
  then show ?thesis by (simp add: NewSharedInformerFactoryWithOptions_def Let_def)
qed

lemma start_informer_informers [simp]:
  "f_informers (p_factory (start_informer ch t p)) = f_informers (p_factory p)"
  by (simp add: start_informer_def split: option.splits)

lemma start_informer_started:
  "informer_started (p_factory (start_informer ch t p)) u \<longleftrightarrow>
    informer_started (p_factory p) u \<or> u = t \<and> t |\<in>| fmdom (f_informers (p_factory p))"
  by (auto simp: start_informer_def informer_started_def fmdomI split: option.splits)

lemma start_informer_runs_once: "runs_once p \<Longrightarrow> runs_once (start_informer ch t p)"
proof (cases "fmlookup (f_informers (p_factory p)) t")
  case (Some i)
  assume inv: "runs_once p"
  show ?thesis
  proof (cases "informer_started (p_factory p) t")
    case False
    have st: "Collect (informer_started (p_factory (start_informer ch t p))) = insert t (Collect (informer_started (p_factory p)))"
      using Some by (auto simp: start_informer_started fmdomI)
    have go: "mset (List.map fst (p_goroutines (start_informer ch t p))) = add_mset i (mset (List.map fst (p_goroutines p)))"
      using Some False by (simp add: start_informer_def)
    show ?thesis
      using inv finite_started [OF inv] False Some unfolding runs_once_def st go
      by (auto simp: fmdomI)
  qed (use inv Some in \<open>simp add: start_informer_def\<close>)
qed (simp add: start_informer_def)

lemma Start_informers [simp]: "f_informers (p_factory (factory_Start rng ch p)) = f_informers (p_factory p)"
proof -
  have "f_informers (p_factory (fold (start_informer ch) ts p)) = f_informers (p_factory p)" for ts
    by (induction ts arbitrary: p) auto
  then show ?thesis by (simp add: factory_Start_def)
qed

lemma Start_runs_once: "runs_once p \<Longrightarrow> runs_once (factory_Start rng ch p)"
proof -
  have "runs_once p \<Longrightarrow> runs_once (fold (start_informer ch) ts p)" for ts
    by (induction ts arbitrary: p) (auto simp: start_informer_runs_once)
  then show "runs_once p \<Longrightarrow> runs_once (factory_Start rng ch p)" by (simp add: factory_Start_def)
qed

lemma Start_started:
  assumes "visits_all rng"
  shows "informer_started (p_factory (factory_Start rng ch p)) u \<longleftrightarrow>
    informer_started (p_factory p) u \<or> u |\<in>| fmdom (f_informers (p_factory p))"
proof -
  have "informer_started (p_factory (fold (start_informer ch) ts p)) u \<longleftrightarrow>
      informer_started (p_factory p) u \<or> u \<in> set ts \<and> u |\<in>| fmdom (f_informers (p_factory p))" for ts
    by (induction ts arbitrary: p) (auto simp: start_informer_started)
  then show ?thesis using assms by (simp add: factory_Start_def visits_all_def)
qed

text \<open>A request for a type that is known changes nothing; otherwise it adds the new informer under its type.\<close>

lemma InformerFor_known:
  "fmlookup (f_informers (p_factory p)) t = Some i \<Longrightarrow> InformerFor (t, ob) newFunc p = (i, p)"
  by (simp add: InformerFor_def reflect_TypeOf_def Let_def)

lemma InformerFor_new:
  assumes "fmlookup (f_informers (p_factory p)) t = None"
  obtains i w where "InformerFor (t, ob) newFunc p =
    (i, p\<lparr>p_factory := (p_factory p)\<lparr>f_informers := fmupd t i (f_informers (p_factory p))\<rparr>, p_world := w\<rparr>)"
proof -
  obtain i w where "newFunc (f_client (p_factory p))
      (case fmlookup (f_customResync (p_factory p)) t of None \<Rightarrow> f_defaultResync (p_factory p) | Some d \<Rightarrow> d)
      (p_world p) = (i, w)" by fastforce
  with assms show thesis by (intro that [of i w]) (simp add: InformerFor_def reflect_TypeOf_def Let_def)
qed

lemma InformerFor_runs_once:
  assumes inv: "runs_once p"
  shows "runs_once (snd (InformerFor (t, ob) newFunc p))"
proof (cases "fmlookup (f_informers (p_factory p)) t")
  case None
  from None obtain i w where r: "InformerFor (t, ob) newFunc p =
      (i, p\<lparr>p_factory := (p_factory p)\<lparr>f_informers := fmupd t i (f_informers (p_factory p))\<rparr>, p_world := w\<rparr>)"
    by (rule InformerFor_new)
  have "\<not> informer_started (p_factory p) t" using inv None by (auto simp: runs_once_def fmdom_notI)
  then have "image_mset (\<lambda>u. the (fmlookup (fmupd t i (f_informers (p_factory p))) u)) (mset_set (Collect (informer_started (p_factory p)))) =
      image_mset (\<lambda>u. the (fmlookup (f_informers (p_factory p)) u)) (mset_set (Collect (informer_started (p_factory p))))"
    using finite_started [OF inv] by (intro image_mset_cong) auto
  moreover have "informer_started ((p_factory p)\<lparr>f_informers := m\<rparr>) = informer_started (p_factory p)" for m
    by (simp add: informer_started_def fun_eq_iff)
  ultimately show ?thesis using inv by (auto simp: r runs_once_def)
qed (simp add: InformerFor_known inv)

lemma wait_informer_process: "\<exists>w. snd (wait_informer wait ch m t rp) = (snd rp)\<lparr>p_world := w\<rparr>"
  by (cases "fmlookup m t") (auto simp: wait_informer_def split: prod.splits intro: exI [of _ "p_world (snd rp)"])

lemma wait_informer_dom:
  "fset (fmdom (fst (wait_informer wait ch m t rp))) = fset (fmdom (fst rp)) \<union> ({t} \<inter> fset (fmdom m))"
  by (cases "fmlookup m t") (auto simp: wait_informer_def fmdomI fmdom_notI split: prod.splits)

lemma WaitForCacheSync_process: "\<exists>w. snd (WaitForCacheSync rng wait ch p) = p\<lparr>p_world := w\<rparr>"
proof -
  have "\<exists>w. snd (fold (wait_informer wait ch m) ts rp) = (snd rp)\<lparr>p_world := w\<rparr>" for m ts rp
  proof (induction ts arbitrary: rp)
    case Nil
    show ?case by (rule exI [of _ "p_world (snd rp)"]) simp
  next
    case (Cons t ts)
    from wait_informer_process [of wait ch m t rp] Cons.IH [of "wait_informer wait ch m t rp"] show ?case by auto
  qed
  from this [of _ _ "(fmempty, p)"] show ?thesis by (simp add: WaitForCacheSync_def Let_def)
qed

text \<open>WaitForCacheSync reports on the types that are started, and on no other.\<close>

lemma WaitForCacheSync_reports:
  assumes "visits_all rng"
  shows "fset (fmdom (fst (WaitForCacheSync rng wait ch p))) =
    fset (fmdom (f_informers (p_factory p))) \<inter> Collect (informer_started (p_factory p))"
proof -
  have "fset (fmdom (fst (fold (wait_informer wait ch m) ts rp))) =
      fset (fmdom (fst rp)) \<union> (set ts \<inter> fset (fmdom m))" for m ts rp
    by (induction ts arbitrary: rp) (auto simp: wait_informer_dom)
  from this [of "started_informers (p_factory p)" "rng (fmdom (started_informers (p_factory p)))" "(fmempty, p)"]
  have "fset (fmdom (fst (WaitForCacheSync rng wait ch p))) = fset (fmdom (started_informers (p_factory p)))"
    using assms by (simp add: WaitForCacheSync_def Let_def visits_all_def)
  also have "\<dots> = fset (fmdom (f_informers (p_factory p))) \<inter> Collect (informer_started (p_factory p))"
    by (auto simp: started_informers_def)
  finally show ?thesis .
qed

lemma runs_once_world [simp]: "runs_once (p\<lparr>p_world := w\<rparr>) = runs_once p"
  by (simp add: runs_once_def)

lemma InformerFor_keeps:
  assumes "fmlookup (f_informers (p_factory p)) t = Some i"
  shows "fmlookup (f_informers (p_factory (snd (InformerFor (u, ob) newFunc p)))) t = Some i"
proof (cases "fmlookup (f_informers (p_factory p)) u")
  case None
  then obtain j w where r: "InformerFor (u, ob) newFunc p =
      (j, p\<lparr>p_factory := (p_factory p)\<lparr>f_informers := fmupd u j (f_informers (p_factory p))\<rparr>, p_world := w\<rparr>)"
    by (rule InformerFor_new)
  have "u \<noteq> t" using assms None by auto
  with assms show ?thesis by (simp add: r)
qed (use assms in \<open>simp add: InformerFor_known\<close>)

lemma factory_step_keeps:
  assumes "factory_step rng wait p p'"
  shows "(runs_once p \<longrightarrow> runs_once p') \<and>
    (fmlookup (f_informers (p_factory p)) t = Some i \<longrightarrow> fmlookup (f_informers (p_factory p')) t = Some i)"
  using assms
proof cases
  case (wait stopCh)
  moreover obtain w where "snd (WaitForCacheSync rng wait stopCh p) = p\<lparr>p_world := w\<rparr>"
    using WaitForCacheSync_process [of rng wait stopCh p] by blast
  ultimately show ?thesis by simp
qed (simp_all add: Start_runs_once InformerFor_runs_once InformerFor_keeps)

lemma factory_steps_keep:
  assumes "factory_steps rng wait p p'"
  shows "(runs_once p \<longrightarrow> runs_once p') \<and>
    (fmlookup (f_informers (p_factory p)) t = Some i \<longrightarrow> fmlookup (f_informers (p_factory p')) t = Some i)"
  using assms
proof induction
  case (step q r)
  with factory_step_keeps [OF step.hyps(2)] show ?case by simp
qed simp

text \<open>C38: However a program uses a shared informer factory, each informer is made once and run once. Whatever sequence of calls a new factory with any options has answered: the goroutines started are one per started type, each running that type's informer; one more call of Start leaves exactly the types requested so far started; an informer once handed out for a type is the answer to every later request for that type, which makes no other.\<close>

theorem factory_makes_and_runs_once:
  assumes "visits_all rng" and "list_all library_option opts"
    and "p_factory p0 = NewSharedInformerFactoryWithOptions client resync opts" and "p_goroutines p0 = []"
    and "factory_steps rng wait p0 p"
  shows "mset (List.map fst (p_goroutines p)) =
      image_mset (\<lambda>t. the (fmlookup (f_informers (p_factory p)) t)) (mset_set (Collect (informer_started (p_factory p)))) \<and>
    Collect (informer_started (p_factory p)) \<subseteq> Collect (informer_started (p_factory (factory_Start rng stopCh p))) \<and>
    Collect (informer_started (p_factory (factory_Start rng stopCh p))) = fset (fmdom (f_informers (p_factory p))) \<and>
    (\<forall>t i p' newFunc. fmlookup (f_informers (p_factory p)) t = Some i \<and> factory_steps rng wait p p' \<longrightarrow>
      InformerFor (t, ()) newFunc p' = (i, p'))"
proof -
  have "runs_once p0" using assms(3,4) new_factory_empty [OF assms(2), of client resync]
    by (simp add: runs_once_def informer_started_def [abs_def])
  then have inv: "runs_once p" using factory_steps_keep [OF assms(5)] by blast
  moreover have "Collect (informer_started (p_factory (factory_Start rng stopCh p))) = fset (fmdom (f_informers (p_factory p)))"
    using inv by (auto simp: Start_started [OF assms(1)] runs_once_def)
  moreover have "InformerFor (t, ()) newFunc p' = (i, p')"
    if "fmlookup (f_informers (p_factory p)) t = Some i" "factory_steps rng wait p p'" for t i p' newFunc
    using factory_steps_keep [OF that(2)] that(1) by (simp add: InformerFor_known)
  ultimately show ?thesis by (auto simp: runs_once_def)
qed

text \<open>A run with two requests for one type and two calls of Start.\<close>

definition sorted_types :: "rtype fset \<Rightarrow> rtype list" where "sorted_types S = sorted_list_of_fset S"

definition count_up :: "(unit, nat, nat) newInformer" where "count_up client resync w = (w, Suc w)"

definition first_process :: "(unit, unit, nat, nat, nat) factory_process" where
  "first_process = \<lparr>p_factory = NewFilteredSharedInformerFactory () 30 ''ns'' None, p_goroutines = [], p_world = 0\<rparr>"

definition second_process :: "(unit, unit, nat, nat, nat) factory_process" where
  "second_process = factory_Start sorted_types 2 (factory_Start sorted_types 1
     (snd (InformerFor (gatewayType, ()) count_up (snd (InformerFor (gatewayType, ()) count_up first_process)))))"

lemma second_process_eq: "p_goroutines second_process = [(0, 1)]" "f_informers (p_factory second_process) = fmupd gatewayType 0 fmempty"
  by (simp_all add: second_process_def first_process_def InformerFor_def reflect_TypeOf_def Let_def count_up_def
      NewFilteredSharedInformerFactory_def NewSharedInformerFactoryWithOptions_def WithNamespace_def
      WithTweakListOptions_def factory_Start_def sorted_types_def sorted_list_of_fset.rep_eq start_informer_def informer_started_def)

theorem factory_makes_and_runs_once_witness:
  "mset (List.map fst (p_goroutines second_process)) = {#0#} \<and>
   Collect (informer_started (p_factory (factory_Start sorted_types 3 second_process))) = {gatewayType} \<and>
   InformerFor (gatewayType, ()) count_up second_process = (0, second_process)"
proof -
  have "visits_all sorted_types" by (simp add: visits_all_def sorted_types_def sorted_list_of_fset.rep_eq)
  moreover have "list_all library_option [WithNamespace ''ns'', WithTweakListOptions None]"
    by (auto simp: library_option_def)
  moreover have "p_factory first_process = NewSharedInformerFactoryWithOptions () 30 [WithNamespace ''ns'', WithTweakListOptions None]"
    "p_goroutines first_process = []"
    by (simp_all add: first_process_def NewFilteredSharedInformerFactory_def)
  moreover have "factory_steps sorted_types (\<lambda>ch i w. (True, w)) first_process second_process"
  proof -
    let ?step = "factory_step sorted_types (\<lambda>ch i w. (True, w))"
    define p1 p2 p3 where "p1 = snd (InformerFor (gatewayType, ()) count_up first_process)"
      and "p2 = snd (InformerFor (gatewayType, ()) count_up p1)" and "p3 = factory_Start sorted_types 1 p2"
    have "?step first_process p1" "?step p1 p2" "?step p2 p3" "?step p3 second_process"
      unfolding p1_def p2_def p3_def second_process_def by (rule request start)+
    then show ?thesis by (meson rtranclp.rtrancl_into_rtrancl rtranclp.rtrancl_refl)
  qed
  ultimately have "Collect (informer_started (p_factory (factory_Start sorted_types 3 second_process))) =
      fset (fmdom (f_informers (p_factory second_process))) \<and>
    (\<forall>t i p' newFunc. fmlookup (f_informers (p_factory second_process)) t = Some i \<and>
      factory_steps sorted_types (\<lambda>ch i w. (True, w)) second_process p' \<longrightarrow> InformerFor (t, ()) newFunc p' = (i, p'))"
    using factory_makes_and_runs_once [of sorted_types "[WithNamespace ''ns'', WithTweakListOptions None]" first_process
        "()" 30 "\<lambda>ch i w. (True, w)" second_process 3] by blast
  then show ?thesis by (auto simp: second_process_eq)
qed

end
