(* ===== verification/Spec2Isabelle.thy ===== *)
theory Spec2Isabelle
  imports Gateway_Webhook Gateway_Controller Service_Controller Atomic_Writer_Spec Webhook_Config Fs_Example
    Readlink_Faults Controller_Manager Deep_Copy_Spec Informer_Factory
begin

text \<open>
  \<^bold>\<open>raven-controller-manager\<close>

  The program (\<^verbatim>\<open>src/main.go\<close>, packages under \<^verbatim>\<open>src/pkg/ravencontroller\<close>) is a Kubernetes
  controller manager for Gateway resources.  Its parts are: two reconcilers, one that elects the
  active endpoint of a gateway and writes its status, one that keeps a LoadBalancer service and
  its endpoints in line with the gateways that are exposed by a load balancer; an admission
  webhook that defaults and validates gateways; and the machinery that gives this webhook
  certificates: a generator, two stores (a secret and a directory that is written atomically),
  and a controller that keeps the directory, the secret and the two webhook configurations in
  agreement.  \<^verbatim>\<open>main\<close> registers them and starts the manager.  The reconcilers meet the
  webhook in the gateways it lets pass (first section below); they share the service, whose
  ingress address the gateway controller reads and the service controller maintains.

  \<^bold>\<open>How the code is written here.\<close>  Structs are records, enums and tagged unions datatypes,
  strings lists of characters, nil-able maps and pointers options.  A function that calls the
  API server, the file system or a library is a computation of the state monad whose state is
  what those calls may change; \<^verbatim>\<open>(T, error)\<close> is a sum with the error on the left, and run-time
  panics, \<^verbatim>\<open>klog.Fatalf\<close> and \<^verbatim>\<open>os.Exit\<close> are values as well.  Code that is not in the repository
  (client-go, controller-runtime, RSA and X.509, JSON, apimachinery) is a record of functions that
  the definitions take as an argument; what its documentation says of them are the \<open>lawful_\<close>
  definitions, which the theorems have as hypotheses and the examples show to be satisfiable.
  Where Go leaves an order open (\<^verbatim>\<open>range\<close> over a map, the scheduling of goroutines) the order is
  an argument or a step relation, and the theorems hold for all of them.

  \<^bold>\<open>The theories.\<close>

  \<^item> Shared: \<^verbatim>\<open>Raven_Prelude\<close> (Go values, strings, Hoare triples and their rules \<open>triple\<close>);
    \<^verbatim>\<open>Go_Path\<close>, \<^verbatim>\<open>Go_Net\<close>, \<^verbatim>\<open>Go_Time\<close>, \<^verbatim>\<open>Go_Memory\<close> (what the code uses of Go's standard library
    and of its memory); \<^verbatim>\<open>Kube_Types\<close> (API objects, errors).
  \<^item> \<^verbatim>\<open>Raven_Types\<close>: \<^verbatim>\<open>gateway_types.go\<close>, \<^verbatim>\<open>blockaffinity.go\<close> and the cluster the reconcilers
    call.  \<^verbatim>\<open>Gateway_Webhook\<close>: \<^verbatim>\<open>gateway_webhook.go\<close>, the accepted gateways exactly, and the panic.
  \<^item> \<^verbatim>\<open>Gateway_Controller\<close>: \<^verbatim>\<open>controllers/gateway\<close>.  The election is specified by the locale
    \<open>election\<close>; a successful reconcile records the event of the election and writes exactly the
    status the specification asks for.
  \<^item> \<^verbatim>\<open>Service_Controller\<close>: \<^verbatim>\<open>controllers/service\<close>.  \<open>api_view\<close> abstracts the cluster to the managed
    objects; a reconcile that succeeds refines one assignment to it, and touches nothing else.
  \<^item> The certificate directory: \<^verbatim>\<open>Posix_Fs\<close> (a file system with links, every call of which can
    fail), \<^verbatim>\<open>Atomic_Writer\<close> (\<^verbatim>\<open>atomic_writer.go\<close>), \<^verbatim>\<open>Fs_Logic\<close> and \<^verbatim>\<open>Fs_Walk\<close> (triples that bound every
    intermediate file system), \<^verbatim>\<open>Atomic_Writer_Proofs\<close>, \<^verbatim>\<open>Atomic_Writer_Correct\<close> and
    \<^verbatim>\<open>Atomic_Writer_Spec\<close> (what a reader of the directory sees at every moment of a write).
  \<^item> Certificates: \<^verbatim>\<open>Cert_Generator\<close> (\<^verbatim>\<open>util/generator\<close>), \<^verbatim>\<open>Cert_Writer\<close> (\<^verbatim>\<open>certwriter.go\<close>; the
    locale \<open>cert_store\<close> is the interface \<^verbatim>\<open>certReadWriter\<close>), \<^verbatim>\<open>Secret_Writer\<close> (\<^verbatim>\<open>secret.go\<close>),
    \<^verbatim>\<open>Fs_Writer\<close>, \<^verbatim>\<open>Fs_Writer_Spec\<close>, \<^verbatim>\<open>Fs_Steps\<close> and \<^verbatim>\<open>Fs_Store\<close> (\<^verbatim>\<open>fs.go\<close>, the second instance);
    \<^verbatim>\<open>Cert_Example\<close> and \<^verbatim>\<open>Fs_Example\<close> are concrete libraries and directories.  The properties
    of both writers of the directory hold whatever calls fail, except that links must be readable
    (\<open>readlink_works\<close>): the code takes an error of \<^verbatim>\<open>os.Readlink\<close> for an answer, and
    \<^verbatim>\<open>Readlink_Faults\<close> runs it into the consequences.
  \<^item> The webhook's start: \<^verbatim>\<open>Webhook_Util\<close>, \<^verbatim>\<open>Webhook_World\<close>, \<^verbatim>\<open>Webhook_Config\<close>
    (\<^verbatim>\<open>configuration.go\<close>), \<^verbatim>\<open>Webhook_Controller\<close> (\<^verbatim>\<open>webhook_controller.go\<close>, \<^verbatim>\<open>webhook.go\<close>),
    \<^verbatim>\<open>Webhook_Controller_Spec\<close> (one sync), \<^verbatim>\<open>Webhook_Process\<close> (all goroutines and the queue's timer,
    as a step relation with an invariant, and that the worker is served), \<^verbatim>\<open>Webhook_Example\<close>, and \<^verbatim>\<open>Controller_Manager\<close> (\<^verbatim>\<open>main.go\<close> around them).
  \<^item> Generated code: \<^verbatim>\<open>Deep_Copy\<close> and \<^verbatim>\<open>Deep_Copy_Spec\<close> (both \<^verbatim>\<open>zz_generated.deepcopy.go\<close>, on a
    memory of addresses; the locale \<open>deep_copier\<close> is the contract of a copy),
    \<^verbatim>\<open>Gateway_Client\<close> (the typed client and the clientset) and \<^verbatim>\<open>Informer_Factory\<close> (the shared
    informers and the lister).

  \<^bold>\<open>Bounds and fuel.\<close>  Path resolution follows at most 40 links, as Linux does, and fails
  beyond; \<^verbatim>\<open>os.MkdirTemp\<close> tries 10000 names, as Go does, and the theorems that claim success ask
  for one that is free.  \<^verbatim>\<open>filepath.Walk\<close> and \<^verbatim>\<open>os.RemoveAll\<close> recurse with fuel one more than the
  depth of the file system, and no path is longer than that (\<open>fs_depth_bound\<close>), so the fuel
  never runs out.  The loop of \<^verbatim>\<open>pathsToRemove\<close> over parent directories is a recursive function with a
  termination proof, and \<open>subPaths_terminates\<close> bounds its rounds.  Time-outs are kept at 64 bits, where they can
  wrap around, which is what \<open>request_timeouts\<close> is about.

  \<^bold>\<open>Not modelled.\<close>  Logging and metrics; flag parsing; the registration of types, reconcilers and
  handlers with controller-runtime beyond its succeeding or failing (\<^verbatim>\<open>SetupWithManager\<close>, the
  schemes); the fake clients, which are test doubles over a tracker of client-go, and the small
  interfaces of generated code that only pass a value on.  They are calls into libraries
  without decisions of their own.
\<close>

section \<open>The gateway webhook and the gateway controller together\<close>

text \<open>An accepted gateway that a load balancer exposes names no public IP.\<close>

lemma accepted_LB_public_IPs:
  assumes "validateGateway gw = Inr None" "IsGatewayExposeByLB gw" "ep \<in> set (Endpoints (Spec gw))"
  shows "PublicIP ep = []"
  using assms
  by (cases "Endpoints (Spec gw)")
    (auto simp: validateGateway_Nil validateGateway_Cons Let_def validate_loop_Nil list_all_iff endpoint_ok_def
      IsGatewayExposeByLB_def split: if_splits)

text \<open>
  C8: For a gateway that the webhook accepts and that a load balancer exposes, the election is not
  sticky once the status carries a balancer's IP address (a balancer that is known by a host name
  only gives none, and then it is): the recorded endpoint differs from every endpoint of the spec,
  so every reconcile that gets as far as its election elects the first endpoint of the spec on a
  ready node, whichever was active, and if there is one records a new election event for it
  before it does anything else.
\<close>

theorem LB_election_not_sticky:
  assumes acc: "validateGateway gw = Inr None" and lb: "IsGatewayExposeByLB gw"
    and cur: "ActiveEndpoint (Status gw) = Some cur" "PublicIP cur \<noteq> []"
    and get: "run_state (Get_Gateway c req) s = (Inr gw, s1)"
    and sel: "labels_Parse c (LabelCurrentGateway @ ''='' @ gw_Name gw) = Inr sel"
    and list: "run_state (List_Nodes c sel) s1 = (Inr ns, s2)"
  shows "electActiveEndpoint ns gw =
      find (\<lambda>e. \<exists>v \<in> set ns. isNodeReady v \<and> node_Name v = NodeName e) (Endpoints (Spec gw)) \<and>
    (\<forall>e. electActiveEndpoint ns gw = Some e \<longrightarrow> e \<noteq> cur \<and>
       (\<exists>ev. ev_reason ev = EventActiveEndpointElected \<and> ev_type ev = EventTypeNormal \<and>
         run_state (GatewayReconcile c rk req) s = run_state (do {
           _ \<leftarrow> Record_Event c gw ev;
           lb \<leftarrow> exposeByLB c (Some e);
           case lb of
             Inl out \<Rightarrow> State_Monad.return out
           | Inr ep \<Rightarrow> updateStatus c rk gw ns ep
         }) s2))"
proof -
  have notin: "cur \<notin> set (Endpoints (Spec gw))" using accepted_LB_public_IPs [OF acc lb] cur(2) by blast
  then have elect: "electActiveEndpoint ns gw =
      find (\<lambda>e. \<exists>v \<in> set ns. isNodeReady v \<and> node_Name v = NodeName e) (Endpoints (Spec gw))"
    using cur(1) by (simp add: electActiveEndpoint_eq host_ready_def list_ex_iff Bex_def)
  have "e \<noteq> cur \<and> (\<exists>ev. ev_reason ev = EventActiveEndpointElected \<and> ev_type ev = EventTypeNormal \<and>
         run_state (GatewayReconcile c rk req) s = run_state (do {
           _ \<leftarrow> Record_Event c gw ev;
           lb \<leftarrow> exposeByLB c (Some e);
           case lb of
             Inl out \<Rightarrow> State_Monad.return out
           | Inr ep \<Rightarrow> updateStatus c rk gw ns ep
         }) s2)" if e: "electActiveEndpoint ns gw = Some e" for e
  proof -
    have ne: "e \<noteq> cur" using electActiveEndpoint_sound' [OF e] notin by auto
    then obtain ev where ev: "endpointEvent (Some cur) (Some e) = Some ev"
      "ev_reason ev = EventActiveEndpointElected" "ev_type ev = EventTypeNormal"
      by (auto simp: endpointEvent_def)
    have "run_state (GatewayReconcile c rk req) s = run_state (do {
           _ \<leftarrow> Record_Event c gw ev;
           lb \<leftarrow> exposeByLB c (Some e);
           case lb of
             Inl out \<Rightarrow> State_Monad.return out
           | Inr ep \<Rightarrow> updateStatus c rk gw ns ep
         }) s2"
      using get sel list e lb cur(1) ev(1) by (simp add: GatewayReconcile_def recordEndpointEvent_def Let_def)
    with ne ev(2,3) show ?thesis by blast
  qed
  with elect show ?thesis by blast
qed

definition LB_gateway :: gateway where
  "LB_gateway = demo_gateway ExposeTypeLoadBalancer [''n1'', ''n2'']
     (Some ((demo_endpoint ''n2'')\<lparr>PublicIP := ''10.0.0.7''\<rparr>))"

text \<open>Both nodes are ready and the second endpoint is active: the first one is elected instead.\<close>

theorem LB_election_not_sticky_witness:
  "\<exists>g ev. run_state (GatewayReconcile (demo_cluster [demo_node ''n1'' ''True'', demo_node ''n2'' ''True''] [''10.0.0.7''])
       (\<lambda>_. []) (NamespacedName [] ''gw'')) (LB_gateway, []) = (Inr (ResultZero, None), (g, [ev])) \<and>
     ev_reason ev = EventActiveEndpointElected \<and>
     ActiveEndpoint (Status g) = Some ((demo_endpoint ''n1'')\<lparr>PublicIP := ''10.0.0.7''\<rparr>)"
proof -
  let ?ns = "[demo_node ''n1'' ''True'', demo_node ''n2'' ''True'']"
  let ?c = "demo_cluster ?ns [''10.0.0.7'']"
  have acc: "validateGateway LB_gateway = Inr None" "IsGatewayExposeByLB LB_gateway"
    by (auto simp: LB_gateway_def demo_gateway_def demo_endpoint_def validateGateway_Cons Let_def validate_loop_Nil
        endpoint_ok_def IsGatewayExposeByLB_def)
  have "electActiveEndpoint ?ns LB_gateway = Some (demo_endpoint ''n1'')"
    by (simp add: LB_gateway_def demo_defs)
  with LB_election_not_sticky [OF acc, of "(demo_endpoint ''n2'')\<lparr>PublicIP := ''10.0.0.7''\<rparr>" ?c "NamespacedName [] ''gw''"
      "(LB_gateway, [])" "(LB_gateway, [])" _ ?ns "(LB_gateway, [])" "\<lambda>_. []"]
  obtain ev where "ev_reason ev = EventActiveEndpointElected"
    "run_state (GatewayReconcile ?c (\<lambda>_. []) (NamespacedName [] ''gw'')) (LB_gateway, []) = run_state (do {
           _ \<leftarrow> Record_Event ?c LB_gateway ev;
           lb \<leftarrow> exposeByLB ?c (Some (demo_endpoint ''n1''));
           case lb of
             Inl out \<Rightarrow> State_Monad.return out
           | Inr ep \<Rightarrow> updateStatus ?c (\<lambda>_. []) LB_gateway ?ns ep
         }) (LB_gateway, [])"
    by (auto simp: demo_cluster_def LB_gateway_def demo_gateway_def)
  then show ?thesis
    by (simp add: demo_cluster_def exposeByLB_def updateStatus_def getPodCIDRs_def)
qed

end
